(* ===== verification/Prelude.thy ===== *)
theory Prelude
  imports Complex_Main "HOL-Library.Word"
begin

unbundle bit_operations_syntax

text \<open>
  Shared foundations of the development: Go's \<^verbatim>\<open>int64\<close> arithmetic (two's complement,
  wrapping), Go's truncating integer division, and the generic list and map lemmas that the
  component theories share.

  An \<^verbatim>\<open>int64\<close> of the program is an \<^typ>\<open>int\<close> of the model. Every operation of the
  source that can leave the 64-bit range is written with the wrapping operations below, so
  overflow behaves as in Go; comparison, \<^verbatim>\<open>min\<close> and \<^verbatim>\<open>max\<close> need no
  wrapping. Unsigned hashes are \<open>64 word\<close>, behaviour flags are \<open>32 word\<close>.
\<close>

named_theorems go_arith \<open>definitions of Go's machine arithmetic\<close>
named_theorems op_defs \<open>unfolding rules of the operations of the component under proof\<close>

type_synonym i64 = int
type_synonym u64 = "64 word"
type_synonym key = string

subsection \<open>64-bit signed integers\<close>

definition wrap64 :: "int \<Rightarrow> i64" where
  "wrap64 x = (x + 2 ^ 63) mod 2 ^ 64 - 2 ^ 63"

definition minI64 :: i64 where "minI64 = - (2 ^ 63)"
definition maxI64 :: i64 where "maxI64 = 2 ^ 63 - 1"

definition in64 :: "int \<Rightarrow> bool" where
  "in64 x \<longleftrightarrow> minI64 \<le> x \<and> x \<le> maxI64"

definition add64 :: "i64 \<Rightarrow> i64 \<Rightarrow> i64" where "add64 a b = wrap64 (a + b)"
definition sub64 :: "i64 \<Rightarrow> i64 \<Rightarrow> i64" where "sub64 a b = wrap64 (a - b)"
definition mul64 :: "i64 \<Rightarrow> i64 \<Rightarrow> i64" where "mul64 a b = wrap64 (a * b)"

lemmas [go_arith] = add64_def sub64_def mul64_def

lemma in64_wrap64 [simp, intro]: "in64 (wrap64 x)"
proof -
  have "0 \<le> (x + 2 ^ 63) mod 2 ^ 64" "(x + 2 ^ 63) mod 2 ^ 64 < (2 ^ 64 :: int)" by simp_all
  then show ?thesis by (simp add: in64_def wrap64_def minI64_def maxI64_def)
qed

lemma wrap64_id [simp]: "in64 x \<Longrightarrow> wrap64 x = x"
  by (simp add: in64_def wrap64_def minI64_def maxI64_def)

lemma in64_ops [simp]: "in64 (add64 a b)" "in64 (sub64 a b)" "in64 (mul64 a b)"
  by (simp_all add: go_arith)

lemma in64_zero [simp]: "in64 0" and in64_one [simp]: "in64 1"
  by (simp_all add: in64_def minI64_def maxI64_def)

lemma add64_exact: "in64 (a + b) \<Longrightarrow> add64 a b = a + b"
  and sub64_exact: "in64 (a - b) \<Longrightarrow> sub64 a b = a - b"
  and mul64_exact: "in64 (a * b) \<Longrightarrow> mul64 a b = a * b"
  by (simp_all add: go_arith)

lemma wrap64_eq_iff: "wrap64 a = wrap64 b \<longleftrightarrow> a mod 2 ^ 64 = b mod 2 ^ 64"
proof -
  have "(a + 2 ^ 63) mod 2 ^ 64 = (b + 2 ^ 63) mod 2 ^ 64 \<longleftrightarrow> a mod 2 ^ 64 = b mod (2 ^ 64 :: int)"
    by (simp only: mod_eq_dvd_iff add_diff_cancel_right)
  then show ?thesis by (simp add: wrap64_def)
qed

lemma mod_wrap64: "wrap64 a mod 2 ^ 64 = a mod 2 ^ 64"
  using wrap64_eq_iff [of "wrap64 a" a] by simp

lemma wrap64_add_left [simp]: "wrap64 (wrap64 a + b) = wrap64 (a + b)"
  and wrap64_add_right [simp]: "wrap64 (a + wrap64 b) = wrap64 (a + b)"
  by (metis mod_add_left_eq mod_wrap64 wrap64_eq_iff, metis mod_add_right_eq mod_wrap64 wrap64_eq_iff)

lemma sub64_self [simp]: "sub64 a a = 0"
  by (simp add: sub64_def)

lemma sub64_zero [simp]: "in64 a \<Longrightarrow> sub64 a 0 = a"
  by (simp add: sub64_def)

text \<open>A difference that stays within non-negative operands never wraps.\<close>

lemma sub64_nonneg: "in64 a \<Longrightarrow> in64 b \<Longrightarrow> 0 \<le> a \<Longrightarrow> 0 \<le> b \<Longrightarrow> sub64 a b = a - b"
  by (rule sub64_exact) (simp add: in64_def minI64_def maxI64_def)

subsection \<open>Go's integer division truncates towards zero\<close>

definition quot :: "int \<Rightarrow> int \<Rightarrow> int" where
  "quot a b = sgn a * sgn b * (\<bar>a\<bar> div \<bar>b\<bar>)"

lemma quot_nonneg: "0 \<le> a \<Longrightarrow> 0 < b \<Longrightarrow> quot a b = a div b"
  by (cases "a = 0") (simp_all add: quot_def)

lemma quot_mono_nonneg: "0 \<le> a \<Longrightarrow> a \<le> b \<Longrightarrow> 0 < c \<Longrightarrow> quot a c \<le> quot b c"
  by (simp add: quot_nonneg zdiv_mono1)

subsection \<open>Lists and maps\<close>

lemma distinct_map_filter_key: "distinct (map f xs) \<Longrightarrow> distinct (map f (filter P xs))"
  by (induction xs) auto

lemma map_of_eq_find: "map_of (map (\<lambda>x. (f x, x)) xs) k = find (\<lambda>x. f x = k) xs"
  by (induction xs) auto

lemma find_Some_mem: "find P xs = Some x \<Longrightarrow> x \<in> set xs \<and> P x"
  by (induction xs) (auto split: if_splits)

lemma find_None_iff_all: "find P xs = None \<longleftrightarrow> (\<forall>x \<in> set xs. \<not> P x)"
  by (induction xs) auto

lemma find_append: "find P (xs @ ys) = (case find P xs of None \<Rightarrow> find P ys | Some x \<Rightarrow> Some x)"
  by (induction xs) auto

lemma find_filter_indep: "(\<And>x. P x \<Longrightarrow> Q x) \<Longrightarrow> find P (filter Q xs) = find P xs"
  by (induction xs) auto

end
