(* ===== verification/Float64.thy ===== *)
theory Float64
  imports Prelude "HOL-Library.Log_Nat"
begin

text \<open>
  Go's \<^verbatim>\<open>float64\<close>: IEEE-754 binary64 with round-to-nearest-even, as an executable
  datatype. A finite value is the rational number it denotes; zero has two signs, because
  dividing by a negative zero gives a negative infinity. Every operation rounds its exact
  result once, as the amd64 compiler does (no fused multiply-add); the conversion
  \<^verbatim>\<open>int64(f)\<close> of a value out of range gives the smallest \<^verbatim>\<open>int64\<close>, again as
  on amd64. Rounding is characterised by one lemma, \<open>round64_nearest\<close>: no representable
  number is nearer to the exact result. Exactness on representable numbers, monotonicity and
  the error bounds used by the bucket proofs are its corollaries.
\<close>

subsection \<open>Rounding\<close>

text \<open>The exponent of a positive rational: \<open>2\<^bsup>e\<^esup> \<le> q < 2\<^bsup>e+1\<^esup>\<close>.\<close>

definition flog2 :: "rat \<Rightarrow> int" where
  "flog2 q = (if 1 \<le> q then bitlen \<lfloor>q\<rfloor> - 1 else - bitlen (\<lceil>1 / q\<rceil> - 1))"

text \<open>The nearest integer, ties to even.\<close>

definition rne :: "rat \<Rightarrow> int" where
  "rne x = (let f = \<lfloor>x\<rfloor>; r = x - of_int f
            in if r < 1 / 2 then f else if 1 / 2 < r then f + 1 else if even f then f else f + 1)"

definition ulp64 :: "rat \<Rightarrow> rat" where
  "ulp64 q = 2 powi (max (flog2 \<bar>q\<bar> - 52) (- 1074))"

definition round64 :: "rat \<Rightarrow> rat" where
  "round64 q = (if q = 0 then 0 else of_int (rne (q / ulp64 q)) * ulp64 q)"

text \<open>Numbers with a 53-bit significand (overflow is treated by the constructor below).\<close>

definition repr64 :: "rat \<Rightarrow> bool" where
  "repr64 q \<longleftrightarrow> (\<exists>m k. q = of_int m * 2 powi k \<and> \<bar>m\<bar> \<le> 2 ^ 53 \<and> - 1074 \<le> k)"

lemma bitlen_pos: "0 < x \<Longrightarrow> 0 < bitlen x"
  using floorlog_eq_zero_iff [of 2 "nat x"] by (simp add: bitlen_def)

lemma flog2_bounds:
  assumes "0 < q"
  shows "2 powi flog2 q \<le> q" and "q < 2 powi (flog2 q + 1)"
proof -
  have "2 powi flog2 q \<le> q \<and> q < 2 powi (flog2 q + 1)"
  proof (cases "1 \<le> q")
    case True
    then have pos: "0 < \<lfloor>q\<rfloor>" by (simp add: le_floor_iff)
    from bitlen_bounds [OF pos] have b: "2 ^ nat (bitlen \<lfloor>q\<rfloor> - 1) \<le> \<lfloor>q\<rfloor>" "\<lfloor>q\<rfloor> < 2 ^ nat (bitlen \<lfloor>q\<rfloor>)"
      by auto
    have e: "0 < bitlen \<lfloor>q\<rfloor>" using pos by (rule bitlen_pos)
    from b(1) have "of_int (2 ^ nat (bitlen \<lfloor>q\<rfloor> - 1)) \<le> q" by (simp only: le_floor_iff)
    moreover from b(2) have "q < of_int (2 ^ nat (bitlen \<lfloor>q\<rfloor>))" by (simp only: floor_less_iff)
    ultimately show ?thesis using True e by (simp add: flog2_def power_int_def)
  next
    case False
    let ?c = "\<lceil>1 / q\<rceil>" and ?j = "bitlen (\<lceil>1 / q\<rceil> - 1)"
    have "1 < 1 / q" using assms False by simp
    then have c: "0 < ?c - 1" by linarith
    from bitlen_bounds [OF c] have b: "2 ^ nat (?j - 1) \<le> ?c - 1" "?c - 1 < 2 ^ nat ?j" by auto
    have j: "0 < ?j" using c by (rule bitlen_pos)
    from b(2) have "?c \<le> 2 ^ nat ?j" by linarith
    then have "1 / q \<le> of_int (2 ^ nat ?j)" by (simp only: ceiling_le_iff)
    then have lo: "1 / 2 ^ nat ?j \<le> q" using assms by (simp add: field_simps)
    from b(1) have "2 ^ nat (?j - 1) < ?c" by linarith
    then have "of_int (2 ^ nat (?j - 1)) < 1 / q" by (simp only: less_ceiling_iff)
    then have hi: "q < 1 / 2 ^ nat (?j - 1)" using assms by (simp add: field_simps)
    have "2 powi (- ?j) = (1 / 2 ^ nat ?j :: rat)" "2 powi (- ?j + 1) = (1 / 2 ^ nat (?j - 1) :: rat)"
      using j by (auto simp: power_int_def field_simps)
    then show ?thesis using lo hi False by (simp add: flog2_def)
  qed
  then show "2 powi flog2 q \<le> q" and "q < 2 powi (flog2 q + 1)" by auto
qed

lemma rne_nearest: "\<bar>of_int (rne x) - x\<bar> \<le> \<bar>of_int n - x\<bar>"
proof -
  let ?f = "\<lfloor>x\<rfloor>"
  have f: "of_int ?f \<le> x" "x < of_int ?f + 1" by linarith+
  have "of_int n \<le> (of_int ?f :: rat) \<or> (of_int ?f + 1 :: rat) \<le> of_int n"
    by (metis of_int_1 of_int_add of_int_le_iff not_le zless_imp_add1_zle)
  with f show ?thesis by (auto simp: rne_def Let_def)
qed

lemma rne_floor: "rne x = \<lfloor>x\<rfloor> \<or> rne x = \<lfloor>x\<rfloor> + 1"
  by (simp add: rne_def Let_def)

lemma ulp64_pos [simp]: "0 < ulp64 q"
  by (simp add: ulp64_def)

lemma abs_ulp64 [simp]: "\<bar>ulp64 q\<bar> = ulp64 q"
  using ulp64_pos [of q] by (rule abs_of_pos)

lemma two_powi_mono: "a \<le> b \<Longrightarrow> 2 powi a \<le> (2 powi b :: rat)"
  by (simp add: power_int_increasing)

lemma two_powi_split: "a \<le> b \<Longrightarrow> 2 powi b = (2 ^ nat (b - a) * 2 powi a :: rat)"
proof -
  assume ab: "a \<le> b"
  have "2 powi b = (2 powi ((b - a) + a) :: rat)" by simp
  also have "\<dots> = 2 powi (b - a) * 2 powi a" by (rule power_int_add) simp
  also have "2 powi (b - a) = (2 ^ nat (b - a) :: rat)" using ab by (simp add: power_int_def)
  finally show ?thesis .
qed

lemma round64_nearest_multiple:
  assumes "x \<noteq> 0"
  shows "\<bar>round64 x - x\<bar> \<le> \<bar>of_int n * ulp64 x - x\<bar>"
proof -
  let ?u = "ulp64 x"
  have scale: "\<bar>of_int k * ?u - x\<bar> = ?u * \<bar>of_int k - x / ?u\<bar>" for k
  proof -
    have "?u \<noteq> 0" using ulp64_pos [of x] by linarith
    then have "of_int k * ?u - x = ?u * (of_int k - x / ?u)" by (simp add: field_simps)
    then show ?thesis by (simp add: abs_mult)
  qed
  show ?thesis using assms rne_nearest [of "x / ?u" n] ulp64_pos [of x]
    by (simp add: round64_def scale)
qed

lemma round64_nearest:
  assumes "repr64 y"
  shows "\<bar>round64 x - x\<bar> \<le> \<bar>y - x\<bar>"
proof (cases "x = 0")
  case True
  then show ?thesis by (simp add: round64_def)
next
  case x: False
  from assms obtain m k where y: "y = of_int m * 2 powi k" and m: "\<bar>m\<bar> \<le> 2 ^ 53" and k: "- 1074 \<le> k"
    by (auto simp: repr64_def)
  define e where "e = flog2 \<bar>x\<bar>"
  define E where "E = max (e - 52) (- 1074)"
  have u: "ulp64 x = 2 powi E" by (simp add: ulp64_def E_def e_def)
  show ?thesis
  proof (cases "E \<le> k")
    case True
    have "y = of_int (m * 2 ^ nat (k - E)) * ulp64 x"
      by (simp add: y u two_powi_split [OF True])
    then show ?thesis by (simp only: round64_nearest_multiple [OF x])
  next
    case False
    then have E: "E = e - 52" and ke: "k \<le> e - 53" using k by (auto simp: E_def)
    have "\<bar>y\<bar> \<le> 2 ^ 53 * 2 powi k"
    proof -
      have "rat_of_int \<bar>m\<bar> \<le> rat_of_int (2 ^ 53)" using m by (simp only: of_int_le_iff)
      then show ?thesis by (simp add: y abs_mult mult_right_mono)
    qed
    also have "\<dots> = 2 powi (k + 53)" by (simp add: power_int_add)
    also have "\<dots> \<le> 2 powi e" using ke by (intro two_powi_mono) simp
    finally have ye: "\<bar>y\<bar> \<le> 2 powi e" .
    have ex: "2 powi e \<le> \<bar>x\<bar>" using flog2_bounds [of "\<bar>x\<bar>"] x by (simp add: e_def)
    have z: "of_int (2 ^ 52) * ulp64 x = 2 powi e" by (simp add: u E power_int_diff)
    have "\<bar>round64 x - x\<bar> \<le> \<bar>x\<bar> - 2 powi e"
    proof (cases "0 < x")
      case True
      then show ?thesis using round64_nearest_multiple [OF x, of "2 ^ 52"] z ex by simp
    next
      case False
      then show ?thesis using round64_nearest_multiple [OF x, of "- (2 ^ 52)"] z ex by simp
    qed
    also have "\<dots> \<le> \<bar>y - x\<bar>" using ye by linarith
    finally show ?thesis .
  qed
qed

lemma repr64_0 [simp]: "repr64 0"
  unfolding repr64_def by (rule exI [of _ 0], rule exI [of _ 0]) simp

lemma repr64_int: "\<bar>n\<bar> \<le> 2 ^ 53 \<Longrightarrow> repr64 (of_int n)"
  unfolding repr64_def by (rule exI [of _ n], rule exI [of _ 0]) simp

lemma repr64_uminus [simp]: "repr64 (- q) \<longleftrightarrow> repr64 q"
proof -
  have "repr64 (- q)" if "repr64 q" for q
  proof -
    from that obtain m k where "q = of_int m * 2 powi k" "\<bar>m\<bar> \<le> 2 ^ 53" "- 1074 \<le> k"
      by (auto simp: repr64_def)
    then have "- q = of_int (- m) * 2 powi k" "\<bar>- m\<bar> \<le> 2 ^ 53" "- 1074 \<le> k" by simp_all
    then show ?thesis unfolding repr64_def by blast
  qed
  from this [of q] this [of "- q"] show ?thesis by auto
qed

lemma repr64_round64 [simp]: "repr64 (round64 q)"
proof (cases "q = 0")
  case True
  then show ?thesis by (simp add: round64_def)
next
  case False
  let ?e = "flog2 \<bar>q\<bar>" and ?E = "max (flog2 \<bar>q\<bar> - 52) (- 1074)"
  have "\<bar>q\<bar> < 2 powi (?e + 1)" using flog2_bounds [of "\<bar>q\<bar>"] False by simp
  also have "\<dots> \<le> 2 powi (?E + 53)" by (intro two_powi_mono) simp
  also have "\<dots> = 2 ^ 53 * ulp64 q" by (simp add: ulp64_def power_int_add)
  finally have "\<bar>q / ulp64 q\<bar> < 2 ^ 53"
    by (simp add: divide_less_eq abs_divide)
  then have "- (2 ^ 53) \<le> q / ulp64 q" "q / ulp64 q < 2 ^ 53" by linarith+
  then have "- (2 ^ 53) \<le> \<lfloor>q / ulp64 q\<rfloor>" "\<lfloor>q / ulp64 q\<rfloor> < 2 ^ 53"
    by (simp_all add: le_floor_iff floor_less_iff)
  then have "\<bar>rne (q / ulp64 q)\<bar> \<le> 2 ^ 53" using rne_floor [of "q / ulp64 q"] by linarith
  moreover have "round64 q = of_int (rne (q / ulp64 q)) * 2 powi ?E" "- 1074 \<le> ?E"
    using False by (simp_all add: round64_def ulp64_def)
  ultimately show ?thesis unfolding repr64_def by blast
qed

lemma round64_id [simp]: "repr64 q \<Longrightarrow> round64 q = q"
  using round64_nearest [of q q] by simp

lemma round64_mono: "x \<le> y \<Longrightarrow> round64 x \<le> round64 y"
proof (rule ccontr)
  assume xy: "x \<le> y" and "\<not> round64 x \<le> round64 y"
  moreover from this have "x \<noteq> y" by auto
  moreover have "\<bar>round64 x - x\<bar> \<le> \<bar>round64 y - x\<bar>" "\<bar>round64 y - y\<bar> \<le> \<bar>round64 x - y\<bar>"
    by (simp_all add: round64_nearest)
  ultimately show False by linarith
qed

lemma round64_le: "x \<le> y \<Longrightarrow> repr64 y \<Longrightarrow> round64 x \<le> y"
  and round64_ge: "y \<le> x \<Longrightarrow> repr64 y \<Longrightarrow> y \<le> round64 x"
  using round64_mono [of x y] round64_mono [of y x] by simp_all

lemma rne_uminus: "rne (- x) = - rne x"
proof -
  let ?f = "\<lfloor>x\<rfloor>"
  have f: "of_int ?f \<le> x" "x < of_int ?f + 1" by linarith+
  show ?thesis
  proof (cases "x = of_int ?f")
    case True
    then obtain n where "x = of_int n" by blast
    then show ?thesis by (simp add: rne_def flip: of_int_minus)
  next
    case False
    with f(1) have "of_int ?f < x" by (metis order_le_less)
    with f(2) have "\<lfloor>- x\<rfloor> = - ?f - 1" by (intro floor_unique) simp_all
    then show ?thesis by (auto simp: rne_def Let_def)
  qed
qed

lemma ulp64_uminus [simp]: "ulp64 (- q) = ulp64 q"
  by (simp add: ulp64_def)

lemma round64_uminus [simp]: "round64 (- q) = - round64 q"
  by (simp add: round64_def rne_uminus)

lemma round64_0 [simp]: "round64 0 = 0"
  by (simp add: round64_def)

lemma round64_nonneg: "0 \<le> q \<Longrightarrow> 0 \<le> round64 q"
  and round64_nonpos: "q \<le> 0 \<Longrightarrow> round64 q \<le> 0"
  by (simp_all add: round64_ge round64_le)

text \<open>A representable summand bounds the rounding error of a sum by the other summand.\<close>

lemma round64_add_error: "repr64 y \<Longrightarrow> \<bar>round64 (y + d) - (y + d)\<bar> \<le> \<bar>d\<bar>"
  using round64_nearest [of y "y + d"] by simp

subsection \<open>Values\<close>

datatype f64 = NaN | Inf bool | NegZero | Fin rat

text \<open>\<open>Inf True\<close> is negative infinity and \<open>Fin 0\<close> positive zero.\<close>

fun val :: "f64 \<Rightarrow> rat" where
  "val (Fin q) = q"
| "val _ = 0"

fun is_fin :: "f64 \<Rightarrow> bool" where
  "is_fin (Fin q) = True"
| "is_fin NegZero = True"
| "is_fin _ = False"

fun signbit :: "f64 \<Rightarrow> bool" where
  "signbit (Fin q) = (q < 0)"
| "signbit NegZero = True"
| "signbit (Inf s) = s"
| "signbit NaN = False"

definition overflow64 :: rat where "overflow64 = 2 ^ 1024"

text \<open>Evaluation uses the bound as a numeral.\<close>

lemma overflow64_code [code]: "overflow64 = of_int
  179769313486231590772930519078902473361797697894230657273430081157732675805500963132708477322407536021120113879871393357658789768814416622492847430639474124377767893424865485276302219601246094119453082952085005768838150682342462881473913110540827237163350510684586298239947245938479716304835356329624224137216"
  by (simp add: overflow64_def)

lemma overflow64_pos [simp]: "0 < overflow64"
  by (simp add: overflow64_def)

text \<open>The rounded result of an operation; \<open>neg\<close> is the sign of an exact zero.\<close>

definition fl :: "bool \<Rightarrow> rat \<Rightarrow> f64" where
  "fl neg q =
     (if q = 0 then (if neg then NegZero else Fin 0)
      else let r = round64 q in
        if r = 0 then (if q < 0 then NegZero else Fin 0)
        else if overflow64 \<le> \<bar>r\<bar> then Inf (q < 0) else Fin r)"

text \<open>The values a program can hold.\<close>

fun wf64 :: "f64 \<Rightarrow> bool" where
  "wf64 (Fin q) = (repr64 q \<and> \<bar>q\<bar> < overflow64)"
| "wf64 _ = True"

lemma wf64_fl [simp]: "wf64 (fl s q)"
  by (auto simp: fl_def Let_def overflow64_def)

subsection \<open>Arithmetic\<close>

instantiation f64 :: zero
begin
definition zero_f64 :: f64 where "0 = Fin 0"
instance ..
end

instantiation f64 :: uminus
begin
fun uminus_f64 :: "f64 \<Rightarrow> f64" where
  "uminus_f64 NaN = NaN"
| "uminus_f64 (Inf s) = Inf (\<not> s)"
| "uminus_f64 NegZero = Fin 0"
| "uminus_f64 (Fin q) = (if q = 0 then NegZero else Fin (- q))"
instance ..
end

instantiation f64 :: plus
begin
fun plus_f64 :: "f64 \<Rightarrow> f64 \<Rightarrow> f64" where
  "plus_f64 NaN _ = NaN"
| "plus_f64 _ NaN = NaN"
| "plus_f64 (Inf s) (Inf t) = (if s = t then Inf s else NaN)"
| "plus_f64 (Inf s) _ = Inf s"
| "plus_f64 _ (Inf t) = Inf t"
| "plus_f64 a b = fl (a = NegZero \<and> b = NegZero) (val a + val b)"
instance ..
end

instantiation f64 :: minus
begin
definition minus_f64 :: "f64 \<Rightarrow> f64 \<Rightarrow> f64" where "a - b = a + (- b :: f64)"
instance ..
end

instantiation f64 :: times
begin
fun times_f64 :: "f64 \<Rightarrow> f64 \<Rightarrow> f64" where
  "times_f64 NaN _ = NaN"
| "times_f64 _ NaN = NaN"
| "times_f64 (Inf s) (Inf t) = Inf (s \<noteq> t)"
| "times_f64 (Inf s) b = (if val b = 0 then NaN else Inf (s \<noteq> signbit b))"
| "times_f64 a (Inf t) = (if val a = 0 then NaN else Inf (signbit a \<noteq> t))"
| "times_f64 a b = fl (signbit a \<noteq> signbit b) (val a * val b)"
instance ..
end

instantiation f64 :: divide
begin
fun divide_f64 :: "f64 \<Rightarrow> f64 \<Rightarrow> f64" where
  "divide_f64 NaN _ = NaN"
| "divide_f64 _ NaN = NaN"
| "divide_f64 (Inf s) (Inf t) = NaN"
| "divide_f64 (Inf s) b = Inf (s \<noteq> signbit b)"
| "divide_f64 a (Inf t) = (if signbit a \<noteq> t then NegZero else Fin 0)"
| "divide_f64 a b =
     (if val b = 0 then (if val a = 0 then NaN else Inf (signbit a \<noteq> signbit b))
      else fl (signbit a \<noteq> signbit b) (val a / val b))"
instance ..
end

instantiation f64 :: inverse
begin
definition inverse_f64 :: "f64 \<Rightarrow> f64" where "inverse_f64 a = Fin 1 div a"
instance ..
end

text \<open>Comparison: every comparison with NaN is false, the two zeros are equal.\<close>

fun rank :: "f64 \<Rightarrow> int" where
  "rank (Inf s) = (if s then - 1 else 1)"
| "rank _ = 0"

instantiation f64 :: ord
begin
definition less_f64 :: "f64 \<Rightarrow> f64 \<Rightarrow> bool" where
  "a < b \<longleftrightarrow> a \<noteq> NaN \<and> b \<noteq> NaN \<and>
     (rank a < rank b \<or> rank a = 0 \<and> rank b = 0 \<and> val a < val b)"
definition less_eq_f64 :: "f64 \<Rightarrow> f64 \<Rightarrow> bool" where
  "a \<le> b \<longleftrightarrow> a \<noteq> NaN \<and> b \<noteq> NaN \<and> \<not> b < (a :: f64)"
instance ..
end

definition f64_of_int :: "i64 \<Rightarrow> f64" where
  "f64_of_int n = fl False (of_int n)"

text \<open>Go's \<^verbatim>\<open>int64(f)\<close>.\<close>

definition truncate_rat :: "rat \<Rightarrow> int" where
  "truncate_rat q = (if 0 \<le> q then \<lfloor>q\<rfloor> else \<lceil>q\<rceil>)"

fun int64_of :: "f64 \<Rightarrow> i64" where
  "int64_of (Fin q) = (if in64 (truncate_rat q) then truncate_rat q else minI64)"
| "int64_of NegZero = 0"
| "int64_of _ = minI64"

subsection \<open>The functions of package math that the program calls\<close>

definition IsNaN :: "f64 \<Rightarrow> bool" where "IsNaN x \<longleftrightarrow> x = NaN"

definition IsInf :: "f64 \<Rightarrow> bool" where "IsInf x \<longleftrightarrow> (x = Inf True \<or> x = Inf False)"

fun Abs :: "f64 \<Rightarrow> f64" where
  "Abs NaN = NaN"
| "Abs (Inf s) = Inf False"
| "Abs NegZero = Fin 0"
| "Abs (Fin q) = Fin \<bar>q\<bar>"

fun Ceil :: "f64 \<Rightarrow> f64" where
  "Ceil (Fin q) = (if q < 0 \<and> \<lceil>q\<rceil> = 0 then NegZero else Fin (of_int \<lceil>q\<rceil>))"
| "Ceil x = x"

text \<open>\<^verbatim>\<open>math.Min\<close> and \<^verbatim>\<open>math.Max\<close>: an infinity wins over NaN.\<close>

definition fMin :: "f64 \<Rightarrow> f64 \<Rightarrow> f64" where
  "fMin x y =
     (if x = Inf True \<or> y = Inf True then Inf True
      else if IsNaN x \<or> IsNaN y then NaN
      else if is_fin x \<and> is_fin y \<and> val x = 0 \<and> val y = 0 then (if signbit x then x else y)
      else if x < y then x else y)"

definition fMax :: "f64 \<Rightarrow> f64 \<Rightarrow> f64" where
  "fMax x y =
     (if x = Inf False \<or> y = Inf False then Inf False
      else if IsNaN x \<or> IsNaN y then NaN
      else if is_fin x \<and> is_fin y \<and> val x = 0 \<and> val y = 0 then (if signbit x then y else x)
      else if y < x then x else y)"

text \<open>The built-in \<^verbatim>\<open>max\<close> on \<^verbatim>\<open>float64\<close>: NaN wins over everything.\<close>

definition bmax :: "f64 \<Rightarrow> f64 \<Rightarrow> f64" where
  "bmax x y = (if IsNaN x \<or> IsNaN y then NaN else fMax x y)"

subsection \<open>Finite arithmetic\<close>

lemma repr64_pow2 [simp]: "repr64 (2 ^ k)"
  unfolding repr64_def by (rule exI [of _ 1], rule exI [of _ "int k"]) simp

lemma round64_abs_le: "\<bar>q\<bar> \<le> 2 ^ k \<Longrightarrow> \<bar>round64 q\<bar> \<le> 2 ^ k"
  using round64_le [of q "2 ^ k"] round64_ge [of "- (2 ^ k)" q] by (simp add: abs_le_iff)

text \<open>The rounding error is at most half a unit in the last place.\<close>

lemma ulp64_nonzero [simp]: "ulp64 q \<noteq> 0"
  using ulp64_pos [of q] by (metis less_irrefl)

lemma round64_half_ulp: "q \<noteq> 0 \<Longrightarrow> \<bar>round64 q - q\<bar> \<le> ulp64 q / 2"
proof -
  assume nz: "q \<noteq> 0"
  have "\<bar>of_int (rne x) - x\<bar> \<le> 1 / 2" for x :: rat
  proof -
    have "of_int \<lfloor>x\<rfloor> \<le> x" "x < of_int \<lfloor>x\<rfloor> + 1" by linarith+
    then show ?thesis by (auto simp: rne_def Let_def)
  qed
  from mult_right_mono [OF this, of "ulp64 q" "q / ulp64 q"]
  have "\<bar>of_int (rne (q / ulp64 q)) - q / ulp64 q\<bar> * ulp64 q \<le> ulp64 q / 2" by (simp add: less_imp_le)
  moreover have "\<bar>of_int (rne (q / ulp64 q)) - q / ulp64 q\<bar> * ulp64 q = \<bar>round64 q - q\<bar>"
  proof -
    have "round64 q - q = (of_int (rne (q / ulp64 q)) - q / ulp64 q) * ulp64 q"
      using nz by (simp add: round64_def field_simps)
    then show ?thesis by (simp add: abs_mult)
  qed
  ultimately show ?thesis by simp
qed

lemma round64_rel_error: "\<bar>round64 q - q\<bar> \<le> \<bar>q\<bar> / 2 ^ 53 + 1 / 2 ^ 1075"
proof (cases "q = 0")
  case False
  then have "2 powi flog2 \<bar>q\<bar> \<le> \<bar>q\<bar>" using flog2_bounds(1) [of "\<bar>q\<bar>"] by simp
  moreover have "2 powi (flog2 \<bar>q\<bar> - 52) = (2 powi flog2 \<bar>q\<bar> :: rat) / 2 ^ 52"
    by (simp add: power_int_diff)
  moreover have "(2 powi (- 1074) :: rat) = 1 / 2 ^ 1074" by (simp add: power_int_minus inverse_eq_divide)
  ultimately have "ulp64 q \<le> \<bar>q\<bar> / 2 ^ 52 + 1 / 2 ^ 1074"
    by (auto simp: ulp64_def max_def field_simps)
  moreover have "\<bar>round64 q - q\<bar> \<le> ulp64 q / 2" using False by (rule round64_half_ulp)
  ultimately show ?thesis by (simp add: field_simps)
qed simp

lemma fl_fin:
  assumes "\<bar>q\<bar> \<le> 2 ^ 1023"
  shows "is_fin (fl s q)" "val (fl s q) = round64 q"
proof -
  have "\<bar>round64 q\<bar> \<le> 2 ^ 1023" using assms by (rule round64_abs_le)
  moreover have "(2 ^ 1023 :: rat) < overflow64" unfolding overflow64_def by (rule power_strict_increasing) auto
  ultimately have "\<not> overflow64 \<le> \<bar>round64 q\<bar>" by linarith
  then show "is_fin (fl s q)" "val (fl s q) = round64 q" by (auto simp: fl_def Let_def)
qed

lemma fl_not_NaN [simp]: "fl s q \<noteq> NaN"
  by (simp add: fl_def Let_def)

lemma is_fin_iff: "is_fin a \<longleftrightarrow> a \<noteq> NaN \<and> (\<forall>s. a \<noteq> Inf s)"
  by (cases a) auto

lemma plus_fin_fl: "is_fin a \<Longrightarrow> is_fin b \<Longrightarrow> a + b = fl (a = NegZero \<and> b = NegZero) (val a + val b)"
  by (cases a; cases b) auto

lemma times_fin_fl: "is_fin a \<Longrightarrow> is_fin b \<Longrightarrow> a * b = fl (signbit a \<noteq> signbit b) (val a * val b)"
  by (cases a; cases b) auto

lemma divide_fin_fl:
  "is_fin a \<Longrightarrow> is_fin b \<Longrightarrow> val b \<noteq> 0 \<Longrightarrow> a / b = fl (signbit a \<noteq> signbit b) (val a / val b)"
  by (cases a; cases b) auto

lemma uminus_fin [simp]: "is_fin (- a) = is_fin a" "val (- a) = - val a"
  for a :: f64 by (cases a; simp)+

lemma plus_fin:
  assumes "is_fin a" "is_fin b" "\<bar>val a + val b\<bar> \<le> 2 ^ 1023"
  shows "is_fin (a + b)" "val (a + b) = round64 (val a + val b)"
  using fl_fin [OF assms(3)] by (simp_all add: plus_fin_fl assms(1,2))

lemma minus_fin:
  assumes "is_fin a" "is_fin b" "\<bar>val a - val b\<bar> \<le> 2 ^ 1023"
  shows "is_fin (a - b)" "val (a - b) = round64 (val a - val b)"
  using plus_fin [of a "- b"] assms by (simp_all add: minus_f64_def)

lemma times_fin:
  assumes "is_fin a" "is_fin b" "\<bar>val a * val b\<bar> \<le> 2 ^ 1023"
  shows "is_fin (a * b)" "val (a * b) = round64 (val a * val b)"
  using fl_fin [OF assms(3)] by (simp_all add: times_fin_fl assms(1,2))

lemma divide_fin:
  assumes "is_fin a" "is_fin b" "val b \<noteq> 0" "\<bar>val a / val b\<bar> \<le> 2 ^ 1023"
  shows "is_fin (a / b)" "val (a / b) = round64 (val a / val b)"
  using fl_fin [OF assms(4)] by (simp_all add: divide_fin_fl assms(1-3))

lemma f64_of_int_fin:
  assumes "in64 n"
  shows "is_fin (f64_of_int n)" "val (f64_of_int n) = round64 (of_int n)"
    "\<bar>val (f64_of_int n)\<bar> \<le> 2 ^ 63"
proof -
  have n: "\<bar>of_int n :: rat\<bar> \<le> 2 ^ 63"
  proof -
    have "\<bar>n\<bar> \<le> 2 ^ 63" using assms by (auto simp: in64_def minI64_def maxI64_def)
    then have "of_int \<bar>n\<bar> \<le> (of_int (2 ^ 63) :: rat)" by (simp only: of_int_le_iff)
    then show ?thesis by simp
  qed
  also have "(2 ^ 63 :: rat) \<le> 2 ^ 1023" by (rule power_increasing) auto
  finally have "\<bar>of_int n :: rat\<bar> \<le> 2 ^ 1023" .
  from fl_fin [OF this, of False] round64_abs_le [OF n]
  show "is_fin (f64_of_int n)" "val (f64_of_int n) = round64 (of_int n)"
    "\<bar>val (f64_of_int n)\<bar> \<le> 2 ^ 63" by (simp_all add: f64_of_int_def)
qed

lemma f64_of_int_not_NaN [simp]: "f64_of_int n \<noteq> NaN"
  by (simp add: f64_of_int_def)

lemma f64_of_int_exact: "\<bar>n\<bar> \<le> 2 ^ 53 \<Longrightarrow> f64_of_int n = Fin (of_int n)"
proof -
  assume a: "\<bar>n\<bar> \<le> 2 ^ 53"
  have "in64 n" using a unfolding in64_def minI64_def maxI64_def by simp linarith
  from f64_of_int_fin(1,2) [OF this] a have v: "is_fin (f64_of_int n)" "val (f64_of_int n) = of_int n"
    by (simp_all add: repr64_int)
  then show ?thesis by (cases "f64_of_int n") (auto simp: f64_of_int_def fl_def Let_def split: if_splits)
qed

subsection \<open>Order\<close>

lemma less_fin [simp]: "is_fin a \<Longrightarrow> is_fin b \<Longrightarrow> a < b \<longleftrightarrow> val a < val b"
  by (cases a; cases b) (simp_all add: less_f64_def)

lemma le_fin [simp]: "is_fin a \<Longrightarrow> is_fin b \<Longrightarrow> a \<le> b \<longleftrightarrow> val a \<le> val b"
  by (cases a; cases b) (auto simp: less_eq_f64_def less_f64_def)

lemma less_NaN [simp]: "\<not> a < NaN" "\<not> NaN < a"
  by (simp_all add: less_f64_def)

lemma le_NaN [simp]: "\<not> a \<le> NaN" "\<not> NaN \<le> a"
  by (simp_all add: less_eq_f64_def)

lemma le_not_NaN: "a \<le> b \<Longrightarrow> a \<noteq> NaN \<and> b \<noteq> (NaN :: f64)"
  by (simp add: less_eq_f64_def)

lemma not_less_f64: "a \<noteq> NaN \<Longrightarrow> b \<noteq> NaN \<Longrightarrow> \<not> a < b \<longleftrightarrow> b \<le> (a :: f64)"
  by (simp add: less_eq_f64_def)

lemma le_Inf [simp]: "Inf True \<le> a \<longleftrightarrow> a \<noteq> NaN" "a \<le> Inf False \<longleftrightarrow> a \<noteq> NaN"
  by (cases a; auto simp: less_eq_f64_def less_f64_def)+

lemma f64_le_trans: "a \<le> b \<Longrightarrow> b \<le> c \<Longrightarrow> a \<le> (c :: f64)"
  by (cases a; cases b; cases c) (auto simp: less_eq_f64_def less_f64_def split: if_splits)

lemma f64_le_refl [simp]: "a \<noteq> NaN \<Longrightarrow> a \<le> (a :: f64)"
  by (simp add: less_eq_f64_def less_f64_def)

text \<open>A value below a finite one is finite or negative infinity.\<close>

lemma le_fin_cases:
  assumes "a \<le> b" "is_fin b"
  shows "a = Inf True \<or> is_fin a \<and> val a \<le> val b"
  using assms by (cases a; cases b) (auto simp: less_eq_f64_def less_f64_def split: if_splits)

lemma fMin_fin:
  "is_fin a \<Longrightarrow> is_fin b \<Longrightarrow> is_fin (fMin a b) \<and> val (fMin a b) = min (val a) (val b)"
  by (cases a; cases b) (auto simp: fMin_def IsNaN_def less_f64_def)

lemma fMax_fin:
  "is_fin a \<Longrightarrow> is_fin b \<Longrightarrow> is_fin (fMax a b) \<and> val (fMax a b) = max (val a) (val b)"
  by (cases a; cases b) (auto simp: fMax_def IsNaN_def less_f64_def)

lemma fMin_le:
  assumes "a \<noteq> NaN" "b \<noteq> NaN"
  shows "fMin a b \<noteq> NaN" "fMin a b \<le> a" "fMin a b \<le> b"
  using assms by (cases a; cases b; auto simp: fMin_def IsNaN_def less_f64_def less_eq_f64_def)+

lemma fMax_not_NaN: "a \<noteq> NaN \<Longrightarrow> b \<noteq> NaN \<Longrightarrow> fMax a b \<noteq> NaN"
  by (simp add: fMax_def IsNaN_def)

subsection \<open>Evaluation on whole numbers\<close>

text \<open>Whole numbers up to \<open>2\<^bsup>53\<^esup>\<close> are exact, so arithmetic on them needs no rounding.\<close>

lemma fl_exact: "repr64 q \<Longrightarrow> \<bar>q\<bar> \<le> 2 ^ 1023 \<Longrightarrow> q \<noteq> 0 \<Longrightarrow> fl s q = Fin q"
  using fl_fin [of q s] by (auto simp: fl_def Let_def split: if_splits)

lemma repr64_numeral: "numeral n \<le> (2 ^ 53 :: int) \<Longrightarrow> repr64 (numeral n)"
  using repr64_int [of "numeral n"] by simp

lemma fl_numeral:
  assumes "numeral n \<le> (2 ^ 53 :: int)"
  shows "fl s (numeral n) = Fin (numeral n)" "fl s (- numeral n) = Fin (- numeral n)"
proof -
  have "(numeral n :: rat) \<le> of_int (2 ^ 53)" using assms by (metis of_int_le_iff of_int_numeral)
  moreover have "(of_int (2 ^ 53) :: rat) \<le> 2 ^ 1023" by simp
  ultimately have "(numeral n :: rat) \<le> 2 ^ 1023" by linarith
  then show "fl s (numeral n) = Fin (numeral n)" "fl s (- numeral n) = Fin (- numeral n)"
    using repr64_numeral [OF assms] by (simp_all add: fl_exact)
qed

lemma fl_small [simp]: "fl s 1 = Fin 1" "fl s (- 1) = Fin (- 1)" "fl False 0 = Fin 0"
  using repr64_int [of 1] fl_exact [of 1 s] fl_exact [of "- 1" s] by (simp_all add: fl_def)

lemmas whole_eval = fl_numeral f64_of_int_def minus_f64_def less_f64_def less_eq_f64_def truncate_rat_def
  in64_def minI64_def maxI64_def

end
