(* ===== verification/GoTime.thy ===== *)
theory GoTime
  imports Prelude
begin

text \<open>
  The part of Go's package \<^verbatim>\<open>time\<close> that the program uses: instants, the civil
  calendar, \<^verbatim>\<open>Date\<close>, \<^verbatim>\<open>AddDate\<close>, \<^verbatim>\<open>Truncate\<close>, \<^verbatim>\<open>Weekday\<close>.
  An instant is a number of nanoseconds since the Unix epoch together with its location. A
  location is the zone table of the source: a lookup from Unix seconds to the zone's offset
  and the range of seconds in which that offset is valid.
\<close>

type_synonym location = "int \<Rightarrow> int \<times> int \<times> int"

record Time =
  t_ns :: int
  t_loc :: location

definition fixed_zone :: "int \<Rightarrow> location" where
  "fixed_zone off = (\<lambda>_. (off, minI64, maxI64))"

definition UTC :: location where "UTC = fixed_zone 0"

abbreviation (input) ns_per_s :: int where "ns_per_s \<equiv> 1000000000"
abbreviation (input) ns_per_min :: int where "ns_per_min \<equiv> 60000000000"
abbreviation (input) ns_per_hour :: int where "ns_per_hour \<equiv> 3600000000000"
abbreviation (input) ns_per_ms :: int where "ns_per_ms \<equiv> 1000000"

definition UnixNano :: "Time \<Rightarrow> i64" where
  "UnixNano t = wrap64 (t_ns t)"

definition Add_dur :: "Time \<Rightarrow> int \<Rightarrow> Time" where
  "Add_dur t d = t\<lparr>t_ns := t_ns t + d\<rparr>"

text \<open>\<^verbatim>\<open>Truncate\<close> rounds down to a multiple of \<open>d\<close> since the zero time (1 January of year 1).\<close>

definition Truncate :: "Time \<Rightarrow> int \<Rightarrow> Time" where
  "Truncate t d = Add_dur t (- ((t_ns t + 62135596800 * ns_per_s) mod d))"

definition Sub_dur :: "Time \<Rightarrow> Time \<Rightarrow> i64" where
  "Sub_dur t u = max minI64 (min maxI64 (t_ns t - t_ns u))"

definition Milliseconds :: "i64 \<Rightarrow> i64" where
  "Milliseconds d = quot d ns_per_ms"

subsection \<open>The civil calendar\<close>

definition is_leap :: "int \<Rightarrow> bool" where
  "is_leap y \<longleftrightarrow> 4 dvd y \<and> (\<not> 100 dvd y \<or> 400 dvd y)"

text \<open>Days from 1 January of year 1 to 1 January of year \<open>y\<close>.\<close>

definition days_before_year :: "int \<Rightarrow> int" where
  "days_before_year y = 365 * (y - 1) + (y - 1) div 4 - (y - 1) div 100 + (y - 1) div 400"

definition month_lengths :: "int \<Rightarrow> int list" where
  "month_lengths y = [31, if is_leap y then 29 else 28, 31, 30, 31, 30, 31, 31, 30, 31, 30, 31]"

text \<open>The year in which a day (counted from 1 January of year 1) falls: 400, 100, 4 and 1-year cycles.\<close>

definition year_of_day :: "int \<Rightarrow> int" where
  "year_of_day n =
     (let n400 = n div 146097; a = n mod 146097;
          n100 = min 3 (a div 36524); b = a - 36524 * n100;
          n4 = b div 1461; c = b mod 1461;
          n1 = min 3 (c div 365)
      in 400 * n400 + 100 * n100 + 4 * n4 + n1 + 1)"

fun month_of_yday :: "int list \<Rightarrow> int \<Rightarrow> int \<Rightarrow> int \<times> int" where
  "month_of_yday [] m d = (m, d)"
| "month_of_yday (l # ls) m d = (if d < l then (m, d) else month_of_yday ls (m + 1) (d - l))"

definition epoch_day :: int where "epoch_day = 719162"

definition offset_at :: "Time \<Rightarrow> int" where
  "offset_at t = fst (t_loc t (t_ns t div ns_per_s))"

definition local_sec :: "Time \<Rightarrow> int" where
  "local_sec t = t_ns t div ns_per_s + offset_at t"

definition Date_of :: "Time \<Rightarrow> int \<times> int \<times> int" where
  "Date_of t =
     (let n = local_sec t div 86400 + epoch_day;
          y = year_of_day n;
          (m, d) = month_of_yday (month_lengths y) 1 (n - days_before_year y)
      in (y, m, d + 1))"

definition Hour :: "Time \<Rightarrow> int" where
  "Hour t = local_sec t mod 86400 div 3600"

definition Clock_sec :: "Time \<Rightarrow> int" where
  "Clock_sec t = local_sec t mod 86400"

text \<open>Sunday is 0; 1 January 1970 was a Thursday.\<close>

definition Weekday :: "Time \<Rightarrow> int" where
  "Weekday t = (local_sec t div 86400 + 4) mod 7"

text \<open>Day number of a date whose month is normalised and whose day may lie outside the month.\<close>

definition day_number :: "int \<Rightarrow> int \<Rightarrow> int \<Rightarrow> int" where
  "day_number y m d =
     (let y' = y + (m - 1) div 12; m' = (m - 1) mod 12
      in days_before_year y' + sum_list (take (nat m') (month_lengths y')) + (d - 1) - epoch_day)"

text \<open>
  \<^verbatim>\<open>time.Date\<close>: the civil time is read in UTC first and moved by the offset found there;
  when the result lies outside the range of that offset the offset is looked up again.
\<close>

definition zone_adjust :: "location \<Rightarrow> int \<Rightarrow> int" where
  "zone_adjust loc s =
     (case loc s of (off, start, fin) \<Rightarrow>
        if off = 0 then s
        else let utc = s - off in
          if utc < start \<or> fin \<le> utc then s - fst (loc utc) else utc)"

definition mkDate :: "int \<Rightarrow> int \<Rightarrow> int \<Rightarrow> int \<Rightarrow> int \<Rightarrow> int \<Rightarrow> int \<Rightarrow> location \<Rightarrow> Time" where
  "mkDate y m d hh mm ss ns loc =
     (let s = day_number y m d * 86400 + hh * 3600 + mm * 60 + ss + ns div ns_per_s
      in \<lparr>t_ns = zone_adjust loc s * ns_per_s + ns mod ns_per_s, t_loc = loc\<rparr>)"

definition AddDate :: "Time \<Rightarrow> int \<Rightarrow> int \<Rightarrow> int \<Rightarrow> Time" where
  "AddDate t years months days =
     (case Date_of t of (y, m, d) \<Rightarrow>
        mkDate (y + years) (m + months) (d + days) 0 0 (Clock_sec t) (t_ns t mod ns_per_s) (t_loc t))"

end
