(* ===== verification/Types.thy ===== *)
theory Types
  imports Float64 GoTime
begin

unbundle bit_operations_syntax

text \<open>
  The data of the program: the protobuf messages and enums of \<^verbatim>\<open>gubernator.proto\<close> and
  \<^verbatim>\<open>peers.proto\<close>, the behaviour flags, Go errors as values, the cache items of
  \<^verbatim>\<open>cache.go\<close> and \<^verbatim>\<open>store.go\<close>, and the Prometheus counters the request path updates.
\<close>

subsection \<open>Errors\<close>

text \<open>
  An error is a message, a message wrapped around a cause (\<^verbatim>\<open>errors.Wrap\<close>,
  \<^verbatim>\<open>fmt.Errorf\<close> with \<^verbatim>\<open>%w\<close>), one of the two context errors, or a gRPC status.
  A nil dereference or an index out of range panics; the model returns it as an error value.
\<close>

datatype goerr =
    Errorf string
  | WrapErr string goerr
  | Canceled
  | DeadlineExceeded
  | StatusErr string string
  | Panic string

fun err_msg :: "goerr \<Rightarrow> string" where
  "err_msg (Errorf s) = s"
| "err_msg (WrapErr s e) = s @ '': '' @ err_msg e"
| "err_msg Canceled = ''context canceled''"
| "err_msg DeadlineExceeded = ''context deadline exceeded''"
| "err_msg (StatusErr code s) = ''rpc error: code = '' @ code @ '' desc = '' @ s"
| "err_msg (Panic s) = ''panic: '' @ s"

text \<open>\<^verbatim>\<open>errors.Is\<close> against a context error walks the chain of causes.\<close>

fun err_is :: "goerr \<Rightarrow> goerr \<Rightarrow> bool" where
  "err_is (WrapErr s e) t = (WrapErr s e = t \<or> err_is e t)"
| "err_is e t = (e = t)"

subsection \<open>Enums and flags\<close>

datatype Algorithm = TOKEN_BUCKET | LEAKY_BUCKET | OTHER_ALGORITHM int

datatype Status = UNDER_LIMIT | OVER_LIMIT | NEVER_FITS | SCHEDULED

type_synonym Behavior = "32 word"

definition BATCHING :: Behavior where "BATCHING = 0"
definition NO_BATCHING :: Behavior where "NO_BATCHING = 1"
definition GLOBAL :: Behavior where "GLOBAL = 2"
definition DURATION_IS_GREGORIAN :: Behavior where "DURATION_IS_GREGORIAN = 4"
definition RESET_REMAINING :: Behavior where "RESET_REMAINING = 8"
definition MULTI_REGION :: Behavior where "MULTI_REGION = 16"
definition DRAIN_OVER_LIMIT :: Behavior where "DRAIN_OVER_LIMIT = 32"

lemmas behavior_flags = BATCHING_def NO_BATCHING_def GLOBAL_def DURATION_IS_GREGORIAN_def
  RESET_REMAINING_def MULTI_REGION_def DRAIN_OVER_LIMIT_def

definition HasBehavior :: "Behavior \<Rightarrow> Behavior \<Rightarrow> bool" where
  "HasBehavior b flag \<longleftrightarrow> b AND flag \<noteq> 0"

definition SetBehavior :: "Behavior \<Rightarrow> Behavior \<Rightarrow> bool \<Rightarrow> Behavior" where
  "SetBehavior b flag on = (if on then b OR flag else b AND (b XOR flag))"

subsection \<open>Messages\<close>

type_synonym metadata = "(string \<times> string) list"

record RateLimitReq =
  rq_Name :: string
  rq_UniqueKey :: string
  rq_Hits :: i64
  rq_Limit :: i64
  rq_Duration :: i64
  rq_Algorithm :: Algorithm
  rq_Behavior :: Behavior
  rq_Burst :: i64
  rq_Metadata :: "metadata option"
  rq_CreatedAt :: "i64 option"
  rq_MaxWait :: i64

record RateLimitResp =
  rs_Status :: Status
  rs_Limit :: i64
  rs_Remaining :: i64
  rs_ResetTime :: i64
  rs_Error :: string
  rs_Metadata :: metadata
  rs_RetryAfter :: i64

definition mkResp :: "Status \<Rightarrow> i64 \<Rightarrow> i64 \<Rightarrow> i64 \<Rightarrow> RateLimitResp" where
  "mkResp st limit rem rst =
     \<lparr>rs_Status = st, rs_Limit = limit, rs_Remaining = rem, rs_ResetTime = rst,
      rs_Error = [], rs_Metadata = [], rs_RetryAfter = 0\<rparr>"

definition errResp :: "string \<Rightarrow> RateLimitResp" where
  "errResp msg = (mkResp UNDER_LIMIT 0 0 0)\<lparr>rs_Error := msg\<rparr>"

record RateLimitReqState =
  IsOwner :: bool
  WaitCeiling :: i64

definition HashKey :: "RateLimitReq \<Rightarrow> key" where
  "HashKey m = rq_Name m @ ''_'' @ rq_UniqueKey m"

subsection \<open>Cache items\<close>

record LeakyBucketItem =
  lb_Limit :: i64
  lb_Duration :: i64
  lb_Remaining :: f64
  lb_UpdatedAt :: i64
  lb_Burst :: i64

record TokenBucketItem =
  tb_Status :: Status
  tb_Limit :: i64
  tb_Duration :: i64
  tb_Remaining :: i64
  tb_CreatedAt :: i64

text \<open>The dynamic type behind \<^verbatim>\<open>CacheItem.Value\<close>, an \<^verbatim>\<open>interface{}\<close>.\<close>

datatype ItemValue = NilValue | TokenValue TokenBucketItem | LeakyValue LeakyBucketItem | OtherValue

record CacheItem =
  ci_Algorithm :: Algorithm
  ci_Key :: key
  ci_Value :: ItemValue
  ci_ExpireAt :: i64
  ci_InvalidAt :: i64

definition epochMillis :: "Time \<Rightarrow> i64" where
  "epochMillis t = quot (UnixNano t) 1000000"

definition MillisecondNow :: "Time \<Rightarrow> i64" where
  "MillisecondNow now = quot (UnixNano now) 1000000"

definition IsExpired :: "Time \<Rightarrow> CacheItem \<Rightarrow> bool" where
  "IsExpired now item =
     (if ci_InvalidAt item \<noteq> 0 \<and> ci_InvalidAt item < MillisecondNow now then True
      else if ci_ExpireAt item < MillisecondNow now then True
      else False)"

subsection \<open>Counters\<close>

record metrics =
  m_OverLimit :: nat
  m_Scheduled :: nat
  m_CeilingRefused :: nat
  m_DebtReset :: nat
  m_CacheHit :: nat
  m_CacheMiss :: nat
  m_UnexpiredEvictions :: nat
  m_DebtEvictions :: nat
  m_DebtLostTokens :: f64

definition zero_metrics :: metrics where
  "zero_metrics = \<lparr>m_OverLimit = 0, m_Scheduled = 0, m_CeilingRefused = 0, m_DebtReset = 0,
     m_CacheHit = 0, m_CacheMiss = 0, m_UnexpiredEvictions = 0, m_DebtEvictions = 0,
     m_DebtLostTokens = 0\<rparr>"

subsection \<open>Flags are independent\<close>

lemma bit_Behavior: "bit (b :: Behavior) n \<Longrightarrow> n < 32"
  using bit_imp_le_length [of b n] by simp

lemma SetBehavior_bits:
  "bit (SetBehavior b flag s) n \<longleftrightarrow> (if bit flag n then s \<and> n < 32 else bit b n)"
  for b flag :: Behavior
  by (auto simp: SetBehavior_def bit_simps dest: bit_Behavior)

lemma SetBehavior_idem: "SetBehavior (SetBehavior b f s) f s = SetBehavior b f s"
  by (rule bit_eqI) (auto simp: SetBehavior_bits)

lemma HasBehavior_iff_bit: "HasBehavior b f \<longleftrightarrow> (\<exists>n. bit b n \<and> bit f n)"
  using bit_Behavior by (fastforce simp: HasBehavior_def bit_eq_iff bit_simps)

lemma HasBehavior_SetBehavior_other:
  assumes "f AND g = 0"
  shows "HasBehavior (SetBehavior b f s) g = HasBehavior b g"
proof -
  have "\<not> (bit f n \<and> bit g n)" for n
    using assms bit_Behavior by (fastforce simp: bit_eq_iff bit_simps)
  then show ?thesis by (auto simp: HasBehavior_iff_bit SetBehavior_bits)
qed

lemma HasBehavior_clear: "\<not> HasBehavior (SetBehavior b f False) f"
  by (simp add: HasBehavior_iff_bit SetBehavior_bits)

lemma HasBehavior_set:
  assumes "f \<noteq> 0"
  shows "HasBehavior (SetBehavior b f True) f"
proof -
  from assms obtain n where "bit f n" by (auto simp: bit_eq_iff)
  with bit_Behavior [OF this] show ?thesis
    by (auto simp: HasBehavior_iff_bit SetBehavior_bits)
qed

end
