(* ===== verification/HashRing.thy ===== *)
theory HashRing
  imports Types "HOL-Library.AList"
begin

unbundle bit_operations_syntax

text \<open>
  Which peer owns a key: the consistent hash ring of \<^verbatim>\<open>replicated_hash.go\<close> and the pickers
  per data centre of \<^verbatim>\<open>region_picker.go\<close>. A peer client is a reference (an identity and the
  immutable \<^verbatim>\<open>PeerInfo\<close> its \<^verbatim>\<open>Info()\<close> reads); its mutable state lives elsewhere.
  The 64-bit hash of the ring is a field, as in the source; the MD5 digest of the standard library,
  which spreads the replicas of a peer, is defined here.
\<close>

subsection \<open>MD5\<close>

text \<open>The digest, on 32-bit integers with the wrap-around written out, so that it evaluates.\<close>

definition md5_K :: "int list" where
  "md5_K =
    [0xd76aa478, 0xe8c7b756, 0x242070db, 0xc1bdceee, 0xf57c0faf, 0x4787c62a, 0xa8304613, 0xfd469501,
     0x698098d8, 0x8b44f7af, 0xffff5bb1, 0x895cd7be, 0x6b901122, 0xfd987193, 0xa679438e, 0x49b40821,
     0xf61e2562, 0xc040b340, 0x265e5a51, 0xe9b6c7aa, 0xd62f105d, 0x02441453, 0xd8a1e681, 0xe7d3fbc8,
     0x21e1cde6, 0xc33707d6, 0xf4d50d87, 0x455a14ed, 0xa9e3e905, 0xfcefa3f8, 0x676f02d9, 0x8d2a4c8a,
     0xfffa3942, 0x8771f681, 0x6d9d6122, 0xfde5380c, 0xa4beea44, 0x4bdecfa9, 0xf6bb4b60, 0xbebfbc70,
     0x289b7ec6, 0xeaa127fa, 0xd4ef3085, 0x04881d05, 0xd9d4d039, 0xe6db99e5, 0x1fa27cf8, 0xc4ac5665,
     0xf4292244, 0x432aff97, 0xab9423a7, 0xfc93a039, 0x655b59c3, 0x8f0ccc92, 0xffeff47d, 0x85845dd1,
     0x6fa87e4f, 0xfe2ce6e0, 0xa3014314, 0x4e0811a1, 0xf7537e82, 0xbd3af235, 0x2ad7d2bb, 0xeb86d391]"

definition md5_S :: "nat list" where
  "md5_S = concat (map (\<lambda>ss. concat (replicate 4 ss)) [[7, 12, 17, 22], [5, 9, 14, 20], [4, 11, 16, 23], [6, 10, 15, 21]])"

definition u32 :: "int \<Rightarrow> int" where
  "u32 n = n mod 4294967296"

definition rotl32 :: "nat \<Rightarrow> int \<Rightarrow> int" where
  "rotl32 s x = u32 (x * 2 ^ s) + x div 2 ^ (32 - s)"

definition md5_mix :: "nat \<Rightarrow> int \<Rightarrow> int \<Rightarrow> int \<Rightarrow> int \<times> nat" where
  "md5_mix i b c d =
     (if i < 16 then ((b AND c) OR (u32 (NOT b) AND d), i)
      else if i < 32 then ((d AND b) OR (u32 (NOT d) AND c), (5 * i + 1) mod 16)
      else if i < 48 then (b XOR c XOR d, (3 * i + 5) mod 16)
      else (c XOR (b OR u32 (NOT d)), (7 * i) mod 16))"

type_synonym md5_state = "int \<times> int \<times> int \<times> int"

definition md5_op :: "int list \<Rightarrow> nat \<times> int \<times> nat \<Rightarrow> md5_state \<Rightarrow> md5_state" where
  "md5_op m = (\<lambda>(i, k, s) (a, b, c, d).
     (let (f, g) = md5_mix i b c d in (d, u32 (b + rotl32 s (u32 (f + a + k + m ! g))), b, c)))"

definition md5_block :: "int list \<Rightarrow> md5_state \<Rightarrow> md5_state" where
  "md5_block m = (\<lambda>(a, b, c, d).
     (let (a', b', c', d') = fold (md5_op m) (zip [0..<64] (zip md5_K md5_S)) (a, b, c, d)
      in (u32 (a + a'), u32 (b + b'), u32 (c + c'), u32 (d + d'))))"

fun le_word :: "int list \<Rightarrow> int" where
  "le_word [] = 0"
| "le_word (x # xs) = x + 256 * le_word xs"

fun le_bytes :: "nat \<Rightarrow> int \<Rightarrow> int list" where
  "le_bytes 0 n = []"
| "le_bytes (Suc k) n = n mod 256 # le_bytes k (n div 256)"

fun chunks :: "nat \<Rightarrow> 'a list \<Rightarrow> 'a list list" where
  "chunks n xs = (if n = 0 \<or> xs = [] then [] else take n xs # chunks n (drop n xs))"

declare chunks.simps [simp del]

definition md5_pad :: "int list \<Rightarrow> int list" where
  "md5_pad bs = (let l = length bs
     in bs @ [128] @ replicate ((119 - l mod 64) mod 64) 0 @ le_bytes 8 (8 * int l))"

definition md5_sum :: "string \<Rightarrow> int list" where
  "md5_sum s =
     (let blocks = map (map le_word \<circ> chunks 4) (chunks 64 (md5_pad (map of_char s)));
          (a, b, c, d) = fold md5_block blocks (0x67452301, 0xefcdab89, 0x98badcfe, 0x10325476)
      in concat (map (\<lambda>w. le_bytes 4 w) [a, b, c, d]))"

definition hexDigit :: "int \<Rightarrow> char" where
  "hexDigit n = ''0123456789abcdef'' ! nat (n mod 16)"

definition hexString :: "int list \<Rightarrow> string" where
  "hexString bs = concat (map (\<lambda>b. [hexDigit (b div 16), hexDigit b]) bs)"

lemma length_hexString [simp]: "length (hexString bs) = 2 * length bs"
  by (induction bs) (simp_all add: hexString_def)

subsection \<open>Peers\<close>

record PeerInfo =
  pi_DataCenter :: string
  pi_HTTPAddress :: string
  pi_GRPCAddress :: string
  pi_IsOwner :: bool

definition PeerInfo_HashKey :: "PeerInfo \<Rightarrow> string" where
  "PeerInfo_HashKey p = pi_GRPCAddress p"

text \<open>A pointer to a peer client: its identity, and the \<^verbatim>\<open>conf.Info\<close> behind it.\<close>

record PeerRef =
  pr_id :: nat
  pr_Info :: PeerInfo

abbreviation addr :: "PeerRef \<Rightarrow> string" where
  "addr p \<equiv> pi_GRPCAddress (pr_Info p)"

subsection \<open>The ring\<close>

text \<open>
  \<^verbatim>\<open>sort.Search\<close> and \<^verbatim>\<open>sort.Slice\<close> of the standard library. The order of points with the same
  hash is not specified by \<^verbatim>\<open>sort.Slice\<close>; the model keeps the older one first, and what is
  proved of the ring assumes that no two of its points share a hash.
\<close>

function Search_loop :: "(nat \<Rightarrow> bool) \<Rightarrow> nat \<Rightarrow> nat \<Rightarrow> nat" where
  "Search_loop f i j =
     (if i < j
      then (let h = (i + j) div 2 in if f h then Search_loop f i h else Search_loop f (h + 1) j)
      else i)"
  by pat_completeness auto
termination
  by (relation "measure (\<lambda>(f, i, j). j - i)") auto

declare Search_loop.simps [simp del]

definition Search :: "nat \<Rightarrow> (nat \<Rightarrow> bool) \<Rightarrow> nat" where
  "Search n f = Search_loop f 0 n"

fun itoa :: "nat \<Rightarrow> string" where
  "itoa n = (if n < 10 then [char_of (48 + n)] else itoa (n div 10) @ [char_of (48 + n mod 10)])"

declare itoa.simps [simp del]

definition defaultReplicas :: int where
  "defaultReplicas = 512"

record peerInfo =
  pt_hash :: "64 word"
  pt_peer :: PeerRef

record ReplicatedConsistentHash =
  ch_hashFunc :: "string \<Rightarrow> 64 word"
  ch_peerKeys :: "peerInfo list"
  ch_peers :: "(string \<times> PeerRef) list"
  ch_replicas :: int

definition NewReplicatedConsistentHash ::
  "(string \<Rightarrow> 64 word) \<Rightarrow> (string \<Rightarrow> 64 word) option \<Rightarrow> int \<Rightarrow> ReplicatedConsistentHash" where
  "NewReplicatedConsistentHash defaultHashString64 fn replicas =
     \<lparr>ch_hashFunc = (case fn of None \<Rightarrow> defaultHashString64 | Some f \<Rightarrow> f),
      ch_peerKeys = [], ch_peers = [], ch_replicas = replicas\<rparr>"

definition ringNew :: "ReplicatedConsistentHash \<Rightarrow> ReplicatedConsistentHash" where
  "ringNew ch = \<lparr>ch_hashFunc = ch_hashFunc ch, ch_peerKeys = [], ch_peers = [], ch_replicas = ch_replicas ch\<rparr>"

definition ringPeers :: "ReplicatedConsistentHash \<Rightarrow> PeerRef list" where
  "ringPeers ch = map snd (ch_peers ch)"

definition replicaHash :: "(string \<Rightarrow> 64 word) \<Rightarrow> PeerRef \<Rightarrow> nat \<Rightarrow> 64 word" where
  "replicaHash h peer i = h (itoa i @ hexString (md5_sum (addr peer)))"

definition replicaPoints :: "(string \<Rightarrow> 64 word) \<Rightarrow> int \<Rightarrow> PeerRef \<Rightarrow> peerInfo list" where
  "replicaPoints h replicas peer =
     map (\<lambda>i. \<lparr>pt_hash = replicaHash h peer i, pt_peer = peer\<rparr>) [0..<nat replicas]"

definition ringAdd :: "PeerRef \<Rightarrow> ReplicatedConsistentHash \<Rightarrow> ReplicatedConsistentHash" where
  "ringAdd peer ch =
     ch\<lparr>ch_peers := AList.update (addr peer) peer (ch_peers ch),
        ch_peerKeys := sort_key pt_hash
          (ch_peerKeys ch @ replicaPoints (ch_hashFunc ch) (ch_replicas ch) peer)\<rparr>"

definition ringSize :: "ReplicatedConsistentHash \<Rightarrow> nat" where
  "ringSize ch = length (ch_peers ch)"

definition ringGetByPeerInfo :: "ReplicatedConsistentHash \<Rightarrow> PeerInfo \<Rightarrow> PeerRef option" where
  "ringGetByPeerInfo ch info = map_of (ch_peers ch) (pi_GRPCAddress info)"

definition emptyPool :: goerr where
  "emptyPool = Errorf ''unable to pick a peer; pool is empty''"

definition ringGet :: "ReplicatedConsistentHash \<Rightarrow> string \<Rightarrow> goerr + PeerRef" where
  "ringGet ch key =
     (if ringSize ch = 0 then Inl emptyPool
      else
        (let hash = ch_hashFunc ch key;
             n = length (ch_peerKeys ch);
             idx = Search n (\<lambda>i. hash \<le> pt_hash (ch_peerKeys ch ! i));
             idx' = (if idx = n then 0 else idx)
         in if idx' < n then Inr (pt_peer (ch_peerKeys ch ! idx'))
            else Inl (Panic ''runtime error: index out of range'')))"

subsection \<open>Binary search\<close>

lemma Search_loop_steps:
  "\<not> i < j \<Longrightarrow> Search_loop f i j = i"
  "i < j \<Longrightarrow> f ((i + j) div 2) \<Longrightarrow> Search_loop f i j = Search_loop f i ((i + j) div 2)"
  "i < j \<Longrightarrow> \<not> f ((i + j) div 2) \<Longrightarrow> Search_loop f i j = Search_loop f ((i + j) div 2 + 1) j"
  by (simp_all add: Search_loop.simps [of f i j] Let_def)

lemma Search_loop_bounds: "i \<le> j \<Longrightarrow> i \<le> Search_loop f i j \<and> Search_loop f i j \<le> j"
proof (induction f i j rule: Search_loop.induct)
  case (1 f i j)
  consider "\<not> i < j" | "i < j" "f ((i + j) div 2)" | "i < j" "\<not> f ((i + j) div 2)" by blast
  then show ?case
  proof cases
    case 1
    then show ?thesis using \<open>i \<le> j\<close> by (simp add: Search_loop_steps)
  next
    case 2
    then have "i \<le> (i + j) div 2" "(i + j) div 2 \<le> j" by auto
    then show ?thesis using 1(1) [OF 2(1) refl 2(2)] by (simp add: Search_loop_steps(2) [of i j f, OF 2])
  next
    case 3
    then have "(i + j) div 2 + 1 \<le> j" "i \<le> (i + j) div 2 + 1" by auto
    then show ?thesis using 1(2) [OF 3(1) refl 3(2)] by (simp add: Search_loop_steps(3) [of i j f, OF 3])
  qed
qed

lemma Search_loop_correct:
  assumes "i \<le> j" "\<And>a b. a \<le> b \<Longrightarrow> b < n \<Longrightarrow> f a \<Longrightarrow> f b" "j \<le> n"
    and "\<And>k. k < i \<Longrightarrow> \<not> f k" "\<And>k. j \<le> k \<Longrightarrow> k < n \<Longrightarrow> f k"
  shows "(\<forall>k<n. f k \<longleftrightarrow> Search_loop f i j \<le> k)"
  using assms
proof (induction f i j rule: Search_loop.induct)
  case (1 f i j)
  show ?case
  proof (cases "i < j")
    case False
    then have "j = i" using 1(3) by simp
    then show ?thesis using 1(6,7) by (auto simp: Search_loop_steps linorder_not_less [symmetric])
  next
    case True
    let ?h = "(i + j) div 2"
    have h: "i \<le> ?h" "?h < j" using True by auto
    show ?thesis
    proof (cases "f ?h")
      case hit: True
      have "Search_loop f i j = Search_loop f i ?h" by (rule Search_loop_steps(2) [of i j f, OF True hit])
      moreover have "\<forall>k<n. f k \<longleftrightarrow> Search_loop f i ?h \<le> k"
      proof (rule 1(1) [OF True refl hit h(1) 1(4)])
        show "?h \<le> n" using h 1(5) by simp
        show "f k" if "?h \<le> k" "k < n" for k using 1(4) [OF that hit] .
      qed (use 1(6) in auto)
      ultimately show ?thesis by simp
    next
      case miss: False
      have "Search_loop f i j = Search_loop f (?h + 1) j" by (rule Search_loop_steps(3) [of i j f, OF True miss])
      moreover have "\<forall>k<n. f k \<longleftrightarrow> Search_loop f (?h + 1) j \<le> k"
      proof (rule 1(2) [OF True refl miss _ 1(4) 1(5) _ 1(7)])
        show "\<not> f k" if "k < ?h + 1" for k using that miss 1(4) [of k ?h] h 1(5) by auto
      qed (use h in auto)
      ultimately show ?thesis by simp
    qed
  qed
qed

lemma Search_correct:
  assumes "\<And>a b. a \<le> b \<Longrightarrow> b < n \<Longrightarrow> f a \<Longrightarrow> f b"
  shows "Search n f \<le> n" "\<And>k. k < n \<Longrightarrow> f k \<longleftrightarrow> Search n f \<le> k"
proof -
  show "Search n f \<le> n" using Search_loop_bounds [of 0 n f] by (simp add: Search_def)
  show "f k \<longleftrightarrow> Search n f \<le> k" if "k < n" for k
    using Search_loop_correct [of 0 n n f] assms that by (auto simp: Search_def)
qed

subsection \<open>The ring is sorted and complete\<close>

definition ringPoints :: "(string \<Rightarrow> 64 word) \<Rightarrow> int \<Rightarrow> PeerRef set \<Rightarrow> peerInfo set" where
  "ringPoints h n ps = (\<Union>p\<in>ps. set (replicaPoints h n p))"

definition ring_ok :: "ReplicatedConsistentHash \<Rightarrow> bool" where
  "ring_ok ch \<longleftrightarrow> sorted (map pt_hash (ch_peerKeys ch)) \<and>
     set (ch_peerKeys ch) = ringPoints (ch_hashFunc ch) (ch_replicas ch) (set (ringPeers ch)) \<and>
     distinct (map fst (ch_peers ch)) \<and> (\<forall>(a, p) \<in> set (ch_peers ch). a = addr p) \<and> 0 < ch_replicas ch"

text \<open>The owner of a hash among a set of points: the next point clockwise, wrapping around.\<close>

definition is_owner :: "peerInfo set \<Rightarrow> 64 word \<Rightarrow> PeerRef \<Rightarrow> bool" where
  "is_owner P h p \<longleftrightarrow> (\<exists>x\<in>P. pt_peer x = p \<and>
     (if \<exists>y\<in>P. h \<le> pt_hash y
      then h \<le> pt_hash x \<and> (\<forall>y\<in>P. h \<le> pt_hash y \<longrightarrow> pt_hash x \<le> pt_hash y)
      else \<forall>y\<in>P. pt_hash x \<le> pt_hash y))"

definition collision_free :: "peerInfo set \<Rightarrow> bool" where
  "collision_free P \<longleftrightarrow> (\<forall>x\<in>P. \<forall>y\<in>P. pt_hash x = pt_hash y \<longrightarrow> pt_peer x = pt_peer y)"

lemma is_owner_unique:
  assumes "collision_free P" "is_owner P h p" "is_owner P h q"
  shows "p = q"
proof -
  obtain x where x: "x \<in> P" "pt_peer x = p"
    "if \<exists>y\<in>P. h \<le> pt_hash y then h \<le> pt_hash x \<and> (\<forall>y\<in>P. h \<le> pt_hash y \<longrightarrow> pt_hash x \<le> pt_hash y)
     else \<forall>y\<in>P. pt_hash x \<le> pt_hash y" using assms(2) unfolding is_owner_def by (elim bexE conjE) (rule that)
  obtain y where y: "y \<in> P" "pt_peer y = q"
    "if \<exists>y\<in>P. h \<le> pt_hash y then h \<le> pt_hash y \<and> (\<forall>z\<in>P. h \<le> pt_hash z \<longrightarrow> pt_hash y \<le> pt_hash z)
     else \<forall>z\<in>P. pt_hash y \<le> pt_hash z" using assms(3) unfolding is_owner_def by (elim bexE conjE) (rule that)
  have "pt_hash x = pt_hash y"
  proof (cases "\<exists>y\<in>P. h \<le> pt_hash y")
    case True
    then have "pt_hash x \<le> pt_hash y" "pt_hash y \<le> pt_hash x" using x y by simp_all
    then show ?thesis by (rule order_antisym)
  next
    case False
    then have "pt_hash x \<le> pt_hash y" "pt_hash y \<le> pt_hash x" using x y by simp_all
    then show ?thesis by (rule order_antisym)
  qed
  then show ?thesis using assms(1) x(1,2) y(1,2) unfolding collision_free_def by metis
qed

lemma is_owner_Un:
  assumes "is_owner (P \<union> Q) h p"
  shows "p \<in> pt_peer ` Q \<or> is_owner P h p"
proof -
  obtain x where x: "x \<in> P \<union> Q" "pt_peer x = p"
    "if \<exists>y\<in>P \<union> Q. h \<le> pt_hash y
      then h \<le> pt_hash x \<and> (\<forall>y\<in>P \<union> Q. h \<le> pt_hash y \<longrightarrow> pt_hash x \<le> pt_hash y)
      else \<forall>y\<in>P \<union> Q. pt_hash x \<le> pt_hash y" using assms unfolding is_owner_def by (elim bexE conjE) (rule that)
  show ?thesis
  proof (cases "x \<in> P")
    case True
    then show ?thesis using x(2,3) unfolding is_owner_def by (auto split: if_splits)
  qed (use x in auto)
qed

lemma update_fresh: "k \<notin> fst ` set al \<Longrightarrow> AList.update k v al = al @ [(k, v)]"
  by (induction al) auto

lemma ringAdd_fresh:
  assumes "ringGetByPeerInfo ch (pr_Info p) = None"
  shows "ringPeers (ringAdd p ch) = ringPeers ch @ [p]" "ch_peers (ringAdd p ch) = ch_peers ch @ [(addr p, p)]"
  using assms by (simp_all add: ringAdd_def ringPeers_def ringGetByPeerInfo_def map_of_eq_None_iff update_fresh)

lemma ringAdd_sel [simp]:
  "ch_hashFunc (ringAdd p ch) = ch_hashFunc ch" "ch_replicas (ringAdd p ch) = ch_replicas ch"
  "ch_hashFunc (ringNew ch) = ch_hashFunc ch" "ch_replicas (ringNew ch) = ch_replicas ch"
  "ringPeers (ringNew ch) = []" "ch_peerKeys (ringNew ch) = []" "ch_peers (ringNew ch) = []"
  by (simp_all add: ringAdd_def ringNew_def ringPeers_def)

lemma ring_ok_New: "0 < ch_replicas ch \<Longrightarrow> ring_ok (ringNew ch)"
  by (simp add: ring_ok_def ringPoints_def)

lemma ring_ok_Add:
  assumes "ring_ok ch" "ringGetByPeerInfo ch (pr_Info p) = None"
  shows "ring_ok (ringAdd p ch)"
proof -
  have keys: "ch_peerKeys (ringAdd p ch) =
      sort_key pt_hash (ch_peerKeys ch @ replicaPoints (ch_hashFunc ch) (ch_replicas ch) p)"
    by (simp add: ringAdd_def)
  have "addr p \<notin> fst ` set (ch_peers ch)" using assms(2) by (simp add: ringGetByPeerInfo_def map_of_eq_None_iff)
  moreover have "set (ch_peerKeys (ringAdd p ch)) =
      ringPoints (ch_hashFunc ch) (ch_replicas ch) (set (ringPeers (ringAdd p ch)))"
    using assms(1) by (simp add: keys ring_ok_def ringAdd_fresh(1) [OF assms(2)] ringPoints_def Un_commute)
  moreover have "sorted (map pt_hash (ch_peerKeys (ringAdd p ch)))" by (simp add: keys)
  ultimately show ?thesis using assms(1) unfolding ring_ok_def by (simp add: ringAdd_fresh(2) [OF assms(2)])
qed

lemma ring_ok_byInfo:
  assumes "ring_ok ch"
  shows "ringGetByPeerInfo ch info = Some p \<longleftrightarrow> p \<in> set (ringPeers ch) \<and> addr p = pi_GRPCAddress info"
proof -
  have d: "distinct (map fst (ch_peers ch))" and a: "\<And>a q. (a, q) \<in> set (ch_peers ch) \<Longrightarrow> a = addr q"
    using assms by (auto simp: ring_ok_def)
  show ?thesis
  proof
    assume "ringGetByPeerInfo ch info = Some p"
    then have "(pi_GRPCAddress info, p) \<in> set (ch_peers ch)" unfolding ringGetByPeerInfo_def by (rule map_of_SomeD)
    then show "p \<in> set (ringPeers ch) \<and> addr p = pi_GRPCAddress info"
      using a by (force simp: ringPeers_def)
  next
    assume p: "p \<in> set (ringPeers ch) \<and> addr p = pi_GRPCAddress info"
    then obtain k where "(k, p) \<in> set (ch_peers ch)" by (auto simp: ringPeers_def)
    with a [OF this] p show "ringGetByPeerInfo ch info = Some p"
      unfolding ringGetByPeerInfo_def by (intro map_of_is_SomeI [OF d]) simp
  qed
qed

lemma ring_ok_byInfo_None:
  "ring_ok ch \<Longrightarrow> ringGetByPeerInfo ch info = None \<longleftrightarrow> pi_GRPCAddress info \<notin> addr ` set (ringPeers ch)"
  using ring_ok_byInfo [of ch info] unfolding image_iff by (metis not_None_eq)

lemma ringGet_owner:
  assumes "ring_ok ch" "ringPeers ch \<noteq> []"
  obtains p where "ringGet ch key = Inr p" "is_owner (set (ch_peerKeys ch)) (ch_hashFunc ch key) p"
    "p \<in> set (ringPeers ch)"
proof -
  let ?ks = "ch_peerKeys ch" and ?h = "ch_hashFunc ch key"
  let ?n = "length ?ks" and ?f = "\<lambda>i. ?h \<le> pt_hash (?ks ! i)"
  have so: "sorted (map pt_hash ?ks)" and pts: "set ?ks = ringPoints (ch_hashFunc ch) (ch_replicas ch) (set (ringPeers ch))"
    and rep: "0 < ch_replicas ch" using assms(1) by (simp_all add: ring_ok_def)
  obtain p0 where p0: "p0 \<in> set (ringPeers ch)" using assms(2) by (cases "ringPeers ch") auto
  have "replicaPoints (ch_hashFunc ch) (ch_replicas ch) p0 \<noteq> []" using rep by (simp add: replicaPoints_def)
  then have ne: "?ks \<noteq> []" using pts p0 by (force simp: ringPoints_def)
  have mono: "?f b" if "a \<le> b" "b < ?n" "?f a" for a b
    using sorted_nth_mono [OF so, of a b] that by simp
  have S: "Search ?n ?f \<le> ?n" "\<And>k. k < ?n \<Longrightarrow> ?f k \<longleftrightarrow> Search ?n ?f \<le> k"
    using Search_correct [of ?n ?f] mono by blast+
  let ?i = "if Search ?n ?f = ?n then 0 else Search ?n ?f"
  have i: "?i < ?n" using S(1) ne by auto
  let ?x = "?ks ! ?i"
  have "ringSize ch \<noteq> 0" using assms(2) by (simp add: ringSize_def ringPeers_def)
  then have get: "ringGet ch key = Inr (pt_peer ?x)" using i unfolding ringGet_def Let_def by simp
  have "is_owner (set ?ks) ?h (pt_peer ?x)"
  proof (cases "Search ?n ?f = ?n")
    case True
    then have "\<not> (\<exists>y\<in>set ?ks. ?h \<le> pt_hash y)" using S(2) by (auto simp: in_set_conv_nth)
    moreover have "\<forall>y\<in>set ?ks. pt_hash (?ks ! 0) \<le> pt_hash y"
      using sorted_nth_mono [OF so, of 0] ne by (auto simp: in_set_conv_nth)
    ultimately show ?thesis using True i by (auto simp: is_owner_def)
  next
    case False
    then have hit: "?h \<le> pt_hash ?x" using S(2) i by simp
    moreover have "pt_hash ?x \<le> pt_hash y" if y: "y \<in> set ?ks" "?h \<le> pt_hash y" for y
    proof -
      obtain k where k: "k < ?n" "y = ?ks ! k" using y(1) unfolding in_set_conv_nth by blast
      then show ?thesis using S(2) [OF k(1)] y(2) sorted_nth_mono [OF so, of ?i k] False by simp
    qed
    moreover have "?x \<in> set ?ks" using i by simp
    ultimately show ?thesis unfolding is_owner_def by (intro bexI [of _ ?x]) auto
  qed
  moreover have "pt_peer ?x \<in> set (ringPeers ch)"
    using pts nth_mem [OF i] by (auto simp: ringPoints_def replicaPoints_def)
  ultimately show thesis using that get by blast
qed

lemma ringGet_empty: "ringPeers ch = [] \<Longrightarrow> ringGet ch key = Inl emptyPool"
  by (simp add: ringGet_def ringSize_def ringPeers_def)

subsection \<open>The interface of a peer picker\<close>

text \<open>
  What \<^verbatim>\<open>SetPeers\<close> and \<^verbatim>\<open>GetPeer\<close> rely on, whatever the picking algorithm: a picker made by
  \<^verbatim>\<open>New\<close> is empty, \<^verbatim>\<open>Add\<close> of a peer with a fresh address adds exactly that peer, peers are found
  by address, and \<^verbatim>\<open>Get\<close> answers with one of the peers whenever there is one.
\<close>

locale peer_picker =
  fixes new :: "'r \<Rightarrow> 'r" and add :: "PeerRef \<Rightarrow> 'r \<Rightarrow> 'r" and get :: "'r \<Rightarrow> string \<Rightarrow> goerr + PeerRef"
    and byInfo :: "'r \<Rightarrow> PeerInfo \<Rightarrow> PeerRef option" and peers :: "'r \<Rightarrow> PeerRef list" and inv :: "'r \<Rightarrow> bool"
  assumes inv_new: "inv r \<Longrightarrow> inv (new r)"
    and peers_new: "peers (new r) = []"
    and inv_add: "inv r \<Longrightarrow> byInfo r (pr_Info p) = None \<Longrightarrow> inv (add p r)"
    and peers_add: "byInfo r (pr_Info p) = None \<Longrightarrow> peers (add p r) = peers r @ [p]"
    and byInfo_Some: "inv r \<Longrightarrow> byInfo r info = Some p \<longleftrightarrow> p \<in> set (peers r) \<and> addr p = pi_GRPCAddress info"
    and get_some: "inv r \<Longrightarrow> peers r \<noteq> [] \<Longrightarrow> \<exists>p\<in>set (peers r). get r key = Inr p"
    and get_none: "peers r = [] \<Longrightarrow> get r key = Inl emptyPool"
begin

lemma byInfo_None: "inv r \<Longrightarrow> byInfo r info = None \<longleftrightarrow> pi_GRPCAddress info \<notin> addr ` set (peers r)"
  using byInfo_Some [of r info] unfolding image_iff by (metis not_None_eq)

lemma fold_add:
  assumes "inv r" "distinct (map addr ps)" "\<forall>p\<in>set ps. addr p \<notin> addr ` set (peers r)"
  shows "inv (fold add ps r) \<and> peers (fold add ps r) = peers r @ ps"
  using assms
proof (induction ps arbitrary: r)
  case (Cons p ps)
  have fresh: "byInfo r (pr_Info p) = None" using byInfo_None Cons.prems by simp
  have "inv (add p r)" "peers (add p r) = peers r @ [p]" by (rule inv_add [OF Cons.prems(1) fresh], rule peers_add [OF fresh])
  moreover have "\<forall>q\<in>set ps. addr q \<noteq> addr p" using Cons.prems(2) by (auto simp: image_iff)
  ultimately show ?case using Cons.IH [of "add p r"] Cons.prems by auto
qed simp

text \<open>A picker filled from a list of peers with different addresses.\<close>

lemma filled:
  assumes "inv r" "distinct (map addr ps)"
  shows "inv (fold add ps (new r))" "peers (fold add ps (new r)) = ps"
    "ps \<noteq> [] \<Longrightarrow> \<exists>p\<in>set ps. get (fold add ps (new r)) key = Inr p"
    "p \<in> set ps \<Longrightarrow> byInfo (fold add ps (new r)) (pr_Info p) = Some p"
proof -
  show i: "inv (fold add ps (new r))" and p: "peers (fold add ps (new r)) = ps"
    using fold_add [OF inv_new [OF assms(1)] assms(2)] by (simp_all add: peers_new)
  show "\<exists>p\<in>set ps. get (fold add ps (new r)) key = Inr p" if "ps \<noteq> []"
    using get_some [OF i] that by (simp add: p)
  show "byInfo (fold add ps (new r)) (pr_Info p) = Some p" if "p \<in> set ps"
    using byInfo_Some [OF i] that by (simp add: p)
qed

end

interpretation ring: peer_picker ringNew ringAdd ringGet ringGetByPeerInfo ringPeers ring_ok
proof
  show "ring_ok r \<Longrightarrow> ring_ok (ringNew r)" for r by (rule ring_ok_New) (simp add: ring_ok_def)
  show "ringPeers (ringNew r) = []" for r by simp
  show "ring_ok r \<Longrightarrow> ringGetByPeerInfo r (pr_Info p) = None \<Longrightarrow> ring_ok (ringAdd p r)" for r p by (rule ring_ok_Add)
  show "ringGetByPeerInfo r (pr_Info p) = None \<Longrightarrow> ringPeers (ringAdd p r) = ringPeers r @ [p]" for r p
    by (rule ringAdd_fresh(1))
  show "ring_ok r \<Longrightarrow> (ringGetByPeerInfo r info = Some p) = (p \<in> set (ringPeers r) \<and> addr p = pi_GRPCAddress info)" for r info p
    by (rule ring_ok_byInfo)
  show "ring_ok r \<Longrightarrow> ringPeers r \<noteq> [] \<Longrightarrow> \<exists>p\<in>set (ringPeers r). ringGet r key = Inr p" for r key
    using ringGet_owner [of r key] by metis
  show "ringPeers r = [] \<Longrightarrow> ringGet r key = Inl emptyPool" for r key by (rule ringGet_empty)
qed

subsection \<open>Pickers per region\<close>

record RegionPicker =
  rp_hash :: ReplicatedConsistentHash
  rp_regions :: "(string \<times> ReplicatedConsistentHash) list"

definition NewRegionPicker :: "(string \<Rightarrow> 64 word) \<Rightarrow> (string \<Rightarrow> 64 word) option \<Rightarrow> RegionPicker" where
  "NewRegionPicker dflt fn =
     \<lparr>rp_hash = NewReplicatedConsistentHash dflt fn defaultReplicas, rp_regions = []\<rparr>"

definition regionNew :: "RegionPicker \<Rightarrow> RegionPicker" where
  "regionNew rp = \<lparr>rp_hash = ringNew (rp_hash rp), rp_regions = []\<rparr>"

fun getClients :: "(string \<times> ReplicatedConsistentHash) list \<Rightarrow> string \<Rightarrow> goerr + PeerRef list" where
  "getClients [] key = Inr []"
| "getClients ((dc, picker) # rest) key =
     (case ringGet picker key of
        Inl e \<Rightarrow> Inl e
      | Inr p \<Rightarrow> (case getClients rest key of Inl e \<Rightarrow> Inl e | Inr ps \<Rightarrow> Inr (p # ps)))"

definition regionGetClients :: "RegionPicker \<Rightarrow> string \<Rightarrow> goerr + PeerRef list" where
  "regionGetClients rp key = getClients (rp_regions rp) key"

fun firstByInfo :: "(string \<times> ReplicatedConsistentHash) list \<Rightarrow> PeerInfo \<Rightarrow> PeerRef option" where
  "firstByInfo [] info = None"
| "firstByInfo ((dc, picker) # rest) info =
     (case ringGetByPeerInfo picker info of Some c \<Rightarrow> Some c | None \<Rightarrow> firstByInfo rest info)"

definition regionGetByPeerInfo :: "RegionPicker \<Rightarrow> PeerInfo \<Rightarrow> PeerRef option" where
  "regionGetByPeerInfo rp info = firstByInfo (rp_regions rp) info"

definition regionPickers :: "RegionPicker \<Rightarrow> (string \<times> ReplicatedConsistentHash) list" where
  "regionPickers rp = rp_regions rp"

definition regionPeers :: "RegionPicker \<Rightarrow> PeerRef list" where
  "regionPeers rp = concat (map (ringPeers \<circ> snd) (rp_regions rp))"

definition regionRing :: "RegionPicker \<Rightarrow> string \<Rightarrow> ReplicatedConsistentHash" where
  "regionRing rp dc = (case map_of (rp_regions rp) dc of None \<Rightarrow> ringNew (rp_hash rp) | Some picker \<Rightarrow> picker)"

definition regionAdd :: "PeerRef \<Rightarrow> RegionPicker \<Rightarrow> RegionPicker" where
  "regionAdd peer rp =
     (let dc = pi_DataCenter (pr_Info peer)
      in rp\<lparr>rp_regions := AList.update dc (ringAdd peer (regionRing rp dc)) (rp_regions rp)\<rparr>)"

lemma set_update:
  "distinct (map fst al) \<Longrightarrow> set (AList.update k v al) = insert (k, v) {x \<in> set al. fst x \<noteq> k}"
proof (induction al)
  case (Cons x al)
  then show ?case by (cases x; cases "fst x = k") (auto simp: image_iff)
qed simp

lemma firstByInfo_None:
  "firstByInfo rs info = None \<Longrightarrow> (dc, ch) \<in> set rs \<Longrightarrow> ringGetByPeerInfo ch info = None"
  by (induction rs) (auto split: option.splits)

lemma firstByInfo_Some:
  assumes "firstByInfo rs info = Some p"
  obtains dc picker where "(dc, picker) \<in> set rs" "ringGetByPeerInfo picker info = Some p"
  using assms by (induction rs info rule: firstByInfo.induct) (auto split: option.splits)

text \<open>Every region holds only peers of that region, in a sound ring.\<close>

definition region_ok :: "RegionPicker \<Rightarrow> bool" where
  "region_ok rp \<longleftrightarrow> 0 < ch_replicas (rp_hash rp) \<and> distinct (map fst (rp_regions rp)) \<and>
     (\<forall>(dc, ch) \<in> set (rp_regions rp). ring_ok ch \<and> ringPeers ch \<noteq> [] \<and>
        (\<forall>p \<in> set (ringPeers ch). pi_DataCenter (pr_Info p) = dc))"

lemma region_ok_New: "region_ok rp \<Longrightarrow> region_ok (regionNew rp)"
  by (simp add: region_ok_def regionNew_def)

lemma regionAdd_hash: "rp_hash (regionAdd p rp) = rp_hash rp"
  by (simp add: regionAdd_def Let_def)

lemma region_okD:
  assumes "region_ok rp" "(dc, ch) \<in> set (rp_regions rp)"
  shows "ring_ok ch" "ringPeers ch \<noteq> []" "\<And>p. p \<in> set (ringPeers ch) \<Longrightarrow> pi_DataCenter (pr_Info p) = dc"
proof -
  have "ring_ok ch \<and> ringPeers ch \<noteq> [] \<and> (\<forall>p \<in> set (ringPeers ch). pi_DataCenter (pr_Info p) = dc)"
    using assms unfolding region_ok_def by blast
  then show "ring_ok ch" "ringPeers ch \<noteq> []" "\<And>p. p \<in> set (ringPeers ch) \<Longrightarrow> pi_DataCenter (pr_Info p) = dc" by simp_all
qed

lemma regionRing_ok:
  assumes "region_ok rp"
  shows "ring_ok (regionRing rp dc)" "p \<in> set (ringPeers (regionRing rp dc)) \<Longrightarrow> pi_DataCenter (pr_Info p) = dc"
proof -
  show "ring_ok (regionRing rp dc)"
  proof (cases "map_of (rp_regions rp) dc")
    case None
    have "0 < ch_replicas (rp_hash rp)" using assms by (simp add: region_ok_def)
    then show ?thesis using None ring_ok_New by (simp add: regionRing_def)
  next
    case (Some c)
    then show ?thesis using region_okD(1) [OF assms map_of_SomeD [OF Some]] by (simp add: regionRing_def)
  qed
  show "pi_DataCenter (pr_Info p) = dc" if "p \<in> set (ringPeers (regionRing rp dc))"
  proof (cases "map_of (rp_regions rp) dc")
    case None
    then show ?thesis using that by (simp add: regionRing_def)
  next
    case (Some c)
    then show ?thesis using region_okD(3) [OF assms map_of_SomeD [OF Some]] that by (simp add: regionRing_def)
  qed
qed

lemma regionRing_fresh:
  assumes "regionGetByPeerInfo rp info = None"
  shows "ringGetByPeerInfo (regionRing rp dc) info = None"
proof (cases "map_of (rp_regions rp) dc")
  case None
  then show ?thesis by (simp add: regionRing_def ringGetByPeerInfo_def)
next
  case (Some c)
  then show ?thesis
    using firstByInfo_None [of "rp_regions rp" info dc c] map_of_SomeD [OF Some] assms
    by (simp add: regionRing_def regionGetByPeerInfo_def)
qed

text \<open>The peers of all regions are those of one region and those of the others.\<close>

lemma regionPeers_split:
  assumes "distinct (map fst (rp_regions rp))"
  shows "set (regionPeers rp) = set (ringPeers (regionRing rp dc)) \<union>
    (\<Union>x\<in>{x \<in> set (rp_regions rp). fst x \<noteq> dc}. set (ringPeers (snd x)))"
proof -
  let ?here = "{x \<in> set (rp_regions rp). fst x = dc}" and ?there = "{x \<in> set (rp_regions rp). fst x \<noteq> dc}"
  have here: "(\<Union>x\<in>?here. set (ringPeers (snd x))) = set (ringPeers (regionRing rp dc))"
  proof (cases "map_of (rp_regions rp) dc")
    case None
    then have "?here = {}" by (auto simp: map_of_eq_None_iff image_iff)
    then show ?thesis unfolding \<open>?here = {}\<close> using None by (simp add: regionRing_def)
  next
    case (Some c)
    have "x = (dc, c)" if "x \<in> ?here" for x
      using map_of_is_SomeI [OF assms, of dc "snd x"] that Some by (cases x) simp
    moreover have "(dc, c) \<in> ?here" using map_of_SomeD [OF Some] by simp
    ultimately have "?here = {(dc, c)}" by blast
    then show ?thesis unfolding \<open>?here = {(dc, c)}\<close> using Some by (simp add: regionRing_def)
  qed
  have "set (regionPeers rp) = (\<Union>x\<in>set (rp_regions rp). set (ringPeers (snd x)))"
    by (simp add: regionPeers_def)
  also have "\<dots> = (\<Union>x\<in>?here \<union> ?there. set (ringPeers (snd x)))" by (rule arg_cong) blast
  finally show ?thesis by (simp only: UN_Un here)
qed

lemma region_ok_Add:
  assumes "region_ok rp" "regionGetByPeerInfo rp (pr_Info p) = None"
  shows "region_ok (regionAdd p rp)" "set (regionPeers (regionAdd p rp)) = insert p (set (regionPeers rp))"
proof -
  let ?dc = "pi_DataCenter (pr_Info p)"
  let ?ch = "ringAdd p (regionRing rp ?dc)"
  have d: "distinct (map fst (rp_regions rp))" using assms(1) by (simp add: region_ok_def)
  note old = regionRing_ok [OF assms(1)] and fresh = regionRing_fresh [OF assms(2)]
  have upd: "rp_regions (regionAdd p rp) = AList.update ?dc ?ch (rp_regions rp)" by (simp add: regionAdd_def Let_def)
  have new: "ring_ok ?ch" "ringPeers ?ch = ringPeers (regionRing rp ?dc) @ [p]"
    by (rule ring_ok_Add [OF old(1) fresh], rule ringAdd_fresh(1) [OF fresh])
  have mem: "set (rp_regions (regionAdd p rp)) = insert (?dc, ?ch) {x \<in> set (rp_regions rp). fst x \<noteq> ?dc}"
    unfolding upd by (rule set_update [OF d])
  have d': "distinct (map fst (rp_regions (regionAdd p rp)))" unfolding upd by (rule distinct_update [OF d])
  have "ring_ok ch \<and> ringPeers ch \<noteq> [] \<and> (\<forall>q \<in> set (ringPeers ch). pi_DataCenter (pr_Info q) = dc)"
    if "(dc, ch) \<in> set (rp_regions (regionAdd p rp))" for dc ch
  proof (cases "dc = ?dc \<and> ch = ?ch")
    case True
    then show ?thesis using new old(2) by auto
  next
    case False
    then have "(dc, ch) \<in> set (rp_regions rp)" using that unfolding mem by auto
    then show ?thesis using region_okD [OF assms(1)] by blast
  qed
  then show "region_ok (regionAdd p rp)"
    using assms(1) d' unfolding region_ok_def regionAdd_hash by blast
  have "regionRing (regionAdd p rp) ?dc = ?ch" unfolding regionRing_def upd by (simp add: update_conv')
  then show "set (regionPeers (regionAdd p rp)) = insert p (set (regionPeers rp))"
    unfolding regionPeers_split [OF d', of ?dc] regionPeers_split [OF d, of ?dc] mem by (auto simp: new(2))
qed

subsection \<open>Properties of the ring\<close>

text \<open>The ring of a list of peers, added one by one to a new ring.\<close>

definition ringOf :: "(string \<Rightarrow> 64 word) \<Rightarrow> int \<Rightarrow> PeerRef list \<Rightarrow> ReplicatedConsistentHash" where
  "ringOf h n ps = fold ringAdd ps (NewReplicatedConsistentHash h (Some h) n)"

lemma ringOf_sel:
  "ch_hashFunc (ringOf h n ps) = h" "ch_replicas (ringOf h n ps) = n"
proof -
  have "ch_hashFunc (fold ringAdd ps ch) = ch_hashFunc ch \<and> ch_replicas (fold ringAdd ps ch) = ch_replicas ch" for ch
    by (induction ps arbitrary: ch) auto
  then show "ch_hashFunc (ringOf h n ps) = h" "ch_replicas (ringOf h n ps) = n"
    by (simp_all add: ringOf_def NewReplicatedConsistentHash_def)
qed

lemma ringOf_ok:
  assumes "0 < n" "distinct (map addr ps)"
  shows "ring_ok (ringOf h n ps)" "ringPeers (ringOf h n ps) = ps"
    "set (ch_peerKeys (ringOf h n ps)) = ringPoints h n (set ps)"
proof -
  let ?r = "NewReplicatedConsistentHash h (Some h) n"
  have r: "ring_ok ?r" "ringNew ?r = ?r"
    using assms(1) by (simp_all add: ring_ok_def NewReplicatedConsistentHash_def ringPeers_def ringPoints_def ringNew_def)
  show ok: "ring_ok (ringOf h n ps)" and ps: "ringPeers (ringOf h n ps) = ps"
    using ring.filled(1,2) [OF r(1) assms(2)] by (simp_all add: ringOf_def r(2))
  show "set (ch_peerKeys (ringOf h n ps)) = ringPoints h n (set ps)"
    using ok by (simp add: ring_ok_def ringOf_sel ps)
qed

lemma ringOf_owner:
  assumes "0 < n" "distinct (map addr ps)" "ps \<noteq> []"
  obtains p where "ringGet (ringOf h n ps) key = Inr p" "is_owner (ringPoints h n (set ps)) (h key) p" "p \<in> set ps"
proof (rule ringGet_owner [OF ringOf_ok(1) [OF assms(1,2)], of h key])
  show "ringPeers (ringOf h n ps) \<noteq> []" using assms(3) by (simp add: ringOf_ok(2) [OF assms(1,2)])
  show thesis if "ringGet (ringOf h n ps) key = Inr p"
    "is_owner (set (ch_peerKeys (ringOf h n ps))) (ch_hashFunc (ringOf h n ps) key) p"
    "p \<in> set (ringPeers (ringOf h n ps))" for p
    using \<open>\<And>p. \<lbrakk>ringGet (ringOf h n ps) key = Inr p; is_owner (ringPoints h n (set ps)) (h key) p; p \<in> set ps\<rbrakk> \<Longrightarrow> thesis\<close> that
    by (simp add: ringOf_ok(2,3) [OF assms(1,2)] ringOf_sel)
qed

text \<open>
  C28. The owner of a key is its clockwise successor: on a ring built from any non-empty list of peers
  with different addresses, \<^verbatim>\<open>Get\<close> never fails and answers with the peer of the first of the
  replicas at or after the hash of the key, or of the first replica of the ring when the hash is past
  them all.
\<close>

theorem ring_owner_is_successor:
  assumes "0 < n" "distinct (map addr ps)" "ps \<noteq> []"
  shows "\<exists>p\<in>set ps. ringGet (ringOf h n ps) key = Inr p \<and> is_owner (ringPoints h n (set ps)) (h key) p"
  by (rule ringOf_owner [OF assms, of h key]) blast

definition samplePeer :: "nat \<Rightarrow> string \<Rightarrow> PeerRef" where
  "samplePeer i a = \<lparr>pr_id = i, pr_Info = \<lparr>pi_DataCenter = [], pi_HTTPAddress = [], pi_GRPCAddress = a, pi_IsOwner = False\<rparr>\<rparr>"

theorem ring_owner_is_successor_witness:
  "\<exists>p\<in>set [samplePeer 1 ''a'', samplePeer 2 ''b''].
     ringGet (ringOf (\<lambda>s. of_nat (length s)) 3 [samplePeer 1 ''a'', samplePeer 2 ''b'']) ''key'' = Inr p \<and>
     is_owner (ringPoints (\<lambda>s. of_nat (length s)) 3 (set [samplePeer 1 ''a'', samplePeer 2 ''b''])) 3 p"
  using ring_owner_is_successor [of 3 "[samplePeer 1 ''a'', samplePeer 2 ''b'']" "\<lambda>s. of_nat (length s)" "''key''"]
  by (simp add: samplePeer_def)





text \<open>
  A key has one client in every region: when the regions are sound, \<^verbatim>\<open>GetClients\<close> never fails
  and answers with exactly one peer per region, each of them in that region.
\<close>

theorem region_one_client_per_region:
  assumes "region_ok rp"
  shows "\<exists>ps. regionGetClients rp key = Inr ps \<and> map (pi_DataCenter \<circ> pr_Info) ps = map fst (rp_regions rp)"
proof -
  have "\<exists>ps. getClients rs key = Inr ps \<and> map (pi_DataCenter \<circ> pr_Info) ps = map fst rs"
    if "set rs \<subseteq> set (rp_regions rp)" for rs
    using that
  proof (induction rs)
    case (Cons x rs)
    obtain dc ch where x: "x = (dc, ch)" by fastforce
    then have "(dc, ch) \<in> set (rp_regions rp)" using Cons.prems by simp
    note R = region_okD [OF assms this]
    obtain p where "ringGet ch key = Inr p" "p \<in> set (ringPeers ch)" using ring.get_some [OF R(1,2), of key] by blast
    then show ?case using Cons R(3) x by auto
  qed simp
  then show ?thesis by (simp add: regionGetClients_def)
qed

theorem region_one_client_per_region_witness:
  "\<exists>ps. regionGetClients (regionAdd (samplePeer 1 ''a'') (NewRegionPicker (\<lambda>s. of_nat (length s)) None)) ''key'' = Inr ps \<and>
     map (pi_DataCenter \<circ> pr_Info) ps = [[]]"
proof -
  let ?rp = "NewRegionPicker (\<lambda>s. of_nat (length s)) None" and ?p = "samplePeer 1 ''a''"
  have "region_ok ?rp"
    by (simp add: region_ok_def NewRegionPicker_def NewReplicatedConsistentHash_def defaultReplicas_def)
  moreover have "regionGetByPeerInfo ?rp (pr_Info ?p) = None"
    by (simp add: regionGetByPeerInfo_def NewRegionPicker_def)
  ultimately have "region_ok (regionAdd ?p ?rp)" by (rule region_ok_Add(1))
  from region_one_client_per_region [OF this, of "''key''"] show ?thesis
    by (simp add: regionAdd_def NewRegionPicker_def samplePeer_def)
qed

end
