(* ===== verification/Balance.thy ===== *)
theory Balance
  imports Types
begin

text \<open>
  The arithmetic of a leaky bucket's balance, the small functions of \<^verbatim>\<open>algorithms.go\<close>:
  crediting leak, debt, the moment a bucket is full again, and the conversions between the
  \<^verbatim>\<open>float64\<close> balance and whole tokens. They are shared by the bucket algorithms and by
  the eviction accounting of the cache.
\<close>

text \<open>The constants \<^verbatim>\<open>1e-9\<close> and \<^verbatim>\<open>1e-6\<close> as the nearest \<^verbatim>\<open>float64\<close>.\<close>

definition eps9 :: rat where "eps9 = 4835703278458517 / 4835703278458516698824704"
definition eps6 :: rat where "eps6 = 4722366482869645 / 4722366482869645213696"

definition snapToZero :: "f64 \<Rightarrow> f64" where
  "snapToZero balance = (if Abs balance < Fin eps9 then Fin 0 else balance)"

definition wholeTokens :: "f64 \<Rightarrow> i64" where
  "wholeTokens balance = int64_of (balance + Fin eps9)"

definition spendableTokens :: "f64 \<Rightarrow> i64" where
  "spendableTokens balance = max 0 (wholeTokens balance)"

definition unusableRate :: "f64 \<Rightarrow> bool" where
  "unusableRate rate \<longleftrightarrow> \<not> (Fin 0 < rate) \<or> IsInf rate"

definition millis :: "f64 \<Rightarrow> i64" where
  "millis f = (if Fin (2 ^ 63) \<le> f then maxI64
               else if f \<le> Fin (- (2 ^ 63)) then minI64
               else int64_of f)"

definition creditedLeak :: "LeakyBucketItem \<Rightarrow> i64 \<Rightarrow> f64 \<Rightarrow> f64" where
  "creditedLeak b now rate =
     (if now \<le> lb_UpdatedAt b then Fin 0
      else let leak = f64_of_int (sub64 now (lb_UpdatedAt b)) / rate
           in if \<not> IsNaN leak then leak else Fin 0)"

definition rateOf :: "i64 \<Rightarrow> i64 \<Rightarrow> f64" where
  "rateOf duration limit = f64_of_int duration / f64_of_int limit"

definition debtAt :: "LeakyBucketItem \<Rightarrow> i64 \<Rightarrow> bool" where
  "debtAt b now =
     (let rate = rateOf (lb_Duration b) (lb_Limit b);
          balance = (if \<not> unusableRate rate then lb_Remaining b + creditedLeak b now rate
                     else lb_Remaining b)
      in snapToZero balance < Fin 0)"

definition fullAt :: "LeakyBucketItem \<Rightarrow> f64 \<Rightarrow> i64" where
  "fullAt b rate =
     millis (Ceil (f64_of_int (lb_UpdatedAt b) + (f64_of_int (lb_Burst b) - lb_Remaining b) * rate))"

definition evictedDebt :: "Time \<Rightarrow> CacheItem \<Rightarrow> f64" where
  "evictedDebt now item =
     (case ci_Value item of
        LeakyValue b \<Rightarrow>
          (let rate = rateOf (lb_Duration b) (lb_Limit b);
               balance = (if Fin 0 < rate
                          then lb_Remaining b + creditedLeak b (MillisecondNow now) rate
                          else lb_Remaining b)
           in bmax (Fin 0) (- snapToZero balance))
      | _ \<Rightarrow> Fin 0)"

subsection \<open>The constants are the nearest doubles\<close>

lemma eps9_is_1e9: "round64 (1 / 1000000000) = eps9" by code_simp
lemma eps6_is_1e6: "round64 (1 / 1000000) = eps6" by code_simp

lemma repr64_eps9 [simp]: "repr64 eps9"
  by (simp flip: eps9_is_1e9)

lemma eps9_pos [simp]: "0 < eps9" and eps9_small: "eps9 < 1 / 1000"
  by (simp_all add: eps9_def)

subsection \<open>Snapping and whole tokens\<close>

lemma Fin_0_less [simp]: "is_fin (Fin 0)" "val (Fin 0) = 0"
  by simp_all

lemma wf64_ops [simp]:
  "wf64 (a + b)" "wf64 (a - b)" "wf64 (a * b)" "wf64 (a / b)" "wf64 (f64_of_int n)"
proof -
  show p: "wf64 (a + b)" for a b by (cases a; cases b) auto
  show "wf64 (a - b)" using p by (simp add: minus_f64_def)
  show "wf64 (a * b)" by (cases a; cases b) auto
  show "wf64 (a / b)" by (cases a; cases b) (auto simp: overflow64_def)
  show "wf64 (f64_of_int n)" by (simp add: f64_of_int_def)
qed

lemma Abs_less_eps:
  "Abs x < Fin eps9 \<longleftrightarrow> is_fin x \<and> \<bar>val x\<bar> < eps9"
  by (cases x) (auto simp: less_f64_def)

lemma snapToZero_cases:
  obtains "is_fin x" "\<bar>val x\<bar> < eps9" "snapToZero x = Fin 0"
  | "\<not> (is_fin x \<and> \<bar>val x\<bar> < eps9)" "snapToZero x = x"
  by (cases "is_fin x \<and> \<bar>val x\<bar> < eps9") (auto simp: snapToZero_def Abs_less_eps)

lemma snapToZero_neg:
  assumes "snapToZero x < Fin 0"
  shows "snapToZero x = x" "x = Inf True \<or> is_fin x \<and> val x \<le> - eps9"
proof -
  have "snapToZero x = x \<and> (x = Inf True \<or> is_fin x \<and> val x \<le> - eps9)"
  proof (cases rule: snapToZero_cases [of x])
    case 2
    then show ?thesis using assms by (cases x) (auto simp: less_f64_def split: if_splits)
  qed (use assms in simp)
  then show "snapToZero x = x" "x = Inf True \<or> is_fin x \<and> val x \<le> - eps9" by simp_all
qed

lemma snapToZero_idem [simp]: "snapToZero (snapToZero x) = snapToZero x"
  by (simp add: snapToZero_def Abs_less_eps)

lemma snapToZero_not_NaN: "x \<noteq> NaN \<Longrightarrow> snapToZero x \<noteq> NaN"
  by (simp add: snapToZero_def)

lemma wf64_snapToZero: "wf64 x \<Longrightarrow> wf64 (snapToZero x)"
  by (simp add: snapToZero_def overflow64_def)

lemma snapToZero_le:
  assumes "x \<le> B" "Fin 0 \<le> B"
  shows "snapToZero x \<le> B"
  using assms by (simp add: snapToZero_def)

lemma snapToZero_val:
  assumes "is_fin x"
  shows "is_fin (snapToZero x)" "\<bar>val (snapToZero x) - val x\<bar> < eps9"
    "val (snapToZero x) = 0 \<or> val (snapToZero x) = val x"
  using assms by (auto simp: snapToZero_def Abs_less_eps)

text \<open>The whole tokens of a negative balance are not spendable.\<close>

lemma int64_of_nonpos: "is_fin x \<Longrightarrow> val x \<le> 0 \<Longrightarrow> int64_of x \<le> 0"
  by (cases x) (auto simp: truncate_rat_def minI64_def)

lemma plus_nonpos:
  assumes "is_fin a" "is_fin b" "val a + val b \<le> 0"
  shows "int64_of (a + b) \<le> 0"
proof -
  have "round64 (val a + val b) \<le> 0" using assms(3) by (rule round64_nonpos)
  then show ?thesis
    using assms by (auto simp: plus_fin_fl fl_def Let_def truncate_rat_def minI64_def)
qed

lemma wholeTokens_neg:
  assumes "snapToZero x < Fin 0"
  shows "wholeTokens x \<le> 0"
proof (cases "x = Inf True")
  case True
  then show ?thesis by (simp add: wholeTokens_def minI64_def)
next
  case False
  then have "is_fin x" "val x + eps9 \<le> 0" using snapToZero_neg(2) [OF assms] by auto
  then show ?thesis using plus_nonpos [of x "Fin eps9"] by (simp add: wholeTokens_def)
qed

text \<open>
  A balance that covers \<open>h\<close> hits lies at most \<open>2 * eps9\<close> below \<open>h\<close>: the sum with the
  epsilon is rounded to a number no further away than the balance itself.
\<close>

lemma wholeTokens_ge:
  assumes "h \<le> wholeTokens x" "1 \<le> h" "wf64 x"
  shows "is_fin x" "of_int h - 2 * eps9 \<le> val x"
proof -
  have "1 \<le> int64_of (x + Fin eps9)" using assms(1,2) by (simp add: wholeTokens_def)
  then obtain q where q: "x + Fin eps9 = Fin q" by (cases "x + Fin eps9") (simp_all add: minI64_def)
  then have hq: "h \<le> truncate_rat q"
    using assms(1,2) by (simp add: wholeTokens_def minI64_def split: if_splits)
  have pos: "0 \<le> q"
  proof (rule ccontr)
    assume "\<not> 0 \<le> q"
    then have "truncate_rat q \<le> 0" by (simp add: truncate_rat_def)
    with hq assms(2) show False by simp
  qed
  then have "h \<le> \<lfloor>q\<rfloor>" using hq by (simp add: truncate_rat_def)
  then have hq': "of_int h \<le> q" by (simp add: le_floor_iff)
  show fin: "is_fin x" using q by (cases x) auto
  then have "fl False (val x + eps9) = Fin q" using q by (simp add: plus_fin_fl)
  moreover have "0 < q" using hq' assms(2) by linarith
  ultimately have "q = round64 (val x + eps9)" by (simp add: fl_def Let_def split: if_splits)
  moreover have "repr64 (val x)" using assms(3) fin by (cases x) auto
  ultimately have "\<bar>q - (val x + eps9)\<bar> \<le> eps9"
    using round64_add_error [of "val x" eps9] eps9_pos by (simp add: less_imp_le)
  with hq' show "of_int h - 2 * eps9 \<le> val x" by linarith
qed

text \<open>And what it leaves after paying for them is at least \<open>- 2 * eps9\<close>.\<close>

lemma charge_bound:
  assumes "h \<le> wholeTokens x" "1 \<le> h" "h \<le> 2 ^ 53" "wf64 x" "\<bar>val x\<bar> \<le> 2 ^ 1000"
  shows "is_fin (x - f64_of_int h)" "- 2 * eps9 \<le> val (x - f64_of_int h)"
    "val (x - f64_of_int h) = round64 (val x - of_int h)"
proof -
  note W = wholeTokens_ge [OF assms(1,2,4)]
  have h: "f64_of_int h = Fin (of_int h)" using assms(2,3) by (intro f64_of_int_exact) simp
  have "(of_int h :: rat) \<le> of_int (2 ^ 53)" using assms(3) by (simp only: of_int_le_iff)
  then have "\<bar>of_int h :: rat\<bar> \<le> 2 ^ 53" using assms(2) by simp
  moreover have "(2 ^ 1000 + 2 ^ 53 :: rat) \<le> 2 ^ 1023" by simp
  ultimately have b: "\<bar>val x - val (f64_of_int h)\<bar> \<le> 2 ^ 1023" using assms(5) unfolding h by simp
  have m: "is_fin (x - f64_of_int h)" "val (x - f64_of_int h) = round64 (val x - of_int h)"
    using minus_fin [OF W(1) _ b] by (simp_all add: h)
  have "repr64 (2 * eps9)"
    unfolding repr64_def by (rule exI [of _ 4835703278458517], rule exI [of _ "- 81"])
      (simp add: eps9_def power_int_minus)
  then have "repr64 (- 2 * eps9)" using repr64_uminus [of "2 * eps9"] by simp
  moreover have "- 2 * eps9 \<le> val x - of_int h" using W(2) by simp
  ultimately have "- 2 * eps9 \<le> round64 (val x - of_int h)" by (intro round64_ge)
  with m show "is_fin (x - f64_of_int h)" "- 2 * eps9 \<le> val (x - f64_of_int h)"
    "val (x - f64_of_int h) = round64 (val x - of_int h)" by simp_all
qed

subsection \<open>Rates and leaks\<close>

definition good_rate :: "f64 \<Rightarrow> bool" where
  "good_rate rate \<longleftrightarrow> is_fin rate \<and> 1 / 2 ^ 63 \<le> val rate \<and> val rate \<le> 2 ^ 63"

lemma repr64_inv_pow2: "k \<le> 1074 \<Longrightarrow> repr64 (1 / 2 ^ k)"
  unfolding repr64_def
  by (rule exI [of _ 1], rule exI [of _ "- int k"]) (simp add: power_int_minus inverse_eq_divide)

lemma in64_abs: "in64 n \<Longrightarrow> \<bar>of_int n :: rat\<bar> \<le> 2 ^ 63"
proof -
  assume "in64 n"
  then have "\<bar>n\<bar> \<le> 2 ^ 63" by (auto simp: in64_def minI64_def maxI64_def)
  then have "of_int \<bar>n\<bar> \<le> (of_int (2 ^ 63) :: rat)" by (simp only: of_int_le_iff)
  then show ?thesis by simp
qed

lemma f64_of_int_abs_ge: "in64 n \<Longrightarrow> n \<noteq> 0 \<Longrightarrow> 1 \<le> \<bar>val (f64_of_int n)\<bar>"
proof -
  assume n: "in64 n" "n \<noteq> 0"
  have r1: "repr64 (1 :: rat)" using repr64_int [of 1] by simp
  have "1 \<le> n \<or> n \<le> - 1" using n(2) by linarith
  then have "of_int 1 \<le> (of_int n :: rat) \<or> of_int n \<le> (of_int (- 1) :: rat)" by (simp only: of_int_le_iff)
  then consider "(1 :: rat) \<le> of_int n" | "of_int n \<le> (- 1 :: rat)" by auto
  then show ?thesis
  proof cases
    case 1
    then have "1 \<le> round64 (of_int n)" using r1 by (rule round64_ge)
    then show ?thesis by (simp add: f64_of_int_fin(2) [OF n(1)])
  next
    case 2
    have "repr64 (- 1 :: rat)" using r1 by (simp only: repr64_uminus)
    with 2 have "round64 (of_int n) \<le> - 1" by (rule round64_le)
    then show ?thesis by (simp add: f64_of_int_fin(2) [OF n(1)])
  qed
qed

lemma f64_of_int_mono: "in64 m \<Longrightarrow> in64 n \<Longrightarrow> m \<le> n \<Longrightarrow> f64_of_int m \<le> f64_of_int n"
  by (simp add: f64_of_int_fin round64_mono)

lemma f64_of_int_nonneg: "in64 n \<Longrightarrow> 0 \<le> n \<Longrightarrow> 0 \<le> val (f64_of_int n)"
  by (simp add: f64_of_int_fin round64_nonneg)

lemma rateOf_val:
  assumes "in64 d" "in64 l" "d \<noteq> 0" "l \<noteq> 0"
  shows "is_fin (rateOf d l)" "val (rateOf d l) = round64 (val (f64_of_int d) / val (f64_of_int l))"
    "1 / 2 ^ 63 \<le> \<bar>val (f64_of_int d) / val (f64_of_int l)\<bar>"
    "\<bar>val (f64_of_int d) / val (f64_of_int l)\<bar> \<le> 2 ^ 63"
proof -
  let ?d = "val (f64_of_int d)" and ?l = "val (f64_of_int l)"
  have D: "1 \<le> \<bar>?d\<bar>" "\<bar>?d\<bar> \<le> 2 ^ 63" and L: "1 \<le> \<bar>?l\<bar>" "\<bar>?l\<bar> \<le> 2 ^ 63"
    using assms f64_of_int_abs_ge f64_of_int_fin(3) by blast+
  have "\<bar>?d\<bar> / \<bar>?l\<bar> \<le> 2 ^ 63 / 1" by (rule frac_le) (use D L in auto)
  then show u: "\<bar>?d / ?l\<bar> \<le> 2 ^ 63" by (simp add: abs_divide)
  have "1 / 2 ^ 63 \<le> \<bar>?d\<bar> / \<bar>?l\<bar>" by (rule frac_le) (use D L in auto)
  then show "1 / 2 ^ 63 \<le> \<bar>?d / ?l\<bar>" by (simp add: abs_divide)
  have "(2 ^ 63 :: rat) \<le> 2 ^ 1023" by (rule power_increasing) auto
  with u have "\<bar>?d / ?l\<bar> \<le> 2 ^ 1023" by linarith
  moreover have "?l \<noteq> 0" using L(1) by auto
  ultimately show "is_fin (rateOf d l)" "val (rateOf d l) = round64 (?d / ?l)"
    using divide_fin [of "f64_of_int d" "f64_of_int l"] f64_of_int_fin(1) assms(1,2)
    by (simp_all add: rateOf_def)
qed

lemma f64_of_int_0 [simp]: "f64_of_int 0 = Fin 0"
  by (simp add: f64_of_int_def fl_def)

lemma rateOf_zero: "in64 d \<Longrightarrow> in64 l \<Longrightarrow> d = 0 \<or> l = 0 \<Longrightarrow> unusableRate (rateOf d l)"
  using f64_of_int_fin(1) [of d] f64_of_int_fin(1) [of l] f64_of_int_abs_ge [of l] f64_of_int_abs_ge [of d]
  by (cases "f64_of_int d"; cases "f64_of_int l")
    (auto simp: rateOf_def unusableRate_def IsInf_def less_f64_def fl_def)

lemma good_rate_usable:
  assumes "in64 d" "in64 l" "\<not> unusableRate (rateOf d l)"
  shows "good_rate (rateOf d l)"
proof -
  have nz: "d \<noteq> 0" "l \<noteq> 0" using assms rateOf_zero by blast+
  note V = rateOf_val [OF assms(1,2) nz]
  let ?q = "val (f64_of_int d) / val (f64_of_int l)"
  have pos: "0 < val (rateOf d l)" using assms(3) V(1) by (simp add: unusableRate_def)
  then have "0 < ?q" using V(2) round64_nonpos [of ?q] by (metis linorder_not_le)
  then have q: "1 / 2 ^ 63 \<le> ?q" "?q \<le> 2 ^ 63" using V(3,4) by auto
  have "1 / 2 ^ 63 \<le> round64 ?q" by (rule round64_ge [OF q(1) repr64_inv_pow2]) simp
  moreover have "round64 ?q \<le> 2 ^ 63" by (rule round64_le [OF q(2) repr64_pow2])
  ultimately show ?thesis using V(1,2) by (simp add: good_rate_def)
qed

lemma good_rate_pos:
  assumes "in64 d" "in64 l" "0 < d" "0 < l"
  shows "good_rate (rateOf d l)"
proof (rule good_rate_usable [OF assms(1,2)])
  have nz: "d \<noteq> 0" "l \<noteq> 0" using assms by auto
  note V = rateOf_val [OF assms(1,2) nz]
  have "0 \<le> val (f64_of_int d)" "0 \<le> val (f64_of_int l)" using assms f64_of_int_nonneg by auto
  then have "1 / 2 ^ 63 \<le> val (f64_of_int d) / val (f64_of_int l)" using V(3) by simp
  then have "1 / 2 ^ 63 \<le> val (rateOf d l)" unfolding V(2) by (rule round64_ge [OF _ repr64_inv_pow2]) simp
  moreover have "(0 :: rat) < 1 / 2 ^ 63" by simp
  ultimately have "0 < val (rateOf d l)" by linarith
  then show "\<not> unusableRate (rateOf d l)"
    using V(1) by (auto simp: unusableRate_def IsInf_def is_fin_iff)
qed

lemma good_rate_pos_val: "good_rate rate \<Longrightarrow> 0 < val rate"
proof -
  assume "good_rate rate"
  then have "1 / 2 ^ 63 \<le> val rate" by (simp add: good_rate_def)
  moreover have "(0 :: rat) < 1 / 2 ^ 63" by simp
  ultimately show ?thesis by linarith
qed

lemma good_rate_not_unusable: "good_rate rate \<Longrightarrow> \<not> unusableRate rate"
  using good_rate_pos_val [of rate] by (auto simp: unusableRate_def good_rate_def IsInf_def is_fin_iff)

text \<open>The credited leak is a finite number: the elapsed time over the rate, rounded twice.\<close>

lemma creditedLeak_val:
  assumes "good_rate rate"
  shows "is_fin (creditedLeak b now rate)" "\<bar>val (creditedLeak b now rate)\<bar> \<le> 2 ^ 126"
    "val (creditedLeak b now rate) = (if now \<le> lb_UpdatedAt b then 0
       else round64 (round64 (of_int (sub64 now (lb_UpdatedAt b))) / val rate))"
proof -
  let ?n = "f64_of_int (sub64 now (lb_UpdatedAt b))"
  have N: "is_fin ?n" "val ?n = round64 (of_int (sub64 now (lb_UpdatedAt b)))" "\<bar>val ?n\<bar> \<le> 2 ^ 63"
    using f64_of_int_fin [of "sub64 now (lb_UpdatedAt b)"] by simp_all
  have R: "is_fin rate" "1 / 2 ^ 63 \<le> val rate" "0 < val rate"
    using assms good_rate_pos_val by (simp_all add: good_rate_def)
  have "\<bar>val ?n\<bar> / val rate \<le> 2 ^ 63 / (1 / 2 ^ 63)" by (rule frac_le) (use N R in auto)
  then have q: "\<bar>val ?n / val rate\<bar> \<le> 2 ^ 126" using R(3) by (simp add: abs_divide)
  moreover have "(2 ^ 126 :: rat) \<le> 2 ^ 1023" by (rule power_increasing) auto
  ultimately have "\<bar>val ?n / val rate\<bar> \<le> 2 ^ 1023" by linarith
  then have L: "is_fin (?n / rate)" "val (?n / rate) = round64 (val ?n / val rate)"
    using divide_fin [OF N(1) R(1)] R(3) by simp_all
  have "\<not> IsNaN (?n / rate)" using L(1) by (simp add: IsNaN_def is_fin_iff)
  then have c: "creditedLeak b now rate = (if now \<le> lb_UpdatedAt b then Fin 0 else ?n / rate)"
    by (simp add: creditedLeak_def Let_def)
  show "is_fin (creditedLeak b now rate)" using L by (simp add: c)
  show "\<bar>val (creditedLeak b now rate)\<bar> \<le> 2 ^ 126" using L round64_abs_le [OF q] by (simp add: c)
  show "val (creditedLeak b now rate) = (if now \<le> lb_UpdatedAt b then 0
       else round64 (round64 (of_int (sub64 now (lb_UpdatedAt b))) / val rate))"
    using L N by (simp add: c)
qed

subsection \<open>No NaN\<close>

lemma plus_not_NaN: "x \<noteq> NaN \<Longrightarrow> is_fin y \<Longrightarrow> x + y \<noteq> NaN"
  by (cases x; cases y) auto

lemma minus_not_NaN: "x \<noteq> NaN \<Longrightarrow> is_fin y \<Longrightarrow> x - y \<noteq> NaN"
  using plus_not_NaN [of x "- y"] by (simp add: minus_f64_def)

lemma times_not_NaN: "x \<noteq> NaN \<Longrightarrow> is_fin y \<Longrightarrow> 0 < val y \<Longrightarrow> x * y \<noteq> NaN"
  by (cases x; cases y) auto

lemma good_rate_ratio:
  assumes "good_rate a" "good_rate b"
  shows "is_fin (a / b)" "0 < val (a / b)"
proof -
  have A: "is_fin a" "1 / 2 ^ 63 \<le> val a" "val a \<le> 2 ^ 63" "0 < val a"
    and B: "is_fin b" "1 / 2 ^ 63 \<le> val b" "val b \<le> 2 ^ 63" "0 < val b"
    using assms good_rate_pos_val by (auto simp: good_rate_def)
  have "val a / val b \<le> 2 ^ 63 / (1 / 2 ^ 63)" by (rule frac_le) (use A B in auto)
  then have "val a / val b \<le> 2 ^ 126" by simp
  moreover have "(2 ^ 126 :: rat) \<le> 2 ^ 1023" by (rule power_increasing) auto
  ultimately have u: "\<bar>val a / val b\<bar> \<le> 2 ^ 1023" using A(4) B(4) by (simp add: abs_divide)
  have "(1 / 2 ^ 63) / 2 ^ 63 \<le> val a / val b" by (rule frac_le) (use A B in auto)
  then have "1 / 2 ^ 126 \<le> val a / val b" by simp
  then have "1 / 2 ^ 126 \<le> round64 (val a / val b)" by (rule round64_ge [OF _ repr64_inv_pow2]) simp
  moreover have "(0 :: rat) < 1 / 2 ^ 126" by simp
  ultimately have "0 < round64 (val a / val b)" by linarith
  with divide_fin [OF A(1) B(1) _ u] B(4) show "is_fin (a / b)" "0 < val (a / b)" by simp_all
qed

lemma minus_nonneg_le:
  assumes "x \<le> B" "is_fin B" "wf64 B" "is_fin y" "0 \<le> val y"
  shows "x - y \<le> B"
proof (cases "x = Inf True")
  case True
  then show ?thesis using assms by (cases y) (auto simp: minus_f64_def is_fin_iff split: if_splits)
next
  case False
  then have x: "is_fin x" "val x \<le> val B" using le_fin_cases [OF assms(1,2)] by auto
  have repr: "repr64 (val B)" using assms(2,3) by (cases B) auto
  have e: "x - y = fl (x = NegZero \<and> - y = NegZero) (val x - val y)"
    using x assms(4) by (simp add: minus_f64_def plus_fin_fl)
  have le: "round64 (val x - val y) \<le> val B" using x(2) assms(5) repr by (intro round64_le) auto
  have bigB: "\<bar>val B\<bar> < overflow64" using assms(2,3) by (cases B) (auto simp: overflow64_def)
  show ?thesis
  proof (cases "is_fin (x - y)")
    case True
    then have "val (x - y) = round64 (val x - val y)"
      by (auto simp: e fl_def Let_def split: if_splits)
    then show ?thesis using True assms(2) le by simp
  next
    case False
    then have "x - y = Inf (val x - val y < 0)" "overflow64 \<le> \<bar>round64 (val x - val y)\<bar>"
      by (auto simp: e fl_def Let_def split: if_splits)
    moreover from this(2) le bigB have "round64 (val x - val y) < 0" by linarith
    then have "val x - val y < 0" using round64_nonneg [of "val x - val y"] by linarith
    ultimately show ?thesis using assms(2) by (auto simp: is_fin_iff)
  qed
qed

text \<open>A whole balance is read back exactly.\<close>

lemma wholeTokens_int:
  assumes "0 \<le> n" "n \<le> 2 ^ 51"
  shows "wholeTokens (f64_of_int n) = n"
proof -
  have f: "f64_of_int n = Fin (of_int n)" using assms by (intro f64_of_int_exact) simp
  have "repr64 (of_int n + 1 / 2)"
    unfolding repr64_def using assms
    by (intro exI [of _ "2 * n + 1"] exI [of _ "- 1"]) (simp add: power_int_minus field_simps)
  then have hi: "round64 (of_int n + eps9) \<le> of_int n + 1 / 2"
    using eps9_small by (intro round64_le) simp_all
  have lo: "of_int n \<le> round64 (of_int n + eps9)"
    using repr64_int [of n] assms eps9_pos by (intro round64_ge) (simp_all add: less_imp_le)
  have "(of_int n :: rat) \<le> of_int (2 ^ 51)" using assms(2) by (simp only: of_int_le_iff)
  moreover have "(of_int (2 ^ 51) + 1 :: rat) \<le> 2 ^ 1023" by simp
  moreover have "(0 :: rat) \<le> of_int n" using assms(1) by simp
  ultimately have b: "\<bar>of_int n + eps9\<bar> \<le> 2 ^ 1023"
    using eps9_small eps9_pos unfolding abs_le_iff by (intro conjI) linarith+
  have P: "is_fin (Fin (of_int n) + Fin eps9)" "val (Fin (of_int n) + Fin eps9) = round64 (of_int n + eps9)"
    using plus_fin [of "Fin (of_int n)" "Fin eps9"] b by simp_all
  have "\<lfloor>round64 (of_int n + eps9)\<rfloor> = n" using lo hi by (intro floor_unique) simp_all
  moreover have "in64 n" using assms unfolding in64_def minI64_def maxI64_def by simp
  moreover have "0 \<le> round64 (of_int n + eps9)" using lo assms(1) by (meson of_int_0_le_iff order_trans)
  ultimately show ?thesis
    using P by (cases "Fin (of_int n) + Fin eps9") (auto simp: wholeTokens_def f truncate_rat_def)
qed

lemma wholeTokens_Fin [simp]:
  "wholeTokens (Fin 0) = 0" "wholeTokens (Fin 1) = 1"
  "numeral k \<le> (2 ^ 51 :: int) \<Longrightarrow> wholeTokens (Fin (numeral k)) = numeral k"
proof -
  show "wholeTokens (Fin 0) = 0" using wholeTokens_int [of 0] by simp
  show "wholeTokens (Fin 1) = 1" using wholeTokens_int [of 1] by (simp add: f64_of_int_def)
  show "wholeTokens (Fin (numeral k)) = numeral k" if a: "numeral k \<le> (2 ^ 51 :: int)"
  proof -
    have "\<bar>numeral k\<bar> \<le> (2 ^ 53 :: int)" unfolding abs_numeral by (rule order_trans [OF a]) simp
    from f64_of_int_exact [OF this] have "f64_of_int (numeral k) = Fin (numeral k)" by (simp only: of_int_numeral)
    with wholeTokens_int [OF _ a] show ?thesis by simp
  qed
qed

lemma snapToZero_whole [simp]:
  "snapToZero (Fin 0) = Fin 0" "snapToZero (Fin 1) = Fin 1" "snapToZero (Fin (- 1)) = Fin (- 1)"
  "snapToZero (Fin (numeral k)) = Fin (numeral k)" "snapToZero (Fin (- numeral k)) = Fin (- numeral k)"
proof -
  have "eps9 < 1" using eps9_small by simp
  moreover have "(1 :: rat) \<le> numeral k" by simp
  ultimately have "\<not> numeral k < eps9" by linarith
  with \<open>eps9 < 1\<close> show "snapToZero (Fin 0) = Fin 0" "snapToZero (Fin 1) = Fin 1" "snapToZero (Fin (- 1)) = Fin (- 1)"
    "snapToZero (Fin (numeral k)) = Fin (numeral k)" "snapToZero (Fin (- numeral k)) = Fin (- numeral k)"
    by (simp_all add: snapToZero_def less_f64_def)
qed

subsection \<open>Monotone arithmetic\<close>

lemma fl_mono:
  assumes "p \<le> q"
  shows "fl s p \<le> fl t q"
proof -
  have "round64 p \<le> round64 q" using assms by (rule round64_mono)
  moreover have "p < 0 \<Longrightarrow> round64 p \<le> 0" "0 \<le> q \<Longrightarrow> 0 \<le> round64 q" "q < 0 \<Longrightarrow> round64 q \<le> 0" "0 \<le> p \<Longrightarrow> 0 \<le> round64 p"
    by (simp_all add: round64_nonneg round64_nonpos)
  ultimately show ?thesis
    using assms overflow64_pos by (auto simp: fl_def Let_def less_eq_f64_def less_f64_def)
qed

lemma rank_range [simp]: "\<not> rank x < - 1" "\<not> 1 < rank x"
  by (cases x; simp)+

lemma plus_mono_f64:
  assumes "a \<le> b" "is_fin c"
  shows "a + c \<le> b + c"
proof -
  have "a \<noteq> NaN" "b \<noteq> NaN" using le_not_NaN [OF assms(1)] by simp_all
  show ?thesis
  proof (cases "is_fin a \<and> is_fin b")
    case True
    then have "val a + val c \<le> val b + val c" using assms(1) by simp
    then show ?thesis using True assms(2) by (simp add: plus_fin_fl fl_mono)
  next
    case False
    then show ?thesis
      using assms \<open>a \<noteq> NaN\<close> \<open>b \<noteq> NaN\<close>
      by (cases a; cases b; cases c) (auto simp: less_eq_f64_def less_f64_def split: if_splits)
  qed
qed

lemma times_mono_f64:
  assumes "a \<le> b" "is_fin c" "0 < val c"
  shows "a * c \<le> b * c"
proof -
  have n: "a \<noteq> NaN" "b \<noteq> NaN" using le_not_NaN [OF assms(1)] by simp_all
  show ?thesis
  proof (cases "is_fin a \<and> is_fin b")
    case True
    then have "val a * val c \<le> val b * val c" using assms(1,3) by (simp add: mult_right_mono)
    then show ?thesis using True assms(2) by (simp add: times_fin_fl fl_mono)
  next
    case False
    then show ?thesis
      using assms n
      by (cases a; cases b; cases c) (auto simp: less_eq_f64_def less_f64_def split: if_splits)
  qed
qed

lemma Ceil_mono: "a \<le> b \<Longrightarrow> Ceil a \<le> Ceil b"
proof -
  assume ab: "a \<le> b"
  then have n: "a \<noteq> NaN" "b \<noteq> NaN" using le_not_NaN by blast+
  have fin: "is_fin (Ceil x) \<and> val (Ceil x) = of_int \<lceil>val x\<rceil>" if "is_fin x" for x using that by (cases x) auto
  show ?thesis
  proof (cases "is_fin a \<and> is_fin b")
    case True
    then have "\<lceil>val a\<rceil> \<le> \<lceil>val b\<rceil>" using ab by (simp add: ceiling_mono)
    then show ?thesis using True fin by simp
  next
    case False
    then show ?thesis using ab n by (cases a; cases b) (auto simp: less_eq_f64_def less_f64_def split: if_splits)
  qed
qed

lemma truncate_mono: "p \<le> q \<Longrightarrow> truncate_rat p \<le> truncate_rat q"
proof -
  assume pq: "p \<le> q"
  have "\<lceil>p\<rceil> \<le> \<lfloor>q\<rfloor>" if "p < 0" "0 \<le> q"
  proof -
    have "\<lceil>p\<rceil> \<le> 0" using that by (simp add: ceiling_le_iff)
    moreover have "0 \<le> \<lfloor>q\<rfloor>" using that by (simp add: le_floor_iff)
    ultimately show ?thesis by linarith
  qed
  then show ?thesis using pq by (auto simp: truncate_rat_def floor_mono ceiling_mono)
qed

text \<open>\<^verbatim>\<open>millis\<close> saturates instead of wrapping, so it is monotone on all numbers.\<close>

lemma millis_fin:
  assumes "is_fin x"
  shows "millis x = max minI64 (min maxI64 (truncate_rat (val x)))"
proof -
  have c: "(2 ^ 63 :: rat) \<le> q \<Longrightarrow> 2 ^ 63 \<le> truncate_rat q" "q \<le> - (2 ^ 63) \<Longrightarrow> truncate_rat q \<le> - (2 ^ 63)"
    "q < 2 ^ 63 \<Longrightarrow> truncate_rat q < 2 ^ 63" "- (2 ^ 63) < q \<Longrightarrow> - (2 ^ 63) \<le> truncate_rat q" for q :: rat
    by (auto simp: truncate_rat_def le_floor_iff ceiling_le_iff floor_less_iff less_ceiling_iff le_ceiling_iff)
  have i: "int64_of x = (if in64 (truncate_rat (val x)) then truncate_rat (val x) else minI64)"
    using assms by (cases x) (auto simp: truncate_rat_def in64_def minI64_def maxI64_def)
  consider "2 ^ 63 \<le> val x" | "val x \<le> - (2 ^ 63)" | "- (2 ^ 63) < val x" "val x < 2 ^ 63" by linarith
  then show ?thesis
  proof cases
    case 1
    then show ?thesis using c(1) [OF 1] assms by (simp add: millis_def minI64_def maxI64_def)
  next
    case 2
    then show ?thesis using c(2) [OF 2] assms by (simp add: millis_def minI64_def maxI64_def)
  next
    case 3
    then show ?thesis
      using c(3) [OF 3(2)] c(4) [OF 3(1)] assms by (simp add: millis_def i in64_def minI64_def maxI64_def)
  qed
qed

lemma millis_mono: "a \<le> b \<Longrightarrow> millis a \<le> millis b"
proof -
  assume ab: "a \<le> b"
  then have n: "a \<noteq> NaN" "b \<noteq> NaN" using le_not_NaN by blast+
  have inf: "millis (Inf True) = minI64" "millis (Inf False) = maxI64"
    by (simp_all add: millis_def less_eq_f64_def less_f64_def)
  have mm: "minI64 \<le> maxI64" by (simp add: minI64_def maxI64_def)
  have range: "minI64 \<le> millis x \<and> millis x \<le> maxI64" if "x \<noteq> NaN" for x
  proof (cases x)
    case (Inf s)
    then show ?thesis using inf mm by (cases s) simp_all
  qed (use that millis_fin [of x] mm in auto)
  show ?thesis
  proof (cases "is_fin a \<and> is_fin b")
    case True
    then show ?thesis using ab truncate_mono [of "val a" "val b"] by (simp add: millis_fin)
  next
    case False
    then show ?thesis
      using ab n inf range [of a] range [of b]
      by (cases a; cases b) (auto simp: less_eq_f64_def less_f64_def split: if_splits)
  qed
qed

end
