(* ===== verification/LRUCache.thy ===== *)
theory LRUCache
  imports Balance "HOL-Library.Multiset"
begin

text \<open>
  \<^verbatim>\<open>lrucache.go\<close>: the expiring LRU cache. As in the source, a map from keys to list
  elements is kept beside a doubly linked list of items, most recently used first; an element
  has an identity of its own (a number handed out by \<open>nextEle\<close>), so the agreement of map and
  list is an invariant and not built in. The items are objects shared with the bucket
  algorithms, which mutate them in place; \<open>setItem\<close> is that mutation.
\<close>

record LRUCache =
  cache :: "key \<Rightarrow> nat option"
  ll :: "(nat \<times> CacheItem) list"
  nextEle :: nat
  cacheSize :: int
  cacheLen :: i64

subsection \<open>The operations of container/list\<close>

definition listRemove :: "nat \<Rightarrow> (nat \<times> CacheItem) list \<Rightarrow> (nat \<times> CacheItem) list" where
  "listRemove e xs = filter (\<lambda>p. fst p \<noteq> e) xs"

definition moveToFront :: "nat \<Rightarrow> (nat \<times> CacheItem) list \<Rightarrow> (nat \<times> CacheItem) list" where
  "moveToFront e xs = (case map_of xs e of None \<Rightarrow> xs | Some v \<Rightarrow> (e, v) # listRemove e xs)"

definition setValue :: "nat \<Rightarrow> CacheItem \<Rightarrow> (nat \<times> CacheItem) list \<Rightarrow> (nat \<times> CacheItem) list" where
  "setValue e v xs = map (\<lambda>p. if fst p = e then (e, v) else p) xs"

subsection \<open>The cache\<close>

definition NewLRUCache :: "int \<Rightarrow> LRUCache" where
  "NewLRUCache maxSize =
     \<lparr>cache = (\<lambda>_. None), ll = [], nextEle = 0,
      cacheSize = (if maxSize = 0 then 50000 else maxSize), cacheLen = 0\<rparr>"

definition Each :: "LRUCache \<Rightarrow> CacheItem list" where
  "Each c = map snd (ll c)"

definition removeElement :: "nat \<Rightarrow> LRUCache \<Rightarrow> LRUCache" where
  "removeElement e c =
     (case map_of (ll c) e of
        None \<Rightarrow> c
      | Some kv \<Rightarrow>
          (let ll' = listRemove e (ll c)
           in c\<lparr>ll := ll', cache := (cache c)(ci_Key kv := None), cacheLen := int (length ll')\<rparr>))"

definition removeOldest :: "Time \<Rightarrow> LRUCache \<times> metrics \<Rightarrow> LRUCache \<times> metrics" where
  "removeOldest now = (\<lambda>(c, m).
     if ll c = [] then (c, m)
     else let (e, entry) = last (ll c);
              m1 = (if MillisecondNow now < ci_ExpireAt entry
                    then m\<lparr>m_UnexpiredEvictions := Suc (m_UnexpiredEvictions m)\<rparr> else m);
              lost = evictedDebt now entry;
              m2 = (if Fin 0 < lost
                    then m1\<lparr>m_DebtEvictions := Suc (m_DebtEvictions m1),
                            m_DebtLostTokens := m_DebtLostTokens m1 + lost\<rparr>
                    else m1)
          in (removeElement e c, m2))"

definition Add :: "Time \<Rightarrow> CacheItem \<Rightarrow> LRUCache \<times> metrics \<Rightarrow> bool \<times> LRUCache \<times> metrics" where
  "Add now item = (\<lambda>(c, m).
     case cache c (ci_Key item) of
       Some ee \<Rightarrow> (True, c\<lparr>ll := setValue ee item (moveToFront ee (ll c))\<rparr>, m)
     | None \<Rightarrow>
         (let ele = nextEle c;
              c1 = c\<lparr>ll := (ele, item) # ll c, cache := (cache c)(ci_Key item \<mapsto> ele),
                     nextEle := Suc ele\<rparr>;
              (c2, m2) = (if cacheSize c1 \<noteq> 0 \<and> cacheSize c1 < int (length (ll c1))
                          then removeOldest now (c1, m) else (c1, m))
          in (False, c2\<lparr>cacheLen := int (length (ll c2))\<rparr>, m2)))"

definition GetItem :: "Time \<Rightarrow> key \<Rightarrow> LRUCache \<times> metrics \<Rightarrow> CacheItem option \<times> LRUCache \<times> metrics" where
  "GetItem now k = (\<lambda>(c, m).
     case cache c k of
       None \<Rightarrow> (None, c, m\<lparr>m_CacheMiss := Suc (m_CacheMiss m)\<rparr>)
     | Some ele \<Rightarrow>
         (case map_of (ll c) ele of
            None \<Rightarrow> (None, c, m\<lparr>m_CacheMiss := Suc (m_CacheMiss m)\<rparr>)
          | Some entry \<Rightarrow>
              if IsExpired now entry
              then (None, removeElement ele c, m\<lparr>m_CacheMiss := Suc (m_CacheMiss m)\<rparr>)
              else (Some entry, c\<lparr>ll := moveToFront ele (ll c)\<rparr>,
                    m\<lparr>m_CacheHit := Suc (m_CacheHit m)\<rparr>)))"

definition Remove :: "key \<Rightarrow> LRUCache \<Rightarrow> LRUCache" where
  "Remove k c = (case cache c k of None \<Rightarrow> c | Some ele \<Rightarrow> removeElement ele c)"

definition Size :: "LRUCache \<Rightarrow> i64" where
  "Size c = cacheLen c"

definition setItem :: "key \<Rightarrow> CacheItem \<Rightarrow> LRUCache \<Rightarrow> LRUCache" where
  "setItem k item c =
     (case cache c k of None \<Rightarrow> c | Some ele \<Rightarrow> c\<lparr>ll := setValue ele item (ll c)\<rparr>)"

definition UpdateExpiration :: "key \<Rightarrow> i64 \<Rightarrow> LRUCache \<Rightarrow> bool \<times> LRUCache" where
  "UpdateExpiration k expireAt c =
     (case cache c k of
        None \<Rightarrow> (False, c)
      | Some ele \<Rightarrow>
          (case map_of (ll c) ele of
             None \<Rightarrow> (True, c)
           | Some entry \<Rightarrow>
               (True, c\<lparr>ll := setValue ele (entry\<lparr>ci_ExpireAt := expireAt\<rparr>) (ll c)\<rparr>)))"

definition CloseCache :: "LRUCache \<Rightarrow> LRUCache" where
  "CloseCache c = c\<lparr>cache := (\<lambda>_. None), ll := [], cacheLen := 0\<rparr>"

text \<open>The Prometheus collector sums the sizes of the caches it tracks.\<close>

definition collector_getSize :: "LRUCache list \<Rightarrow> f64" where
  "collector_getSize caches = foldl (\<lambda>size c. size + f64_of_int (Size c)) (Fin 0) caches"

subsection \<open>Invariant and abstract view\<close>

definition items :: "LRUCache \<Rightarrow> CacheItem list" where
  "items c = map snd (ll c)"

definition lookup :: "LRUCache \<Rightarrow> key \<Rightarrow> CacheItem option" where
  "lookup c k = find (\<lambda>i. ci_Key i = k) (items c)"

text \<open>Map and list agree; beyond that, the counter is right and the capacity is respected.\<close>

definition lru_core :: "LRUCache \<Rightarrow> bool" where
  "lru_core c \<longleftrightarrow>
     distinct (map fst (ll c)) \<and>
     distinct (map (ci_Key \<circ> snd) (ll c)) \<and>
     (\<forall>k e. cache c k = Some e \<longleftrightarrow> (\<exists>i. (e, i) \<in> set (ll c) \<and> ci_Key i = k)) \<and>
     (\<forall>e \<in> fst ` set (ll c). e < nextEle c)"

definition lru_inv :: "LRUCache \<Rightarrow> bool" where
  "lru_inv c \<longleftrightarrow> lru_core c \<and>
     cacheLen c = int (length (ll c)) \<and>
     (cacheSize c \<noteq> 0 \<longrightarrow> int (length (ll c)) \<le> max 0 (cacheSize c))"

subsection \<open>The element list\<close>

lemma set_listRemove: "set (listRemove e xs) = {p \<in> set xs. fst p \<noteq> e}"
  by (auto simp: listRemove_def)

lemma distinct_listRemove: "distinct (map f xs) \<Longrightarrow> distinct (map f (listRemove e xs))"
  by (simp add: listRemove_def distinct_map_filter_key)

lemma length_listRemove_le: "length (listRemove e xs) \<le> length xs"
  by (simp add: listRemove_def)

lemma set_moveToFront: "distinct (map fst xs) \<Longrightarrow> set (moveToFront e xs) = set xs"
  by (auto simp: moveToFront_def set_listRemove split: option.splits
      dest: map_of_SomeD eq_key_imp_eq_value)

lemma length_listRemove:
  "distinct (map fst xs) \<Longrightarrow> (e, v) \<in> set xs \<Longrightarrow> Suc (length (listRemove e xs)) = length xs"
  by (induction xs) (auto simp: listRemove_def filter_id_conv rev_image_eqI
      intro!: arg_cong [where f = length] filter_True)

lemma mset_moveToFront: "distinct (map fst xs) \<Longrightarrow> mset (moveToFront e xs) = mset xs"
proof (cases "map_of xs e")
  case None
  then show ?thesis by (simp add: moveToFront_def)
next
  case (Some v)
  assume d: "distinct (map fst xs)"
  then have "distinct xs" by (simp add: distinct_map)
  moreover have "distinct (moveToFront e xs)"
    using \<open>distinct xs\<close> Some by (auto simp: moveToFront_def listRemove_def)
  ultimately show ?thesis using set_moveToFront [OF d, of e] set_eq_iff_mset_eq_distinct by blast
qed

lemma distinct_moveToFront:
  "distinct (map fst xs) \<Longrightarrow> distinct (map f xs) \<Longrightarrow> distinct (map f (moveToFront e xs))"
  using mset_moveToFront [of xs e] by (metis mset_map mset_eq_imp_distinct_iff)

lemma length_moveToFront: "distinct (map fst xs) \<Longrightarrow> length (moveToFront e xs) = length xs"
  using mset_moveToFront by (metis size_mset)

lemma set_setValue:
  "set (setValue e v xs) = {p \<in> set xs. fst p \<noteq> e} \<union> (if e \<in> fst ` set xs then {(e, v)} else {})"
  by (auto simp: setValue_def)

lemma map_fst_setValue [simp]: "map fst (setValue e v xs) = map fst xs"
  by (simp add: setValue_def o_def)

lemma length_setValue [simp]: "length (setValue e v xs) = length xs"
  by (simp add: setValue_def)

lemma keys_setValue:
  assumes "distinct (map fst xs)" and "(e, i) \<in> set xs" and "ci_Key v = ci_Key i"
  shows "map (ci_Key \<circ> snd) (setValue e v xs) = map (ci_Key \<circ> snd) xs"
proof -
  have "ci_Key (snd (if fst p = e then (e, v) else p)) = ci_Key (snd p)" if "p \<in> set xs" for p
    using assms that by (cases p) (auto dest: eq_key_imp_eq_value)
  then show ?thesis by (simp add: setValue_def)
qed

subsection \<open>Lookup under the invariant\<close>

lemma lru_coreD:
  assumes "lru_core c"
  shows "distinct (map fst (ll c))" "distinct (map (ci_Key \<circ> snd) (ll c))"
    "\<And>k e. cache c k = Some e \<longleftrightarrow> (\<exists>i. (e, i) \<in> set (ll c) \<and> ci_Key i = k)"
    "\<And>e i. (e, i) \<in> set (ll c) \<Longrightarrow> e < nextEle c"
  using assms by (auto simp: lru_core_def)

lemma lru_inv_core: "lru_inv c \<Longrightarrow> lru_core c"
  by (simp add: lru_inv_def)

lemma find_key_iff:
  "distinct (map (ci_Key \<circ> snd) xs) \<Longrightarrow>
   find (\<lambda>i. ci_Key i = k) (map snd xs) = Some i \<longleftrightarrow> (\<exists>e. (e, i) \<in> set xs) \<and> ci_Key i = k"
proof (induction xs)
  case (Cons p xs)
  obtain e j where p: "p = (e, j)" by (cases p)
  have neq: "ci_Key i \<noteq> ci_Key j" if "(e', i) \<in> set xs" for e' i
    using Cons.prems that by (force simp: p)
  with Cons show ?case by (auto simp: p dest: neq)
qed simp

lemma lookup_iff:
  "lru_core c \<Longrightarrow> lookup c k = Some i \<longleftrightarrow> (\<exists>e. (e, i) \<in> set (ll c)) \<and> ci_Key i = k"
  using find_key_iff [OF lru_coreD(2)] by (simp add: lookup_def items_def)

lemma lookup_cong:
  assumes "lru_core c" "lru_core d"
    and "\<And>e i. ci_Key i = k \<Longrightarrow> (e, i) \<in> set (ll c) \<longleftrightarrow> (e, i) \<in> set (ll d)"
  shows "lookup c k = lookup d k"
proof -
  have "lookup c k = Some i \<longleftrightarrow> lookup d k = Some i" for i
    using assms(3) [of i] by (auto simp: lookup_iff assms(1,2))
  then show ?thesis by (metis not_Some_eq)
qed

lemma lookup_Key: "lookup c k = Some i \<Longrightarrow> ci_Key i = k"
  by (auto simp: lookup_def dest: find_Some_mem)

lemma cache_Some:
  assumes "lru_core c" "cache c k = Some e"
  obtains i where "(e, i) \<in> set (ll c)" "map_of (ll c) e = Some i" "ci_Key i = k" "lookup c k = Some i"
proof -
  from assms(2) lru_coreD(3) [OF assms(1)] obtain i where i: "(e, i) \<in> set (ll c)" "ci_Key i = k" by blast
  with lru_coreD(1) [OF assms(1)] have "map_of (ll c) e = Some i" by simp
  moreover have "lookup c k = Some i" using i assms(1) lookup_iff by blast
  ultimately show thesis using i that by blast
qed

lemma cache_None: "lru_core c \<Longrightarrow> cache c k = None \<longleftrightarrow> lookup c k = None"
  using lookup_iff [of c k] lru_coreD(3) [of c k] by (metis not_None_eq)

lemma lookup_Some_cache:
  assumes "lru_core c" "lookup c k = Some i"
  obtains e where "cache c k = Some e" "(e, i) \<in> set (ll c)" "map_of (ll c) e = Some i" "ci_Key i = k"
proof -
  from assms lookup_iff obtain e where e: "(e, i) \<in> set (ll c)" "ci_Key i = k" by blast
  then have "cache c k = Some e" using lru_coreD(3) [OF assms(1)] by blast
  moreover have "map_of (ll c) e = Some i" using e lru_coreD(1) [OF assms(1)] by simp
  ultimately show thesis using e that by blast
qed

subsection \<open>Every operation keeps the invariant\<close>

lemma NewLRUCache_inv: "lru_inv (NewLRUCache n)"
  by (simp add: lru_inv_def lru_core_def NewLRUCache_def)

lemma removeElement_ll:
  "lru_core c \<Longrightarrow> (e, kv) \<in> set (ll c) \<Longrightarrow>
   removeElement e c = c\<lparr>ll := listRemove e (ll c), cache := (cache c)(ci_Key kv := None),
     cacheLen := int (length (listRemove e (ll c)))\<rparr>"
  by (simp add: removeElement_def lru_coreD(1) Let_def)

lemma same_key_same_element:
  assumes "lru_core c" "(e, i) \<in> set (ll c)" "(e', j) \<in> set (ll c)"
  shows "ci_Key i = ci_Key j \<longleftrightarrow> e = e'"
proof
  assume k: "ci_Key i = ci_Key j"
  have "cache c (ci_Key i) = Some e" "cache c (ci_Key j) = Some e'"
    using assms lru_coreD(3) [OF assms(1)] by blast+
  with k show "e = e'" by simp
next
  assume "e = e'"
  then show "ci_Key i = ci_Key j" using assms lru_coreD(1) eq_key_imp_eq_value by fastforce
qed

lemma removeElement_core:
  assumes "lru_core c" and "(e, kv) \<in> set (ll c)"
  shows "lru_core (removeElement e c)"
proof -
  note I = lru_coreD [OF assms(1)] and R = removeElement_ll [OF assms]
  note keys = same_key_same_element [OF assms(1) _ assms(2)]
  show ?thesis
    unfolding lru_core_def R
  proof (intro conjI)
    show "\<forall>k e'. cache (c\<lparr>ll := listRemove e (ll c), cache := (cache c)(ci_Key kv := None),
        cacheLen := int (length (listRemove e (ll c)))\<rparr>) k = Some e' \<longleftrightarrow>
        (\<exists>i. (e', i) \<in> set (ll (c\<lparr>ll := listRemove e (ll c), cache := (cache c)(ci_Key kv := None),
        cacheLen := int (length (listRemove e (ll c)))\<rparr>)) \<and> ci_Key i = k)"
      using I(3) keys by (auto simp: set_listRemove)
  qed (use I in \<open>auto simp: distinct_listRemove set_listRemove\<close>)
qed

lemma removeElement_lookup:
  assumes "lru_core c" and "(e, kv) \<in> set (ll c)"
  shows "lookup (removeElement e c) k = (if k = ci_Key kv then None else lookup c k)"
proof -
  note inv = removeElement_core [OF assms]
  have "set (ll (removeElement e c)) = {p \<in> set (ll c). fst p \<noteq> e}"
    by (simp add: removeElement_ll [OF assms] set_listRemove)
  then have "lookup (removeElement e c) k = Some i \<longleftrightarrow> (k \<noteq> ci_Key kv \<and> lookup c k = Some i)" for i
    using same_key_same_element [OF assms(1) _ assms(2)] by (auto simp: lookup_iff inv assms(1))
  then show ?thesis by (metis not_Some_eq)
qed

lemma removeElement_inv: "lru_inv c \<Longrightarrow> (e, kv) \<in> set (ll c) \<Longrightarrow> lru_inv (removeElement e c)"
  using removeElement_core [of c e kv] length_listRemove_le [of e "ll c"]
  by (auto simp: lru_inv_def removeElement_ll)

lemma removeOldest_core:
  assumes "lru_core c" and "ll c \<noteq> []"
  shows "lru_core (fst (removeOldest now (c, m)))"
    and "Suc (length (ll (fst (removeOldest now (c, m))))) = length (ll c)"
    and "lookup (fst (removeOldest now (c, m))) k =
      (if k = ci_Key (snd (last (ll c))) then None else lookup c k)"
    and "cacheSize (fst (removeOldest now (c, m))) = cacheSize c"
proof -
  obtain e i where l: "last (ll c) = (e, i)" by (cases "last (ll c)")
  then have mem: "(e, i) \<in> set (ll c)" using assms(2) by (metis last_in_set)
  have r: "fst (removeOldest now (c, m)) = removeElement e c"
    using assms(2) by (simp add: removeOldest_def l Let_def)
  note R = removeElement_ll [OF assms(1) mem]
  show "lru_core (fst (removeOldest now (c, m)))"
    using removeElement_core [OF assms(1) mem] by (simp add: r)
  show "Suc (length (ll (fst (removeOldest now (c, m))))) = length (ll c)"
    using length_listRemove [OF lru_coreD(1) [OF assms(1)] mem] by (simp add: r R)
  show "lookup (fst (removeOldest now (c, m))) k =
      (if k = ci_Key (snd (last (ll c))) then None else lookup c k)"
    using removeElement_lookup [OF assms(1) mem] by (simp add: r l)
  show "cacheSize (fst (removeOldest now (c, m))) = cacheSize c" by (simp add: r R)
qed

subsection \<open>The operations on the list of items\<close>

text \<open>
  The specification forgets elements and map: a cache is its list of items, most recently used
  first. Adding puts the item at the front in place of an item with its key and drops the last
  item when the capacity is exceeded; a hit moves the item to the front.
\<close>

definition spec_remove :: "key \<Rightarrow> CacheItem list \<Rightarrow> CacheItem list" where
  "spec_remove k xs = filter (\<lambda>i. ci_Key i \<noteq> k) xs"

definition spec_add :: "int \<Rightarrow> CacheItem \<Rightarrow> CacheItem list \<Rightarrow> CacheItem list" where
  "spec_add n item xs =
     (let ys = item # spec_remove (ci_Key item) xs
      in if n \<noteq> 0 \<and> n < int (length ys) then butlast ys else ys)"

definition spec_get :: "Time \<Rightarrow> key \<Rightarrow> CacheItem list \<Rightarrow> CacheItem option \<times> CacheItem list" where
  "spec_get now k xs =
     (case find (\<lambda>i. ci_Key i = k) xs of
        None \<Rightarrow> (None, xs)
      | Some i \<Rightarrow> if IsExpired now i then (None, spec_remove k xs) else (Some i, i # spec_remove k xs))"

definition spec_set :: "key \<Rightarrow> (CacheItem \<Rightarrow> CacheItem) \<Rightarrow> CacheItem list \<Rightarrow> CacheItem list" where
  "spec_set k f xs = map (\<lambda>i. if ci_Key i = k then f i else i) xs"

lemma snd_listRemove:
  assumes "lru_core c" "(e, kv) \<in> set (ll c)"
  shows "map snd (listRemove e (ll c)) = spec_remove (ci_Key kv) (items c)"
proof -
  have "filter (\<lambda>p. fst p \<noteq> e) (ll c) = filter (\<lambda>p. ci_Key (snd p) \<noteq> ci_Key kv) (ll c)"
    using same_key_same_element [OF assms(1) _ assms(2)] by (intro filter_cong) auto
  then show ?thesis by (simp add: listRemove_def spec_remove_def items_def filter_map o_def)
qed

lemma items_removeElement:
  "lru_core c \<Longrightarrow> (e, kv) \<in> set (ll c) \<Longrightarrow> items (removeElement e c) = spec_remove (ci_Key kv) (items c)"
  using snd_listRemove by (simp add: removeElement_ll items_def)

lemma spec_remove_absent: "lookup c k = None \<Longrightarrow> spec_remove k (items c) = items c"
  by (simp add: lookup_def spec_remove_def find_None_iff_all)

lemma items_Remove:
  assumes "lru_core c"
  shows "items (Remove k c) = spec_remove k (items c)"
proof (cases "cache c k")
  case None
  then have "lookup c k = None" using assms by (simp add: cache_None)
  then show ?thesis using None by (simp add: Remove_def spec_remove_absent)
next
  case (Some e)
  from cache_Some [OF assms Some] obtain i where "(e, i) \<in> set (ll c)" "ci_Key i = k" .
  then show ?thesis using Some items_removeElement [OF assms] by (simp add: Remove_def)
qed

lemma items_removeOldest:
  assumes "lru_core c"
  shows "items (fst (removeOldest now (c, m))) = butlast (items c)"
proof (cases "ll c" rule: rev_cases)
  case Nil
  then show ?thesis by (simp add: removeOldest_def items_def)
next
  case (snoc xs p)
  obtain e i where p: "p = (e, i)" by (cases p)
  then have mem: "(e, i) \<in> set (ll c)" using snoc by simp
  have "e \<notin> fst ` set xs" using lru_coreD(1) [OF assms] by (auto simp: snoc p)
  then have "listRemove e xs = xs" by (auto simp: listRemove_def filter_id_conv image_iff)
  moreover have "listRemove e (xs @ [(e, i)]) = listRemove e xs" by (simp add: listRemove_def)
  ultimately show ?thesis
    using snoc p by (simp add: removeOldest_def removeElement_ll [OF assms mem] items_def Let_def)
qed

lemma moveToFront_Some: "map_of xs e = Some v \<Longrightarrow> moveToFront e xs = (e, v) # listRemove e xs"
  by (simp add: moveToFront_def)

lemma setValue_moveToFront:
  "map_of xs e = Some v \<Longrightarrow> setValue e w (moveToFront e xs) = (e, w) # listRemove e xs"
  by (auto simp: moveToFront_Some setValue_def listRemove_def intro: map_idI)

lemma Add_hit:
  assumes "lru_inv c" "cache c (ci_Key item) = Some e"
  shows "Add now item (c, m) = (True, c\<lparr>ll := (e, item) # listRemove e (ll c)\<rparr>, m)"
proof -
  from cache_Some [OF lru_inv_core [OF assms(1)] assms(2)] obtain i where "map_of (ll c) e = Some i" .
  then show ?thesis by (simp add: Add_def assms(2) setValue_moveToFront)
qed

definition pushed :: "CacheItem \<Rightarrow> LRUCache \<Rightarrow> LRUCache" where
  "pushed item c = c\<lparr>ll := (nextEle c, item) # ll c, cache := (cache c)(ci_Key item \<mapsto> nextEle c),
     nextEle := Suc (nextEle c)\<rparr>"

lemma Add_miss:
  assumes "cache c (ci_Key item) = None"
  shows "Add now item (c, m) =
    (let (c2, m2) = (if cacheSize c \<noteq> 0 \<and> cacheSize c < int (Suc (length (ll c)))
                     then removeOldest now (pushed item c, m) else (pushed item c, m))
     in (False, c2\<lparr>cacheLen := int (length (ll c2))\<rparr>, m2))"
  using assms by (simp add: Add_def pushed_def Let_def)

lemma pushed_core:
  assumes "lru_core c" "cache c (ci_Key item) = None"
  shows "lru_core (pushed item c)"
proof -
  note I = lru_coreD [OF assms(1)]
  have new: "nextEle c \<notin> fst ` set (ll c)" using I(4) by force
  have key: "ci_Key i \<noteq> ci_Key item" if "(e, i) \<in> set (ll c)" for e i
    using I(3) assms(2) that by (metis option.distinct(1))
  show ?thesis
    unfolding lru_core_def
  proof (intro conjI)
    show "\<forall>k e. cache (pushed item c) k = Some e \<longleftrightarrow>
        (\<exists>i. (e, i) \<in> set (ll (pushed item c)) \<and> ci_Key i = k)"
      using I(3) key new by (auto simp: pushed_def)
    show "\<forall>e \<in> fst ` set (ll (pushed item c)). e < nextEle (pushed item c)"
      using I(4) by (force simp: pushed_def less_Suc_eq)
  qed (use I new key in \<open>auto simp: pushed_def dest: key\<close>)
qed

lemma core_moveToFront: "lru_core c \<Longrightarrow> lru_core (c\<lparr>ll := moveToFront e (ll c)\<rparr>)"
  by (simp add: lru_core_def set_moveToFront distinct_moveToFront)

lemma core_setValue:
  assumes "lru_core c" "cache c k = Some e" "ci_Key item = k"
  shows "lru_core (c\<lparr>ll := setValue e item (ll c)\<rparr>)"
proof -
  from cache_Some [OF assms(1,2)] obtain i where i: "(e, i) \<in> set (ll c)" "ci_Key i = k" .
  note I = lru_coreD [OF assms(1)]
  have keys: "map (ci_Key \<circ> snd) (setValue e item (ll c)) = map (ci_Key \<circ> snd) (ll c)"
    using i assms(3) by (intro keys_setValue [OF I(1)]) auto
  have "e \<in> fst ` set (ll c)" using i(1) by force
  then have set: "set (setValue e item (ll c)) = {p \<in> set (ll c). fst p \<noteq> e} \<union> {(e, item)}"
    by (simp add: set_setValue)
  have "cache c k' = Some e' \<longleftrightarrow> (\<exists>j. (e', j) \<in> set (setValue e item (ll c)) \<and> ci_Key j = k')" for k' e'
  proof (cases "e' = e")
    case True
    have "j = i" if "(e, j) \<in> set (ll c)" for j using eq_key_imp_eq_value [OF I(1) that i(1)] .
    then have "cache c k' = Some e \<longleftrightarrow> k' = k" using I(3) [of k' e] i by blast
    with True assms(3) show ?thesis by (auto simp: set)
  qed (use I(3) [of k' e'] in \<open>simp add: set\<close>)
  moreover have "\<forall>x \<in> fst ` set (setValue e item (ll c)). x < nextEle c"
    using I(4) i(1) by (auto simp: set)
  ultimately show ?thesis
    unfolding lru_core_def by (intro conjI) (simp_all add: I(1,2) keys del: map_map)
qed

lemma items_pushed: "items (pushed item c) = item # items c"
  by (simp add: items_def pushed_def)

lemma items_cacheLen [simp]: "items (c\<lparr>cacheLen := n\<rparr>) = items c"
  by (simp add: items_def)

lemma length_items: "length (items c) = length (ll c)"
  by (simp add: items_def)

lemma items_Add:
  assumes "lru_inv c"
  shows "items (fst (snd (Add now item (c, m)))) = spec_add (cacheSize c) item (items c)"
proof (cases "cache c (ci_Key item)")
  case (Some e)
  from cache_Some [OF lru_inv_core [OF assms] Some] obtain i where
    i: "(e, i) \<in> set (ll c)" "ci_Key i = ci_Key item" by metis
  have rem: "map snd (listRemove e (ll c)) = spec_remove (ci_Key item) (items c)"
    using snd_listRemove [OF lru_inv_core [OF assms] i(1)] i(2) by simp
  have "Suc (length (spec_remove (ci_Key item) (items c))) = length (ll c)"
    using length_listRemove [OF lru_coreD(1) [OF lru_inv_core [OF assms]] i(1)]
    by (simp flip: rem)
  moreover have "0 < length (ll c)" using i(1) by auto
  ultimately have "\<not> (cacheSize c \<noteq> 0 \<and> cacheSize c < int (length (item # spec_remove (ci_Key item) (items c))))"
    using assms by (auto simp: lru_inv_def)
  then have "spec_add (cacheSize c) item (items c) = item # spec_remove (ci_Key item) (items c)"
    by (simp only: spec_add_def Let_def if_False)
  then show ?thesis by (simp add: Add_hit [OF assms Some] flip: rem) (simp add: items_def)
next
  case None
  have "spec_remove (ci_Key item) (items c) = items c"
    using None cache_None [OF lru_inv_core [OF assms]] by (simp add: spec_remove_absent)
  then show ?thesis
    using items_removeOldest [OF pushed_core [OF lru_inv_core [OF assms] None], of now m]
    by (auto simp: Add_miss [OF None] spec_add_def Let_def items_pushed length_items split: prod.splits)
qed

lemma Add_inv:
  assumes "lru_inv c"
  shows "lru_inv (fst (snd (Add now item (c, m))))"
    and "cacheSize (fst (snd (Add now item (c, m)))) = cacheSize c"
proof -
  note core = lru_inv_core [OF assms]
  have "lru_inv (fst (snd (Add now item (c, m)))) \<and> cacheSize (fst (snd (Add now item (c, m)))) = cacheSize c"
  proof (cases "cache c (ci_Key item)")
    case (Some e)
    from cache_Some [OF core Some] obtain i where
      i: "(e, i) \<in> set (ll c)" "map_of (ll c) e = Some i" .
    have "lru_core (c\<lparr>ll := (e, item) # listRemove e (ll c)\<rparr>)"
      using core_setValue [OF core_moveToFront [OF core, of e], of "ci_Key item" e item] Some
      by (simp add: setValue_moveToFront [OF i(2)])
    then show ?thesis
      using assms length_listRemove [OF lru_coreD(1) [OF core] i(1)]
      by (simp add: Add_hit [OF assms Some] lru_inv_def)
  next
    case None
    note pc = pushed_core [OF core None] and pl = items_pushed [of item c]
    have ne: "ll (pushed item c) \<noteq> []" by (simp add: pushed_def)
    have len: "length (ll (pushed item c)) = Suc (length (ll c))" by (simp add: pushed_def)
    have cs: "cacheSize (pushed item c) = cacheSize c" by (simp add: pushed_def)
    note R = removeOldest_core (1,2,4) [OF pc ne, of now m]
    have core_len: "lru_core d \<Longrightarrow> lru_core (d\<lparr>cacheLen := n\<rparr>)" for d n by (simp add: lru_core_def)
    show ?thesis
    proof (cases "cacheSize c \<noteq> 0 \<and> cacheSize c < int (Suc (length (ll c)))")
      case True
      obtain c2 m2 where r: "removeOldest now (pushed item c, m) = (c2, m2)" by fastforce
      have "lru_core c2" "length (ll c2) = length (ll c)" "cacheSize c2 = cacheSize c"
        using R len cs by (simp_all add: r)
      then show ?thesis using True assms core_len by (simp add: Add_miss [OF None] r lru_inv_def)
    next
      case False
      then show ?thesis
        using pc core_len len cs by (auto simp: Add_miss [OF None] lru_inv_def)
    qed
  qed
  then show "lru_inv (fst (snd (Add now item (c, m))))"
    and "cacheSize (fst (snd (Add now item (c, m)))) = cacheSize c" by auto
qed

lemma GetItem_eq:
  assumes "lru_inv c"
  shows "fst (GetItem now k (c, m)) = fst (spec_get now k (items c))"
    and "items (fst (snd (GetItem now k (c, m)))) = snd (spec_get now k (items c))"
    and "lru_inv (fst (snd (GetItem now k (c, m))))"
    and "cacheSize (fst (snd (GetItem now k (c, m)))) = cacheSize c"
proof -
  note core = lru_inv_core [OF assms]
  have "fst (GetItem now k (c, m)) = fst (spec_get now k (items c)) \<and>
    items (fst (snd (GetItem now k (c, m)))) = snd (spec_get now k (items c)) \<and>
    lru_inv (fst (snd (GetItem now k (c, m)))) \<and>
    cacheSize (fst (snd (GetItem now k (c, m)))) = cacheSize c"
  proof (cases "cache c k")
    case None
    then have "lookup c k = None" using core by (simp add: cache_None)
    then show ?thesis using None assms by (simp add: GetItem_def spec_get_def lookup_def)
  next
    case (Some e)
    from cache_Some [OF core Some] obtain i where
      i: "(e, i) \<in> set (ll c)" "map_of (ll c) e = Some i" "ci_Key i = k" "lookup c k = Some i" .
    have rem: "map snd (listRemove e (ll c)) = spec_remove k (items c)"
      using snd_listRemove [OF core i(1)] i(3) by simp
    have mf: "lru_inv (c\<lparr>ll := (e, i) # listRemove e (ll c)\<rparr>)"
      using assms core_moveToFront [OF core, of e] length_listRemove [OF lru_coreD(1) [OF core] i(1)]
      by (simp add: lru_inv_def moveToFront_Some [OF i(2)])
    have f: "find (\<lambda>i. ci_Key i = k) (items c) = Some i" using i(4) by (simp add: lookup_def)
    show ?thesis
    proof (cases "IsExpired now i")
      case True
      have "cacheSize (removeElement e c) = cacheSize c" by (simp add: removeElement_ll [OF core i(1)])
      with True show ?thesis
        using Some i f removeElement_inv [OF assms i(1)] items_removeElement [OF core i(1)]
        by (simp add: GetItem_def spec_get_def)
    next
      case False
      have "items (c\<lparr>ll := (e, i) # listRemove e (ll c)\<rparr>) = i # spec_remove k (items c)"
        by (simp add: items_def rem)
      with False show ?thesis using Some i f mf by (simp add: GetItem_def spec_get_def moveToFront_Some)
    qed
  qed
  then show "fst (GetItem now k (c, m)) = fst (spec_get now k (items c))"
    and "items (fst (snd (GetItem now k (c, m)))) = snd (spec_get now k (items c))"
    and "lru_inv (fst (snd (GetItem now k (c, m))))"
    and "cacheSize (fst (snd (GetItem now k (c, m)))) = cacheSize c" by auto
qed

lemma setItem_hit:
  assumes "lru_core c" "cache c k = Some e" "ci_Key item = k"
  shows "lru_core (setItem k item c)"
    and "items (setItem k item c) = spec_set k (\<lambda>_. item) (items c)"
proof -
  from cache_Some [OF assms(1,2)] obtain i where i: "(e, i) \<in> set (ll c)" "ci_Key i = k" .
  have "(fst p = e) = (ci_Key (snd p) = k)" if "p \<in> set (ll c)" for p
    using same_key_same_element [OF assms(1) _ i(1), of "fst p" "snd p"] that i(2) by auto
  then show "items (setItem k item c) = spec_set k (\<lambda>_. item) (items c)"
    by (auto simp: setItem_def assms(2) items_def setValue_def spec_set_def)
  show "lru_core (setItem k item c)"
    using core_setValue [OF assms] by (simp add: setItem_def assms(2))
qed

lemma spec_set_absent: "lookup c k = None \<Longrightarrow> spec_set k f (items c) = items c"
  by (auto simp: lookup_def spec_set_def find_None_iff_all intro!: map_idI)

lemma setItem_inv:
  assumes "lru_inv c" "ci_Key item = k"
  shows "lru_inv (setItem k item c)"
  using assms setItem_hit(1) [OF lru_inv_core [OF assms(1)] _ assms(2)]
  by (auto simp: setItem_def lru_inv_def split: option.splits)

lemma items_setItem:
  assumes "lru_core c" "ci_Key item = k"
  shows "items (setItem k item c) = spec_set k (\<lambda>_. item) (items c)"
proof (cases "cache c k")
  case None
  then have "lookup c k = None" using cache_None [OF assms(1)] by simp
  then show ?thesis using None by (simp add: setItem_def spec_set_absent)
qed (use setItem_hit(2) [OF assms(1) _ assms(2)] in simp)

lemma UpdateExpiration_eq:
  assumes "lru_core c"
  shows "UpdateExpiration k t c =
    (case lookup c k of None \<Rightarrow> (False, c) | Some i \<Rightarrow> (True, setItem k (i\<lparr>ci_ExpireAt := t\<rparr>) c))"
proof (cases "cache c k")
  case None
  then have "lookup c k = None" using cache_None [OF assms(1)] by simp
  then show ?thesis using None by (simp add: UpdateExpiration_def)
next
  case (Some e)
  from cache_Some [OF assms Some] obtain i where "map_of (ll c) e = Some i" "lookup c k = Some i" .
  then show ?thesis using Some by (simp add: UpdateExpiration_def setItem_def)
qed

lemma Remove_inv: "lru_inv c \<Longrightarrow> lru_inv (Remove k c)"
proof -
  assume a: "lru_inv c"
  show ?thesis
  proof (cases "cache c k")
    case (Some e)
    from cache_Some [OF lru_inv_core [OF a] Some] obtain i where "(e, i) \<in> set (ll c)" .
    then show ?thesis using removeElement_inv [OF a] Some by (simp add: Remove_def)
  qed (use a in \<open>simp add: Remove_def\<close>)
qed

lemma UpdateExpiration_inv: "lru_inv c \<Longrightarrow> lru_inv (snd (UpdateExpiration k t c))"
  by (auto simp: UpdateExpiration_eq lru_inv_core setItem_inv lookup_Key split: option.splits)

lemma CloseCache_inv: "lru_inv (CloseCache c)"
  by (simp add: lru_inv_def lru_core_def CloseCache_def)

lemma cacheSize_ops [simp]:
  "cacheSize (Remove k c) = cacheSize c"
  "cacheSize (setItem k item c) = cacheSize c"
  "cacheSize (snd (UpdateExpiration k t c)) = cacheSize c"
  by (simp_all add: Remove_def removeElement_def setItem_def UpdateExpiration_def Let_def
      split: option.splits)

subsection \<open>What a lookup returns after each operation\<close>

lemma find_spec_remove:
  "find (\<lambda>i. ci_Key i = k') (spec_remove k xs) =
     (if k' = k then None else find (\<lambda>i. ci_Key i = k') xs)"
  by (induction xs) (auto simp: spec_remove_def)

lemma find_butlast:
  "find P (butlast xs) = None \<or> find P (butlast xs) = find P xs"
  by (cases xs rule: rev_cases) (auto simp: find_append split: option.splits)

lemma find_spec_set:
  "(\<And>i. ci_Key i = k \<Longrightarrow> ci_Key (f i) = k) \<Longrightarrow>
   find (\<lambda>i. ci_Key i = k') (spec_set k f xs) =
     (if k' = k then map_option f else id) (find (\<lambda>i. ci_Key i = k') xs)"
  by (induction xs) (auto simp: spec_set_def)

lemma Add_lookup_self:
  assumes "lru_inv c" "0 < cacheSize c"
  shows "lookup (fst (snd (Add now item (c, m)))) (ci_Key item) = Some item"
  using assms by (simp add: lookup_def items_Add spec_add_def Let_def)

lemma Add_lookup_other:
  assumes "lru_inv c" "k \<noteq> ci_Key item"
  shows "lookup (fst (snd (Add now item (c, m)))) k \<in> {None, lookup c k}"
proof -
  let ?ys = "item # spec_remove (ci_Key item) (items c)"
  have "find (\<lambda>i. ci_Key i = k) ?ys = lookup c k"
    using assms(2) by (simp add: find_spec_remove lookup_def)
  then show ?thesis
    using find_butlast [of "\<lambda>i. ci_Key i = k" ?ys]
    by (auto simp: lookup_def items_Add [OF assms(1)] spec_add_def Let_def simp del: find.simps)
qed

lemma Add_existed:
  "lru_inv c \<Longrightarrow> fst (Add now item (c, m)) = (lookup c (ci_Key item) \<noteq> None)"
  using cache_None [OF lru_inv_core, of c "ci_Key item"]
  by (auto simp: Add_hit Add_miss Let_def split: prod.splits option.splits
      intro: option.exhaust [of "cache c (ci_Key item)"])

lemma GetItem_result:
  assumes "lru_inv c"
  shows "fst (GetItem now k (c, m)) =
    (case lookup c k of None \<Rightarrow> None | Some i \<Rightarrow> if IsExpired now i then None else Some i)"
  by (auto simp: GetItem_eq(1) [OF assms] spec_get_def lookup_def split: option.splits)

lemma GetItem_lookup:
  assumes "lru_inv c"
  shows "lookup (fst (snd (GetItem now k (c, m)))) k' =
    (if k' = k then fst (GetItem now k (c, m)) else lookup c k')"
proof -
  have "i # spec_remove k (items c) = items c \<or> ci_Key i = k" if "lookup c k = Some i" for i
    using lookup_Key [OF that] by simp
  then show ?thesis
    unfolding lookup_def GetItem_eq(2) [OF assms] GetItem_eq(1) [OF assms] spec_get_def
    by (auto simp: find_spec_remove split: option.splits dest: find_Some_mem)
qed

lemma Remove_lookup:
  "lru_inv c \<Longrightarrow> lookup (Remove k c) k' = (if k' = k then None else lookup c k')"
  by (simp add: lookup_def items_Remove lru_inv_core find_spec_remove)

lemma setItem_lookup:
  "lru_inv c \<Longrightarrow> ci_Key item = k \<Longrightarrow>
   lookup (setItem k item c) k' = (if k' = k then map_option (\<lambda>_. item) else id) (lookup c k')"
  by (simp add: lookup_def items_setItem lru_inv_core find_spec_set)

subsection \<open>The Cache interface\<close>

text \<open>
  The contract of the interface \<^verbatim>\<open>Cache\<close> that the bucket algorithms rely on, over an abstract
  state (the cache and the counters it updates) seen through \<open>look\<close>. \<open>put\<close> is a mutation of the
  cached object through the pointer a lookup returned.
\<close>

locale cache_ops =
  fixes add :: "Time \<Rightarrow> CacheItem \<Rightarrow> 's \<Rightarrow> bool \<times> 's"
    and get :: "Time \<Rightarrow> key \<Rightarrow> 's \<Rightarrow> CacheItem option \<times> 's"
    and rem :: "key \<Rightarrow> 's \<Rightarrow> 's"
    and put :: "key \<Rightarrow> CacheItem \<Rightarrow> 's \<Rightarrow> 's"
    and look :: "'s \<Rightarrow> key \<Rightarrow> CacheItem option"
    and invar :: "'s \<Rightarrow> bool"
  assumes add_self: "invar s \<Longrightarrow> look (snd (add now item s)) (ci_Key item) = Some item"
    and add_other: "invar s \<Longrightarrow> k \<noteq> ci_Key item \<Longrightarrow> look (snd (add now item s)) k \<in> {None, look s k}"
    and add_existed: "invar s \<Longrightarrow> fst (add now item s) = (look s (ci_Key item) \<noteq> None)"
    and get_result: "invar s \<Longrightarrow> fst (get now k s) =
      (case look s k of None \<Rightarrow> None | Some i \<Rightarrow> if IsExpired now i then None else Some i)"
    and get_look: "invar s \<Longrightarrow> look (snd (get now k s)) k' =
      (if k' = k then fst (get now k s) else look s k')"
    and rem_look: "invar s \<Longrightarrow> look (rem k s) k' = (if k' = k then None else look s k')"
    and put_look: "invar s \<Longrightarrow> ci_Key item = k \<Longrightarrow>
      look (put k item s) k' = (if k' = k then map_option (\<lambda>_. item) else id) (look s k')"
    and look_Key: "invar s \<Longrightarrow> look s k = Some i \<Longrightarrow> ci_Key i = k"
    and invar_add: "invar s \<Longrightarrow> invar (snd (add now item s))"
    and invar_get: "invar s \<Longrightarrow> invar (snd (get now k s))"
    and invar_rem: "invar s \<Longrightarrow> invar (rem k s)"
    and invar_put: "invar s \<Longrightarrow> ci_Key item = k \<Longrightarrow> invar (put k item s)"
begin

lemma get_Some:
  "invar s \<Longrightarrow> fst (get now k s) = Some i \<Longrightarrow> look s k = Some i \<and> \<not> IsExpired now i \<and> ci_Key i = k"
  using look_Key by (auto simp: get_result split: option.splits if_splits)

lemma get_after_add:
  "invar s \<Longrightarrow> \<not> IsExpired now item \<Longrightarrow>
   fst (get now (ci_Key item) (snd (add t item s))) = Some item"
  by (simp add: get_result invar_add add_self)

lemma get_idem:
  "invar s \<Longrightarrow> fst (get now k (snd (get now k s))) = fst (get now k s)"
  by (auto simp: get_result invar_get get_look split: option.splits)

lemma get_after_rem: "invar s \<Longrightarrow> fst (get now k (rem k s)) = None"
  by (simp add: get_result invar_rem rem_look)

lemma put_after_get:
  "invar s \<Longrightarrow> fst (get now k s) = Some i \<Longrightarrow> ci_Key j = k \<Longrightarrow>
   look (put k j (snd (get now k s))) k' = (if k' = k then Some j else look s k')"
  using get_Some [of s now k i] by (auto simp: put_look invar_get get_look)

lemma replace_after_get:
  "invar s \<Longrightarrow> ci_Key j = k \<Longrightarrow>
   look (snd (add now j (rem k (snd (get t k s))))) k = Some j"
  using add_self [OF invar_rem [OF invar_get]] by blast

end

definition lru_ok :: "LRUCache \<times> metrics \<Rightarrow> bool" where
  "lru_ok = (\<lambda>(c, m). lru_inv c \<and> 0 < cacheSize c)"

lemma lru_ok_iff: "lru_ok s \<longleftrightarrow> lru_inv (fst s) \<and> 0 < cacheSize (fst s)"
  by (cases s) (simp add: lru_ok_def)

interpretation lru: cache_ops Add GetItem "\<lambda>k. apfst (Remove k)" "\<lambda>k i. apfst (setItem k i)"
  "\<lambda>s. lookup (fst s)" lru_ok
proof
  fix s :: "LRUCache \<times> metrics" and now item k k' i
  obtain c m where [simp]: "s = (c, m)" by (cases s)
  assume "lru_ok s"
  then have I: "lru_inv c" and S: "0 < cacheSize c" by (simp_all add: lru_ok_iff)
  show "lookup (fst (snd (Add now item s))) (ci_Key item) = Some item"
    using Add_lookup_self [OF I S] by simp
  show "fst (Add now item s) = (lookup (fst s) (ci_Key item) \<noteq> None)"
    using Add_existed [OF I] by simp
  show "fst (GetItem now k s) =
      (case lookup (fst s) k of None \<Rightarrow> None | Some i \<Rightarrow> if IsExpired now i then None else Some i)"
    using GetItem_result [OF I] by simp
  show "lookup (fst (snd (GetItem now k s))) k' =
      (if k' = k then fst (GetItem now k s) else lookup (fst s) k')"
    using GetItem_lookup [OF I] by simp
  show "lookup (fst (apfst (Remove k) s)) k' = (if k' = k then None else lookup (fst s) k')"
    using Remove_lookup [OF I] by simp
  show "lru_ok (snd (Add now item s))" using Add_inv [OF I] S by (simp add: lru_ok_iff)
  show "lru_ok (snd (GetItem now k s))" using GetItem_eq(3,4) [OF I] S by (simp add: lru_ok_iff)
  show "lru_ok (apfst (Remove k) s)" using Remove_inv [OF I] S by (simp add: lru_ok_iff)
  show "ci_Key i = k" if "lookup (fst s) k = Some i" using that lookup_Key by blast
  show "k \<noteq> ci_Key item \<Longrightarrow> lookup (fst (snd (Add now item s))) k \<in> {None, lookup (fst s) k}"
    using Add_lookup_other [OF I] by simp
  assume key: "ci_Key item = k"
  show "lookup (fst (apfst (setItem k item) s)) k' =
      (if k' = k then map_option (\<lambda>_. item) else id) (lookup (fst s) k')"
    using setItem_lookup [OF I key] by simp
  show "lru_ok (apfst (setItem k item) s)" using setItem_inv [OF I key] S by (simp add: lru_ok_iff)
qed

subsection \<open>Runs of operations\<close>

text \<open>A caller's sequence of operations, on the cache and on the specification.\<close>

datatype cache_op = OpAdd Time CacheItem | OpGet Time key | OpRemove key | OpExpire key i64

fun op_key :: "cache_op \<Rightarrow> key" where
  "op_key (OpAdd _ item) = ci_Key item"
| "op_key (OpGet _ k) = k"
| "op_key (OpRemove k) = k"
| "op_key (OpExpire k _) = k"

fun cache_step :: "cache_op \<Rightarrow> LRUCache \<times> metrics \<Rightarrow> CacheItem option \<times> LRUCache \<times> metrics" where
  "cache_step (OpAdd now item) s = (None, snd (Add now item s))"
| "cache_step (OpGet now k) s = GetItem now k s"
| "cache_step (OpRemove k) s = (None, apfst (Remove k) s)"
| "cache_step (OpExpire k t) s = (None, apfst (\<lambda>c. snd (UpdateExpiration k t c)) s)"

fun spec_step :: "int \<Rightarrow> cache_op \<Rightarrow> CacheItem list \<Rightarrow> CacheItem option \<times> CacheItem list" where
  "spec_step n (OpAdd now item) xs = (None, spec_add n item xs)"
| "spec_step n (OpGet now k) xs = spec_get now k xs"
| "spec_step n (OpRemove k) xs = (None, spec_remove k xs)"
| "spec_step n (OpExpire k t) xs = (None, spec_set k (\<lambda>i. i\<lparr>ci_ExpireAt := t\<rparr>) xs)"

fun cache_run :: "cache_op list \<Rightarrow> LRUCache \<times> metrics \<Rightarrow> CacheItem option list \<times> LRUCache \<times> metrics" where
  "cache_run [] s = ([], s)"
| "cache_run (p # ps) s = (let (r, s1) = cache_step p s; (rs, s2) = cache_run ps s1 in (r # rs, s2))"

fun spec_run :: "int \<Rightarrow> cache_op list \<Rightarrow> CacheItem list \<Rightarrow> CacheItem option list \<times> CacheItem list" where
  "spec_run n [] xs = ([], xs)"
| "spec_run n (p # ps) xs = (let (r, ys) = spec_step n p xs; (rs, zs) = spec_run n ps ys in (r # rs, zs))"

lemma items_UpdateExpiration:
  assumes "lru_core c"
  shows "items (snd (UpdateExpiration k t c)) = spec_set k (\<lambda>i. i\<lparr>ci_ExpireAt := t\<rparr>) (items c)"
proof (cases "lookup c k")
  case None
  then show ?thesis by (simp add: UpdateExpiration_eq [OF assms] spec_set_absent)
next
  case (Some i)
  then have "ci_Key i = k" by (rule lookup_Key)
  moreover have "j = i" if "j \<in> set (items c)" "ci_Key j = k" for j
    using that Some lookup_iff [OF assms, of k j] by (auto simp: items_def)
  ultimately show ?thesis
    using Some by (auto simp: UpdateExpiration_eq [OF assms] items_setItem [OF assms] spec_set_def)
qed

lemma cache_step_refines:
  assumes "lru_inv c"
  shows "fst (cache_step p (c, m)) = fst (spec_step (cacheSize c) p (items c))"
    and "items (fst (snd (cache_step p (c, m)))) = snd (spec_step (cacheSize c) p (items c))"
    and "lru_inv (fst (snd (cache_step p (c, m))))"
    and "cacheSize (fst (snd (cache_step p (c, m)))) = cacheSize c"
  using assms lru_inv_core [OF assms]
  by (cases p; simp add: items_Add Add_inv GetItem_eq items_Remove Remove_inv items_UpdateExpiration
      UpdateExpiration_inv)+

lemma cache_run_refines:
  assumes "lru_inv c"
  shows "fst (cache_run ps (c, m)) = fst (spec_run (cacheSize c) ps (items c)) \<and>
    items (fst (snd (cache_run ps (c, m)))) = snd (spec_run (cacheSize c) ps (items c)) \<and>
    lru_inv (fst (snd (cache_run ps (c, m)))) \<and>
    cacheSize (fst (snd (cache_run ps (c, m)))) = cacheSize c"
  using assms
proof (induction ps arbitrary: c m)
  case (Cons p ps)
  obtain r c1 m1 where s: "cache_step p (c, m) = (r, c1, m1)" by (metis prod_cases3)
  note R = cache_step_refines [OF Cons.prems, of p m, unfolded s, simplified]
  show ?case using Cons.IH [OF R(3), of m1] R
    by (auto simp: s Let_def split: prod.splits)
qed simp

lemma snd_spec_run:
  "snd (spec_run n (p # ps) xs) = snd (spec_run n ps (snd (spec_step n p xs)))"
  by (simp add: Let_def split: prod.splits)

lemma spec_remove_append: "spec_remove k (xs @ ys) = spec_remove k xs @ spec_remove k ys"
  by (simp add: spec_remove_def)

lemma spec_step_retains:
  assumes "distinct (map ci_Key xs)" and "xs = pre @ item # post" and "ci_Key ` set pre \<subseteq> K"
    and "finite K" "int (card K) < n" "op_key p \<in> K" "ci_Key item \<notin> K"
  shows "\<exists>pre' post'. snd (spec_step n p xs) = pre' @ item # post' \<and> ci_Key ` set pre' \<subseteq> K \<and>
    distinct (map ci_Key (pre' @ item # post'))"
proof -
  have rem: "spec_remove (op_key p) xs = spec_remove (op_key p) pre @ item # spec_remove (op_key p) post"
    using assms(2,6,7) by (auto simp: spec_remove_append) (auto simp: spec_remove_def)
  have drem: "distinct (map ci_Key (spec_remove (op_key p) xs))"
    using assms(1) by (simp add: spec_remove_def distinct_map_filter_key)
  have notin: "op_key p \<notin> ci_Key ` set (spec_remove (op_key p) xs)" by (auto simp: spec_remove_def)
  have sub: "ci_Key ` set (spec_remove (op_key p) pre) \<subseteq> K" using assms(3) by (auto simp: spec_remove_def)
  have front: "\<exists>pre' post'. ys = pre' @ item # post' \<and> ci_Key ` set pre' \<subseteq> K \<and>
      distinct (map ci_Key (pre' @ item # post'))"
    if k: "ci_Key i = op_key p"
      and ys: "ys = i # spec_remove (op_key p) xs \<or>
        (n < int (length (i # spec_remove (op_key p) xs)) \<and> ys = butlast (i # spec_remove (op_key p) xs))" for i ys
  proof -
    let ?pre = "i # spec_remove (op_key p) pre" and ?post = "spec_remove (op_key p) post"
    have zs: "i # spec_remove (op_key p) xs = ?pre @ item # ?post" by (simp add: rem)
    have "distinct (map ci_Key (i # spec_remove (op_key p) xs))" using drem notin k by simp
    then have d: "distinct (map ci_Key (?pre @ item # ?post))" unfolding zs .
    have K: "ci_Key ` set ?pre \<subseteq> K" using sub k assms(6) by simp
    show ?thesis
      using ys
    proof (elim disjE conjE)
      assume "ys = i # spec_remove (op_key p) xs"
      then show ?thesis using zs d K by blast
    next
      assume long: "n < int (length (i # spec_remove (op_key p) xs))"
        and b: "ys = butlast (i # spec_remove (op_key p) xs)"
      have "card (ci_Key ` set ?pre) = length ?pre"
        using d distinct_card [of "map ci_Key ?pre"] by simp
      then have "int (length ?pre) < n" using card_mono [OF assms(4) K] assms(5) by linarith
      then have ne: "?post \<noteq> []" using long by (auto simp: zs)
      then have "ys = ?pre @ item # butlast ?post" by (simp add: b zs butlast_append)
      moreover have "distinct (map ci_Key (?pre @ item # butlast ?post))"
        using d ne distinct_butlast [of "map ci_Key (?pre @ item # ?post)"]
        by (simp add: map_butlast butlast_append)
      ultimately show ?thesis using K by blast
    qed
  qed
  show ?thesis
  proof (cases p)
    case (OpAdd now i)
    then show ?thesis using front [of i "spec_add n i xs"] by (auto simp: spec_add_def Let_def)
  next
    case (OpGet now k)
    show ?thesis
    proof (cases "find (\<lambda>i. ci_Key i = k) xs")
      case None
      then have "snd (spec_step n p xs) = xs" using OpGet by (simp add: spec_get_def)
      then show ?thesis using assms(1-3) by metis
    next
      case (Some i)
      then have "ci_Key i = k" by (auto dest: find_Some_mem)
      then show ?thesis
        using front [of i "i # spec_remove k xs"] Some OpGet rem drem sub
        by (auto simp: spec_get_def)
    qed
  next
    case (OpRemove k)
    then show ?thesis using rem drem sub by auto
  next
    case (OpExpire k t)
    let ?f = "\<lambda>i. if ci_Key i = k then i\<lparr>ci_ExpireAt := t\<rparr> else i"
    have kk: "ci_Key (?f i) = ci_Key i" for i by simp
    have m: "map ci_Key (map ?f zs) = map ci_Key zs" for zs by (induction zs) auto
    have "?f item = item" using OpExpire assms(6,7) by auto
    then have "snd (spec_step n p xs) = map ?f pre @ item # map ?f post"
      using OpExpire by (simp add: spec_set_def assms(2))
    moreover have "ci_Key ` set (map ?f pre) \<subseteq> K" using assms(3) kk by auto
    moreover have "distinct (map ci_Key (map ?f pre @ item # map ?f post))"
      using assms(1) m [of pre] m [of post] by (simp only: assms(2) map_append list.map(2))
    ultimately show ?thesis by blast
  qed
qed

lemma spec_run_retains:
  assumes "distinct (map ci_Key (pre @ item # post))" and "ci_Key ` set pre \<subseteq> K"
    and "finite K" "int (card K) < n" "op_key ` set ps \<subseteq> K" "ci_Key item \<notin> K"
  shows "find (\<lambda>i. ci_Key i = ci_Key item) (snd (spec_run n ps (pre @ item # post))) = Some item"
  using assms
proof (induction ps arbitrary: pre post)
  case Nil
  then have "find (\<lambda>i. ci_Key i = ci_Key item) pre = None" by (auto simp: find_None_iff)
  then show ?case by (simp add: find_append)
next
  case (Cons p ps)
  have "op_key p \<in> K" using Cons.prems(5) by simp
  from spec_step_retains [OF Cons.prems(1) refl Cons.prems(2-4) this Cons.prems(6)]
  obtain pre' post' where s: "snd (spec_step n p (pre @ item # post)) = pre' @ item # post'"
    "ci_Key ` set pre' \<subseteq> K" "distinct (map ci_Key (pre' @ item # post'))" by blast
  have "op_key ` set ps \<subseteq> K" using Cons.prems(5) by simp
  then show ?case
    using Cons.IH [OF s(3,2) Cons.prems(3,4) _ Cons.prems(6)] by (simp only: snd_spec_run s(1))
qed

lemma cacheSize_New: "cacheSize (NewLRUCache n) = (if n = 0 then 50000 else n)"
  by (simp add: NewLRUCache_def)

lemma items_distinct: "lru_core c \<Longrightarrow> distinct (map ci_Key (items c))"
  using lru_coreD(2) by (simp add: items_def)

text \<open>
  C7. The LRU cache refines the list specification: after any sequence of operations on a new
  cache, every lookup has returned what the specification returns and the items are those of the
  specification in the same order, the map and the list agree, the counter equals the number of
  items, and no more than \<open>maxSize\<close> items (50,000 when that is 0) are held.
\<close>

theorem lru_refines_spec:
  "let n = (if maxSize = 0 then 50000 else maxSize);
       (rs, c, m) = cache_run ps (NewLRUCache maxSize, zero_metrics)
   in (rs, items c) = spec_run n ps [] \<and> lru_inv c \<and>
      Size c = int (length (items c)) \<and> Size c \<le> max 0 n"
proof -
  obtain rs c m where r: "cache_run ps (NewLRUCache maxSize, zero_metrics) = (rs, c, m)"
    by (metis prod_cases3)
  have "items (NewLRUCache maxSize) = []" by (simp add: items_def NewLRUCache_def)
  with cache_run_refines [OF NewLRUCache_inv, of ps maxSize zero_metrics] show ?thesis
    by (auto simp: r Let_def Size_def lru_inv_def length_items NewLRUCache_def prod_eq_iff split: if_splits)
qed

definition sampleItem :: "key \<Rightarrow> i64 \<Rightarrow> CacheItem" where
  "sampleItem k t = \<lparr>ci_Algorithm = TOKEN_BUCKET, ci_Key = k, ci_Value = NilValue, ci_ExpireAt = t,
     ci_InvalidAt = 0\<rparr>"

lemma ci_Key_sampleItem [simp]: "ci_Key (sampleItem k t) = k"
  by (simp add: sampleItem_def)

text \<open>
  C11. Eviction is least recently used: an item that has just been added survives any sequence of
  operations that touches fewer other keys than the capacity of the cache, unchanged.
\<close>

theorem recently_added_survives:
  assumes "lru_inv c" and "op_key ` set ps \<subseteq> K" "finite K" "int (card K) < cacheSize c"
    and "ci_Key item \<notin> K"
  shows "lookup (fst (snd (cache_run (OpAdd now item # ps) (c, m)))) (ci_Key item) = Some item"
proof -
  let ?n = "cacheSize c"
  have pos: "0 < ?n" using assms(4) by linarith
  obtain c1 m1 where a: "snd (Add now item (c, m)) = (c1, m1)" by fastforce
  have I: "lru_inv c1" "cacheSize c1 = ?n" "items c1 = spec_add ?n item (items c)"
    using Add_inv [OF assms(1), of now item m] items_Add [OF assms(1), of now item m] by (simp_all add: a)
  have "\<exists>post. items c1 = item # post"
    using pos by (cases "spec_remove (ci_Key item) (items c)") (auto simp: I(3) spec_add_def Let_def)
  then obtain post where p: "items c1 = item # post" by blast
  have "distinct (map ci_Key ([] @ item # post))"
    using items_distinct [OF lru_inv_core [OF I(1)]] by (simp add: p)
  from spec_run_retains [OF this _ assms(3,4,2,5)]
  have "find (\<lambda>i. ci_Key i = ci_Key item) (snd (spec_run ?n ps (items c1))) = Some item" by (simp add: p)
  then show ?thesis
    using cache_run_refines [OF I(1), of ps m1] I(2) by (auto simp: a lookup_def Let_def split: prod.splits)
qed

theorem recently_added_survives_witness:
  "lookup (fst (snd (cache_run [OpAdd \<lparr>t_ns = 0, t_loc = UTC\<rparr> (sampleItem ''a'' 9), OpAdd \<lparr>t_ns = 0, t_loc = UTC\<rparr> (sampleItem ''b'' 9),
      OpAdd \<lparr>t_ns = 0, t_loc = UTC\<rparr> (sampleItem ''b'' 7)] (NewLRUCache 2, zero_metrics)))) ''a'' = Some (sampleItem ''a'' 9)"
  using recently_added_survives [of "NewLRUCache 2" "[OpAdd \<lparr>t_ns = 0, t_loc = UTC\<rparr> (sampleItem ''b'' 9),
      OpAdd \<lparr>t_ns = 0, t_loc = UTC\<rparr> (sampleItem ''b'' 7)]" "{''b''}" "sampleItem ''a'' 9" "\<lparr>t_ns = 0, t_loc = UTC\<rparr>" zero_metrics]
    NewLRUCache_inv [of 2]
  by (simp add: cacheSize_New del: cache_run.simps)

end
