(* ===== verification/Config.thy ===== *)
theory Config
  imports HashRing LRUCache
begin

text \<open>
  The configuration of an instance: \<^verbatim>\<open>BehaviorConfig\<close>, \<^verbatim>\<open>Config\<close> and \<^verbatim>\<open>SetDefaults\<close> of
  \<^verbatim>\<open>config.go\<close>. Durations are \<^verbatim>\<open>time.Duration\<close> values, nanoseconds as 64-bit integers.
  The \<^verbatim>\<open>setter\<close> package that fills in defaults is not part of the repository; it is a parameter,
  one function per type it is used at, with its documented behaviour as a hypothesis.
\<close>

subsection \<open>Defaults\<close>

record Setter =
  sd_int :: "int \<Rightarrow> int list \<Rightarrow> int"
  sd_str :: "string \<Rightarrow> string list \<Rightarrow> string"
  sd_bool :: "bool \<Rightarrow> bool list \<Rightarrow> bool"
  sd_strs :: "string list \<Rightarrow> string list list \<Rightarrow> string list"
  sd_ring :: "ReplicatedConsistentHash option \<Rightarrow> ReplicatedConsistentHash option list \<Rightarrow> ReplicatedConsistentHash option"
  sd_region :: "RegionPicker option \<Rightarrow> RegionPicker option list \<Rightarrow> RegionPicker option"

text \<open>\<^verbatim>\<open>SetDefault\<close> keeps a value that is not zero and otherwise takes the first default that is not.\<close>

fun firstNonZero :: "'a \<Rightarrow> 'a list \<Rightarrow> 'a" where
  "firstNonZero z [] = z"
| "firstNonZero z (x # xs) = (if x = z then firstNonZero z xs else x)"

definition good_setter :: "Setter \<Rightarrow> bool" where
  "good_setter s \<longleftrightarrow>
     (\<forall>x ds. sd_int s x ds = firstNonZero 0 (x # ds)) \<and>
     (\<forall>x ds. sd_str s x ds = firstNonZero [] (x # ds)) \<and>
     (\<forall>x ds. sd_bool s x ds = firstNonZero False (x # ds)) \<and>
     (\<forall>x ds. sd_strs s x ds = firstNonZero [] (x # ds)) \<and>
     (\<forall>x ds. (x \<noteq> None \<longrightarrow> sd_ring s x ds = x) \<and> (x = None \<longrightarrow> ds \<noteq> [] \<longrightarrow> hd ds \<noteq> None \<longrightarrow> sd_ring s x ds = hd ds)) \<and>
     (\<forall>x ds. (x \<noteq> None \<longrightarrow> sd_region s x ds = x) \<and> (x = None \<longrightarrow> ds \<noteq> [] \<longrightarrow> hd ds \<noteq> None \<longrightarrow> sd_region s x ds = hd ds))"

lemma good_setterD:
  assumes "good_setter s"
  shows "sd_int s x xs = firstNonZero 0 (x # xs)" "sd_str s y ys = firstNonZero [] (y # ys)"
    "sd_bool s b bs = firstNonZero False (b # bs)" "sd_strs s ss sss = firstNonZero [] (ss # sss)"
    "sd_ring s (Some r) rs = Some r" "sd_ring s None (Some r # rs) = Some r"
    "sd_region s (Some g) gs = Some g" "sd_region s None (Some g # gs) = Some g"
  using assms unfolding good_setter_def by simp_all

definition stdSetter :: Setter where
  "stdSetter = \<lparr>sd_int = (\<lambda>x ds. firstNonZero 0 (x # ds)), sd_str = (\<lambda>x ds. firstNonZero [] (x # ds)),
     sd_bool = (\<lambda>x ds. firstNonZero False (x # ds)), sd_strs = (\<lambda>x ds. firstNonZero [] (x # ds)),
     sd_ring = (\<lambda>x ds. if x \<noteq> None then x else if ds = [] then None else hd ds),
     sd_region = (\<lambda>x ds. if x \<noteq> None then x else if ds = [] then None else hd ds)\<rparr>"

lemma good_stdSetter: "good_setter stdSetter"
  by (simp add: good_setter_def stdSetter_def)

subsection \<open>Records\<close>

definition maxBatchSize :: int where
  "maxBatchSize = 1000"

definition defaultScheduleMaxWait :: i64 where
  "defaultScheduleMaxWait = 5 * ns_per_min"

definition Healthy :: string where
  "Healthy = ''healthy''"

definition UnHealthy :: string where
  "UnHealthy = ''unhealthy''"

record BehaviorConfig =
  bc_BatchTimeout :: i64
  bc_BatchWait :: i64
  bc_BatchLimit :: int
  bc_DisableBatching :: bool
  bc_GlobalSyncWait :: i64
  bc_GlobalTimeout :: i64
  bc_GlobalBatchLimit :: int
  bc_ForceGlobal :: bool
  bc_GlobalPeerRequestsConcurrency :: int
  bc_ScheduleMaxWait :: i64

record HitEvent =
  he_Request :: RateLimitReq
  he_Response :: RateLimitResp

text \<open>
  A nil pointer or interface is \<^term>\<open>None\<close>. The gRPC servers are counted, the logger and the TLS
  configuration, which is only copied, are left out.
\<close>

record Config =
  c_InstanceID :: string
  c_GRPCServers :: "nat option"
  c_Behaviors :: BehaviorConfig
  c_CacheFactory :: "(int \<Rightarrow> LRUCache) option"
  c_hasStore :: bool
  c_hasLoader :: bool
  c_LocalPicker :: "ReplicatedConsistentHash option"
  c_RegionPicker :: "RegionPicker option"
  c_DataCenter :: string
  c_AdvertiseAddr :: string
  c_PeerTraceGRPC :: bool
  c_Workers :: int
  c_CacheSize :: int
  c_hasEventChannel :: bool

definition SetDefaults ::
  "Setter \<Rightarrow> (string \<Rightarrow> 64 word) \<Rightarrow> int \<Rightarrow> string \<Rightarrow> Config \<Rightarrow> goerr + Config" where
  "SetDefaults st defaultHash numCPU instanceID c =
     (let b = c_Behaviors c;
          b = b\<lparr>bc_BatchTimeout := sd_int st (bc_BatchTimeout b) [500 * ns_per_ms],
                bc_BatchLimit := sd_int st (bc_BatchLimit b) [maxBatchSize],
                bc_BatchWait := sd_int st (bc_BatchWait b) [500000],
                bc_GlobalTimeout := sd_int st (bc_GlobalTimeout b) [500 * ns_per_ms],
                bc_GlobalBatchLimit := sd_int st (bc_GlobalBatchLimit b) [maxBatchSize],
                bc_GlobalSyncWait := sd_int st (bc_GlobalSyncWait b) [100 * ns_per_ms],
                bc_GlobalPeerRequestsConcurrency := sd_int st (bc_GlobalPeerRequestsConcurrency b) [100]\<rparr>
      in if bc_ScheduleMaxWait b < 0 then Inl (Errorf ''Behaviors.ScheduleMaxWait cannot be negative'')
         else
           (let b = b\<lparr>bc_ScheduleMaxWait := sd_int st (bc_ScheduleMaxWait b) [defaultScheduleMaxWait]\<rparr>;
                c = c\<lparr>c_Behaviors := b,
                      c_LocalPicker := sd_ring st (c_LocalPicker c)
                        [Some (NewReplicatedConsistentHash defaultHash None defaultReplicas)],
                      c_RegionPicker := sd_region st (c_RegionPicker c) [Some (NewRegionPicker defaultHash None)],
                      c_CacheSize := sd_int st (c_CacheSize c) [50000],
                      c_Workers := sd_int st (c_Workers c) [numCPU],
                      c_InstanceID := sd_str st (c_InstanceID c) [instanceID],
                      c_CacheFactory := (case c_CacheFactory c of None \<Rightarrow> Some (\<lambda>n. NewLRUCache n) | Some f \<Rightarrow> Some f)\<rparr>
            in if bc_BatchLimit b > maxBatchSize
               then Inl (Errorf (''Behaviors.BatchLimit cannot exceed '' @ [CHR 0x27] @ ''1000'' @ [CHR 0x27]))
               else Inr c))"

end
