(* ===== verification/Store.thy ===== *)
theory Store
  imports LRUCache
begin

text \<open>
  \<^verbatim>\<open>store.go\<close>: the interfaces \<^verbatim>\<open>Store\<close> and \<^verbatim>\<open>Loader\<close> and the in-memory
  implementations \<^verbatim>\<open>MockStore\<close> and \<^verbatim>\<open>MockLoader\<close>. A store is a parameter of
  the algorithms: its three operations over a state of its own, or no store at all. What a store
  keeps is the item as it was when it was handed over.
\<close>

record 's StoreOps =
  st_Get :: "RateLimitReq \<Rightarrow> 's \<Rightarrow> CacheItem option \<times> 's"
  st_OnChange :: "RateLimitReq \<Rightarrow> CacheItem \<Rightarrow> 's \<Rightarrow> 's"
  st_Remove :: "key \<Rightarrow> 's \<Rightarrow> 's"

subsection \<open>MockStore\<close>

record MockStore =
  ms_OnChange :: nat
  ms_Get :: nat
  ms_Remove :: nat
  ms_CacheItems :: "key \<Rightarrow> CacheItem option"

definition NewMockStore :: MockStore where
  "NewMockStore = \<lparr>ms_OnChange = 0, ms_Get = 0, ms_Remove = 0, ms_CacheItems = (\<lambda>_. None)\<rparr>"

definition MockStore_OnChange :: "RateLimitReq \<Rightarrow> CacheItem \<Rightarrow> MockStore \<Rightarrow> MockStore" where
  "MockStore_OnChange r item ms =
     ms\<lparr>ms_OnChange := Suc (ms_OnChange ms),
        ms_CacheItems := (ms_CacheItems ms)(ci_Key item \<mapsto> item)\<rparr>"

definition MockStore_Get :: "RateLimitReq \<Rightarrow> MockStore \<Rightarrow> CacheItem option \<times> MockStore" where
  "MockStore_Get r ms = (ms_CacheItems ms (HashKey r), ms\<lparr>ms_Get := Suc (ms_Get ms)\<rparr>)"

definition MockStore_Remove :: "key \<Rightarrow> MockStore \<Rightarrow> MockStore" where
  "MockStore_Remove k ms =
     ms\<lparr>ms_Remove := Suc (ms_Remove ms), ms_CacheItems := (ms_CacheItems ms)(k := None)\<rparr>"

definition mockStore :: "MockStore StoreOps" where
  "mockStore = \<lparr>st_Get = MockStore_Get, st_OnChange = MockStore_OnChange, st_Remove = MockStore_Remove\<rparr>"

subsection \<open>MockLoader\<close>

record MockLoader =
  ml_Load :: nat
  ml_Save :: nat
  ml_CacheItems :: "CacheItem list"

definition NewMockLoader :: MockLoader where
  "NewMockLoader = \<lparr>ml_Load = 0, ml_Save = 0, ml_CacheItems = []\<rparr>"

definition MockLoader_Load :: "MockLoader \<Rightarrow> CacheItem list \<times> MockLoader" where
  "MockLoader_Load ml = (ml_CacheItems ml, ml\<lparr>ml_Load := Suc (ml_Load ml)\<rparr>)"

definition MockLoader_Save :: "CacheItem list \<Rightarrow> MockLoader \<Rightarrow> MockLoader" where
  "MockLoader_Save chan ml =
     ml\<lparr>ml_Save := Suc (ml_Save ml), ml_CacheItems := ml_CacheItems ml @ chan\<rparr>"

subsection \<open>The contract of a store\<close>

text \<open>
  What the documentation of the interface promises, over what the store holds: a stored item is
  returned for the request that maps to its key, and removing a key forgets it. \<open>get\<close> may touch
  the store's own books but not what it holds.
\<close>

locale store_ops =
  fixes st :: "'s StoreOps" and held :: "'s \<Rightarrow> key \<Rightarrow> CacheItem option"
  assumes get_held: "fst (st_Get st r s) = held s (HashKey r)"
    and get_keeps: "held (snd (st_Get st r s)) = held s"
    and change_held: "held (st_OnChange st r item s) = (held s)(ci_Key item \<mapsto> item)"
    and remove_held: "held (st_Remove st k s) = (held s)(k := None)"
begin

lemma get_after_change:
  "ci_Key item = HashKey r \<Longrightarrow> fst (st_Get st r (st_OnChange st r' item s)) = Some item"
  by (simp add: get_held change_held)

lemma get_after_remove: "fst (st_Get st r (st_Remove st (HashKey r) s)) = None"
  by (simp add: get_held remove_held)

end

interpretation mock: store_ops mockStore ms_CacheItems
  by unfold_locales
    (simp_all add: mockStore_def MockStore_Get_def MockStore_OnChange_def MockStore_Remove_def)

subsection \<open>The state a request runs in\<close>

text \<open>
  A worker's cache, the counters, and the store. \<open>wGet\<close>, \<open>wAdd\<close>, \<open>wRemove\<close> are calls of the
  cache; \<open>wPut\<close> writes back an item that the algorithm has mutated through its pointer.
\<close>

record 's wstate =
  w_cache :: LRUCache
  w_metrics :: metrics
  w_store :: 's

definition wcache :: "('s, 'z) wstate_scheme \<Rightarrow> LRUCache \<times> metrics" where
  "wcache w = (w_cache w, w_metrics w)"

definition with_cache :: "('s, 'z) wstate_scheme \<Rightarrow> LRUCache \<times> metrics \<Rightarrow> ('s, 'z) wstate_scheme" where
  "with_cache w = (\<lambda>(c, m). w\<lparr>w_cache := c, w_metrics := m\<rparr>)"

definition wGet :: "Time \<Rightarrow> key \<Rightarrow> 's wstate \<Rightarrow> CacheItem option \<times> 's wstate" where
  "wGet now k w = (let (i, s) = GetItem now k (wcache w) in (i, with_cache w s))"

definition wAdd :: "Time \<Rightarrow> CacheItem \<Rightarrow> 's wstate \<Rightarrow> 's wstate" where
  "wAdd now item w = with_cache w (snd (Add now item (wcache w)))"

definition wRemove :: "key \<Rightarrow> 's wstate \<Rightarrow> 's wstate" where
  "wRemove k w = w\<lparr>w_cache := Remove k (w_cache w)\<rparr>"

definition wPut :: "CacheItem \<Rightarrow> 's wstate \<Rightarrow> 's wstate" where
  "wPut item w = w\<lparr>w_cache := setItem (ci_Key item) item (w_cache w)\<rparr>"

definition storeGet :: "'s StoreOps option \<Rightarrow> RateLimitReq \<Rightarrow> 's wstate \<Rightarrow> CacheItem option \<times> 's wstate" where
  "storeGet st r w =
     (case st of None \<Rightarrow> (None, w)
      | Some s \<Rightarrow> let (i, s') = st_Get s r (w_store w) in (i, w\<lparr>w_store := s'\<rparr>))"

definition storeRemove :: "'s StoreOps option \<Rightarrow> key \<Rightarrow> 's wstate \<Rightarrow> 's wstate" where
  "storeRemove st k w =
     (case st of None \<Rightarrow> w | Some s \<Rightarrow> w\<lparr>w_store := st_Remove s k (w_store w)\<rparr>)"

definition storeOnChange ::
  "'s StoreOps option \<Rightarrow> bool \<Rightarrow> RateLimitReq \<Rightarrow> CacheItem \<Rightarrow> 's wstate \<Rightarrow> 's wstate" where
  "storeOnChange st owner r item w =
     (case st of None \<Rightarrow> w
      | Some s \<Rightarrow> if owner then w\<lparr>w_store := st_OnChange s r item (w_store w)\<rparr> else w)"

definition countOver :: "bool \<Rightarrow> 's wstate \<Rightarrow> 's wstate" where
  "countOver b w =
     (if b then w\<lparr>w_metrics := (w_metrics w)\<lparr>m_OverLimit := Suc (m_OverLimit (w_metrics w))\<rparr>\<rparr> else w)"

definition countDebtReset :: "bool \<Rightarrow> 's wstate \<Rightarrow> 's wstate" where
  "countDebtReset b w =
     (if b then w\<lparr>w_metrics := (w_metrics w)\<lparr>m_DebtReset := Suc (m_DebtReset (w_metrics w))\<rparr>\<rparr> else w)"

text \<open>The lookup both algorithms start with: the cache first, then the store, caching what it has.\<close>

definition fetchItem ::
  "Time \<Rightarrow> 's StoreOps option \<Rightarrow> RateLimitReq \<Rightarrow> 's wstate \<Rightarrow> CacheItem option \<times> 's wstate" where
  "fetchItem now st r w =
     (let (item, w1) = wGet now (HashKey r) w
      in case item of
           Some i \<Rightarrow> (Some i, w1)
         | None \<Rightarrow>
             (let (item2, w2) = storeGet st r w1
              in case item2 of None \<Rightarrow> (None, w2) | Some i \<Rightarrow> (Some i, wAdd now i w2)))"

text \<open>The sanity checks: an item without a value or under another key is treated as absent.\<close>

definition saneItem :: "key \<Rightarrow> CacheItem option \<Rightarrow> CacheItem option" where
  "saneItem hashKey item =
     (case item of None \<Rightarrow> None
      | Some i \<Rightarrow> if ci_Value i = NilValue then None
                  else if ci_Key i \<noteq> hashKey then None else Some i)"

text \<open>What the cache of a state holds, and that the cache is sound.\<close>

definition wlook :: "'s wstate \<Rightarrow> key \<Rightarrow> CacheItem option" where
  "wlook w k = lookup (w_cache w) k"

definition wok :: "'s wstate \<Rightarrow> bool" where
  "wok w \<longleftrightarrow> lru_ok (wcache w)"

lemmas wdefs = wGet_def wAdd_def wRemove_def wPut_def wlook_def wok_def wcache_def with_cache_def

lemma wGet_result:
  "wok w \<Longrightarrow> fst (wGet now k w) =
    (case wlook w k of None \<Rightarrow> None | Some i \<Rightarrow> if IsExpired now i then None else Some i)"
  using lru.get_result [of "wcache w" now k] by (simp add: wdefs case_prod_beta)

lemma wGet_wlook:
  "wok w \<Longrightarrow> wlook (snd (wGet now k w)) k' = (if k' = k then fst (wGet now k w) else wlook w k')"
  using lru.get_look [of "wcache w" now k k'] by (simp add: wdefs case_prod_beta)

lemma wGet_Some:
  "wok w \<Longrightarrow> fst (wGet now k w) = Some i \<Longrightarrow> wlook w k = Some i \<and> \<not> IsExpired now i \<and> ci_Key i = k"
  using lru.get_Some [of "wcache w" now k i] by (simp add: wdefs case_prod_beta)

lemma wAdd_self: "wok w \<Longrightarrow> wlook (wAdd now item w) (ci_Key item) = Some item"
  using lru.add_self [of "wcache w" now item] by (simp add: wdefs case_prod_beta)

lemma wAdd_other: "wok w \<Longrightarrow> k \<noteq> ci_Key item \<Longrightarrow> wlook (wAdd now item w) k \<in> {None, wlook w k}"
  using lru.add_other [of "wcache w" k item now] by (simp add: wdefs case_prod_beta)

lemma wRemove_wlook: "wok w \<Longrightarrow> wlook (wRemove k w) k' = (if k' = k then None else wlook w k')"
  using lru.rem_look [of "wcache w" k k'] by (simp add: wdefs)

lemma wPut_wlook:
  "wok w \<Longrightarrow> wlook (wPut item w) k' =
    (if k' = ci_Key item then map_option (\<lambda>_. item) else id) (wlook w k')"
  using lru.put_look [of "wcache w" item "ci_Key item" k'] by (simp add: wdefs)

lemma wok_ops [simp]:
  "wok w \<Longrightarrow> wok (snd (wGet now k w))"
  "wok w \<Longrightarrow> wok (wAdd now item w)"
  "wok w \<Longrightarrow> wok (wRemove k w)"
  "wok w \<Longrightarrow> wok (wPut item w)"
  using lru.invar_get [of "wcache w" now k] lru.invar_add [of "wcache w" now item]
    lru.invar_rem [of "wcache w" k] lru.invar_put [of "wcache w" item "ci_Key item"]
  by (simp_all add: wdefs case_prod_beta)

lemma wok_store [simp]:
  "wok (snd (storeGet st r w)) = wok w"
  "wok (storeRemove st k w) = wok w"
  "wok (storeOnChange st b r item w) = wok w"
  "wok (countOver b w) = wok w"
  "wok (countDebtReset b w) = wok w"
  by (simp_all add: storeGet_def storeRemove_def storeOnChange_def countOver_def countDebtReset_def
      wok_def wcache_def lru_ok_def split: option.splits prod.splits)

lemma wlook_store [simp]:
  "wlook (snd (storeGet st r w)) = wlook w"
  "wlook (storeRemove st k w) = wlook w"
  "wlook (storeOnChange st b r item w) = wlook w"
  "wlook (countOver b w) = wlook w"
  "wlook (countDebtReset b w) = wlook w"
  by (simp_all add: storeGet_def storeRemove_def storeOnChange_def countOver_def countDebtReset_def
      wlook_def fun_eq_iff split: option.splits prod.splits)

subsection \<open>Properties of every cached and stored item\<close>

text \<open>A store, when there is one, keeps its contract; \<open>held\<close> is what it holds.\<close>

definition goodStore :: "'s StoreOps option \<Rightarrow> ('s \<Rightarrow> key \<Rightarrow> CacheItem option) \<Rightarrow> bool" where
  "goodStore st held \<longleftrightarrow> (case st of None \<Rightarrow> True | Some s \<Rightarrow> store_ops s held)"

definition wholds :: "('s \<Rightarrow> key \<Rightarrow> CacheItem option) \<Rightarrow> (CacheItem \<Rightarrow> bool) \<Rightarrow> 's wstate \<Rightarrow> bool" where
  "wholds held P w \<longleftrightarrow> wok w \<and> (\<forall>k i. wlook w k = Some i \<longrightarrow> P i) \<and>
     (\<forall>k i. held (w_store w) k = Some i \<longrightarrow> P i)"

lemma goodStore_None [simp]: "goodStore None held"
  by (simp add: goodStore_def)

lemma goodStore_mock [simp]: "goodStore (Some mockStore) ms_CacheItems"
  by (simp add: goodStore_def mock.store_ops_axioms)

lemma w_store_ops [simp]:
  "w_store (snd (wGet now k w)) = w_store w"
  "w_store (wAdd now item w) = w_store w"
  "w_store (wRemove k w) = w_store w"
  "w_store (wPut item w) = w_store w"
  "w_store (countOver b w) = w_store w"
  "w_store (countDebtReset b w) = w_store w"
  by (simp_all add: wdefs countOver_def countDebtReset_def case_prod_beta)

lemma wholds_wok: "wholds held P w \<Longrightarrow> wok w"
  by (simp add: wholds_def)

lemma wholds_wGet: "wholds held P w \<Longrightarrow> wholds held P (snd (wGet now k w))"
  using wGet_Some [of w now k] by (auto simp: wholds_def wGet_wlook)

lemma wholds_wAdd:
  assumes "wholds held P w" "P item"
  shows "wholds held P (wAdd now item w)"
proof -
  have "P i" if "wlook (wAdd now item w) k = Some i" for k i
    using that wAdd_self [OF wholds_wok [OF assms(1)], of now item]
      wAdd_other [OF wholds_wok [OF assms(1)], of k item now] assms
    by (cases "k = ci_Key item") (auto simp: wholds_def)
  then show ?thesis using assms(1) by (simp add: wholds_def)
qed

lemma wholds_wRemove: "wholds held P w \<Longrightarrow> wholds held P (wRemove k w)"
  by (auto simp: wholds_def wRemove_wlook split: if_splits)

lemma wholds_wPut: "wholds held P w \<Longrightarrow> P item \<Longrightarrow> wholds held P (wPut item w)"
  by (auto simp: wholds_def wPut_wlook split: if_splits)

lemma wholds_count [simp]:
  "wholds held P (countOver b w) = wholds held P w"
  "wholds held P (countDebtReset b w) = wholds held P w"
  by (simp_all add: wholds_def)

lemma wholds_storeRemove:
  "goodStore st held \<Longrightarrow> wholds held P w \<Longrightarrow> wholds held P (storeRemove st k w)"
  unfolding wholds_def
  by (auto simp: goodStore_def storeRemove_def store_ops.remove_held wok_def wcache_def wlook_def
      split: option.splits if_splits)

lemma wholds_storeOnChange:
  "goodStore st held \<Longrightarrow> wholds held P w \<Longrightarrow> P item \<Longrightarrow> wholds held P (storeOnChange st b r item w)"
  unfolding wholds_def
  by (auto simp: goodStore_def storeOnChange_def store_ops.change_held wok_def wcache_def wlook_def
      split: option.splits if_splits)

lemma wholds_storeGet:
  assumes "goodStore st held" "wholds held P w" "storeGet st r w = (res, w')"
  shows "wholds held P w'" and "res = Some i \<Longrightarrow> P i"
proof -
  have "wholds held P w' \<and> (res = Some i \<longrightarrow> P i)"
  proof (cases st)
    case None
    then show ?thesis using assms by (auto simp: storeGet_def)
  next
    case (Some s)
    then have s: "store_ops s held" using assms(1) by (simp add: goodStore_def)
    have "w' = w\<lparr>w_store := snd (st_Get s r (w_store w))\<rparr>" "res = fst (st_Get s r (w_store w))"
      using assms(3) Some by (auto simp: storeGet_def case_prod_beta)
    then show ?thesis
      using assms(2)
      by (auto simp: wholds_def store_ops.get_keeps [OF s] store_ops.get_held [OF s] wok_def
          wcache_def wlook_def)
  qed
  then show "wholds held P w'" and "res = Some i \<Longrightarrow> P i" by simp_all
qed

lemma wholds_fetchItem:
  assumes "goodStore st held" "wholds held P w" "fetchItem now st r w = (res, w')"
  shows "wholds held P w'" and "res = Some i \<Longrightarrow> P i"
proof -
  obtain item w1 where g: "wGet now (HashKey r) w = (item, w1)" by fastforce
  have h1: "wholds held P w1" using wholds_wGet [OF assms(2), of now "HashKey r"] by (simp add: g)
  have hi: "P j" if "item = Some j" for j
    using wGet_Some [OF wholds_wok [OF assms(2)], of now "HashKey r" j] that assms(2)
    by (auto simp: g wholds_def)
  have "wholds held P w' \<and> (res = Some i \<longrightarrow> P i)"
  proof (cases item)
    case None
    obtain item2 w2 where s: "storeGet st r w1 = (item2, w2)" by fastforce
    show ?thesis
      using assms(3) wholds_storeGet [OF assms(1) h1 s]
      by (auto simp: fetchItem_def g None s wholds_wAdd split: option.splits)
  next
    case (Some j)
    then show ?thesis using assms(3) h1 hi by (auto simp: fetchItem_def g)
  qed
  then show "wholds held P w'" and "res = Some i \<Longrightarrow> P i" by simp_all
qed

lemma saneItem_Some:
  "saneItem k res = Some i \<Longrightarrow> res = Some i \<and> ci_Key i = k \<and> ci_Value i \<noteq> NilValue"
  by (auto simp: saneItem_def split: option.splits if_splits)

text \<open>A live cached item is fetched without touching the other items.\<close>

lemma fetchItem_hit:
  assumes "wok w" "wlook w (HashKey r) = Some i" "\<not> IsExpired now i"
  obtains w1 where "fetchItem now st r w = (Some i, w1)" "wok w1" "wlook w1 = wlook w"
    "w_store w1 = w_store w"
proof -
  obtain item w1 where g: "wGet now (HashKey r) w = (item, w1)" by fastforce
  have "item = Some i" using wGet_result [OF assms(1), of now "HashKey r"] assms(2,3) by (simp add: g)
  moreover have "wok w1" "w_store w1 = w_store w"
    using wok_ops(1) [OF assms(1), of now "HashKey r"] w_store_ops(1) [of now "HashKey r" w]
    by (simp_all add: g)
  moreover have "wlook w1 = wlook w"
    using wGet_wlook [OF assms(1), of now "HashKey r"] assms(2) calculation(1) by (auto simp: g fun_eq_iff)
  ultimately show thesis using that by (simp add: fetchItem_def g)
qed

text \<open>Without a store, an absent or expired item is not fetched.\<close>

lemma fetchItem_miss:
  assumes "wok w" "\<And>i. wlook w (HashKey r) = Some i \<Longrightarrow> IsExpired now i"
  obtains w1 where "fetchItem now None r w = (None, w1)" "wok w1"
    "\<And>k. wlook w1 k = (if k = HashKey r then None else wlook w k)"
proof -
  obtain item w1 where g: "wGet now (HashKey r) w = (item, w1)" by fastforce
  have n: "item = None"
    using wGet_result [OF assms(1), of now "HashKey r"] assms(2) by (auto simp: g split: option.splits)
  moreover have "wok w1" using wok_ops(1) [OF assms(1), of now "HashKey r"] by (simp add: g)
  moreover have "wlook w1 k = (if k = HashKey r then None else wlook w k)" for k
    using wGet_wlook [OF assms(1), of now "HashKey r" k] n by (simp add: g)
  ultimately show thesis using that by (simp add: fetchItem_def g storeGet_def)
qed

end
