(* ===== verification/Interval.thy ===== *)
theory Interval
  imports Types
begin

text \<open>
  \<^verbatim>\<open>interval.go\<close>: the one-shot ticker that paces the asynchronous loops, and the
  Gregorian intervals of the behaviour \<^verbatim>\<open>DURATION_IS_GREGORIAN\<close>.
\<close>

subsection \<open>Gregorian intervals\<close>

definition GregorianMinutes :: i64 where "GregorianMinutes = 0"
definition GregorianHours :: i64 where "GregorianHours = 1"
definition GregorianDays :: i64 where "GregorianDays = 2"
definition GregorianWeeks :: i64 where "GregorianWeeks = 3"
definition GregorianMonths :: i64 where "GregorianMonths = 4"
definition GregorianYears :: i64 where "GregorianYears = 5"

lemmas gregorian_codes = GregorianMinutes_def GregorianHours_def GregorianDays_def
  GregorianWeeks_def GregorianMonths_def GregorianYears_def

definition notGregorian :: goerr where
  "notGregorian = Errorf ''behavior DURATION_IS_GREGORIAN is set; but `Duration` is not a valid gregorian interval''"

definition GregorianDuration :: "Time \<Rightarrow> i64 \<Rightarrow> goerr + i64" where
  "GregorianDuration now d =
     (if d = GregorianMinutes then Inr 60000
      else if d = GregorianHours then Inr 3600000
      else if d = GregorianDays then Inr 86400000
      else if d = GregorianWeeks then Inr 604800000
      else if d = GregorianMonths then
        (case Date_of now of (y, m, _) \<Rightarrow>
          let begin_t = mkDate y m 1 0 0 0 0 (t_loc now)
          in Inr (Milliseconds (Sub_dur (AddDate begin_t 0 1 0) begin_t)))
      else if d = GregorianYears then
        (case Date_of now of (y, _, _) \<Rightarrow>
          let begin_t = mkDate y 1 1 0 0 0 0 (t_loc now)
          in Inr (Milliseconds (Sub_dur (AddDate begin_t 1 0 0) begin_t)))
      else Inl notGregorian)"

definition GregorianExpiration :: "Time \<Rightarrow> i64 \<Rightarrow> goerr + i64" where
  "GregorianExpiration now d =
     (case Date_of now of (y, m, mday) \<Rightarrow>
      if d = GregorianMinutes then
        Inr (quot (UnixNano (Add_dur (Truncate now ns_per_min) (ns_per_min - 1))) 1000000)
      else if d = GregorianHours then
        Inr (quot (UnixNano (Add_dur (mkDate y m mday (Hour now) 0 0 0 (t_loc now)) (ns_per_hour - 1))) 1000000)
      else if d = GregorianDays then
        Inr (quot (UnixNano (mkDate y m mday 23 59 59 (ns_per_s - 1) (t_loc now))) 1000000)
      else if d = GregorianWeeks then
        (let daysUntilSunday = (7 - Weekday now) mod 7
         in Inr (quot (UnixNano (mkDate y m (mday + daysUntilSunday) 23 59 59 (ns_per_s - 1) (t_loc now))) 1000000))
      else if d = GregorianMonths then
        Inr (quot (UnixNano (Add_dur (AddDate (mkDate y m 1 0 0 0 0 (t_loc now)) 0 1 0) (- 1))) 1000000)
      else if d = GregorianYears then
        Inr (quot (UnixNano (Add_dur (AddDate (mkDate y 1 1 0 0 0 0 (t_loc now)) 1 0 0) (- 1))) 1000000)
      else Inl notGregorian)"

subsection \<open>The one-shot ticker\<close>

text \<open>
  Both channels have one slot. The goroutine of \<^verbatim>\<open>run\<close> takes a queued interval, sleeps and
  then sends the tick, blocking while the slot of \<^verbatim>\<open>C\<close> is taken; \<^verbatim>\<open>Next\<close> never
  blocks. The ghost counters record how many intervals were queued, delivered and read.
\<close>

datatype ticker_phase = Selecting | Sleeping | Sending | Exited

record Interval =
  i_C :: bool
  i_in :: bool
  i_phase :: ticker_phase
  i_done :: bool
  queued :: nat
  ticks :: nat

definition NewInterval :: Interval where
  "NewInterval = \<lparr>i_C = False, i_in = False, i_phase = Selecting, i_done = False, queued = 0, ticks = 0\<rparr>"

definition Next :: "Interval \<Rightarrow> Interval" where
  "Next i = (if i_in i then i else i\<lparr>i_in := True, queued := Suc (queued i)\<rparr>)"

definition StopInterval :: "Interval \<Rightarrow> Interval" where
  "StopInterval i = i\<lparr>i_done := True\<rparr>"

text \<open>A step of the goroutine, of the reader of \<^verbatim>\<open>C\<close>, or a call of the owner.\<close>

inductive interval_step :: "Interval \<Rightarrow> Interval \<Rightarrow> bool" where
  next_call: "interval_step i (Next i)"
| stop_call: "interval_step i (StopInterval i)"
| take_in: "i_phase i = Selecting \<Longrightarrow> i_in i \<Longrightarrow>
    interval_step i (i\<lparr>i_phase := Sleeping, i_in := False\<rparr>)"
| leave: "i_phase i = Selecting \<Longrightarrow> i_done i \<Longrightarrow> interval_step i (i\<lparr>i_phase := Exited\<rparr>)"
| wake: "i_phase i = Sleeping \<Longrightarrow> interval_step i (i\<lparr>i_phase := Sending\<rparr>)"
| send: "i_phase i = Sending \<Longrightarrow> \<not> i_C i \<Longrightarrow>
    interval_step i (i\<lparr>i_phase := Selecting, i_C := True\<rparr>)"
| read: "i_C i \<Longrightarrow> interval_step i (i\<lparr>i_C := False, ticks := Suc (ticks i)\<rparr>)"

inductive_cases interval_stepE: "interval_step i j"

text \<open>Intervals queued and not yet read: in the input slot, in the goroutine, in the tick slot.\<close>

definition pending :: "Interval \<Rightarrow> nat" where
  "pending i = of_bool (i_in i) + of_bool (i_phase i = Sleeping \<or> i_phase i = Sending) + of_bool (i_C i)"

lemma interval_step_balance:
  assumes "interval_step i j" and "queued i = ticks i + pending i"
  shows "queued j = ticks j + pending j"
  using assms by (cases rule: interval_step.cases) (auto simp: Next_def StopInterval_def pending_def)

lemma interval_steps_balance:
  assumes "interval_step\<^sup>*\<^sup>* NewInterval i"
  shows "queued i = ticks i + pending i"
  using assms
  by (induction rule: rtranclp_induct)
    (simp_all add: NewInterval_def pending_def interval_step_balance)



end
