(* ===== verification/TokenBucket.thy ===== *)
theory TokenBucket
  imports Store Interval
begin

text \<open>
  The token bucket of \<^verbatim>\<open>algorithms.go\<close>: \<^verbatim>\<open>tokenBucket\<close> and
  \<^verbatim>\<open>tokenBucketNewItem\<close>. The handler for an item that exists is split where the source has
  its comments: the limit change, the duration change, the decision on the hits. An item is
  mutated through its pointer; \<^const>\<open>wPut\<close> writes it back on every way out, errors included.
\<close>

definition nilCreatedAt :: goerr where
  "nilCreatedAt = Panic ''invalid memory address or nil pointer dereference''"

definition tokenBucketNewItem ::
  "Time \<Rightarrow> 's StoreOps option \<Rightarrow> RateLimitReq \<Rightarrow> RateLimitReqState \<Rightarrow> 's wstate
   \<Rightarrow> (goerr + RateLimitResp) \<times> 's wstate" where
  "tokenBucketNewItem now st r reqState w =
     (case rq_CreatedAt r of
        None \<Rightarrow> (Inl nilCreatedAt, w)
      | Some createdAt \<Rightarrow>
          (case (if HasBehavior (rq_Behavior r) DURATION_IS_GREGORIAN
                 then GregorianExpiration now (rq_Duration r)
                 else Inr (add64 createdAt (rq_Duration r))) of
             Inl e \<Rightarrow> (Inl e, w)
           | Inr expire \<Rightarrow>
               (let over = rq_Hits r > rq_Limit r;
                    rem = (if over then rq_Limit r else sub64 (rq_Limit r) (rq_Hits r));
                    t = \<lparr>tb_Status = UNDER_LIMIT, tb_Limit = rq_Limit r, tb_Duration = rq_Duration r,
                         tb_Remaining = rem, tb_CreatedAt = createdAt\<rparr>;
                    item = \<lparr>ci_Algorithm = TOKEN_BUCKET, ci_Key = HashKey r, ci_Value = TokenValue t,
                            ci_ExpireAt = expire, ci_InvalidAt = 0\<rparr>;
                    rl = mkResp (if over then OVER_LIMIT else UNDER_LIMIT) (rq_Limit r) rem expire;
                    w1 = countOver (over \<and> IsOwner reqState) w;
                    w2 = wAdd now item w1
                in (Inr rl, storeOnChange st (IsOwner reqState) r item w2))))"

text \<open>Update the limit if it changed.\<close>

definition tbLimit :: "RateLimitReq \<Rightarrow> TokenBucketItem \<Rightarrow> TokenBucketItem" where
  "tbLimit r t =
     (if tb_Limit t \<noteq> rq_Limit r
      then let rem = add64 (tb_Remaining t) (sub64 (rq_Limit r) (tb_Limit t))
           in t\<lparr>tb_Remaining := (if rem < 0 then 0 else rem), tb_Limit := rq_Limit r\<rparr>
      else t)"

text \<open>If the duration config changed, update the new \<^verbatim>\<open>ExpireAt\<close>; renew an expired item.\<close>

definition tbDuration ::
  "Time \<Rightarrow> RateLimitReq \<Rightarrow> CacheItem \<Rightarrow> TokenBucketItem \<Rightarrow> goerr + (TokenBucketItem \<times> i64)" where
  "tbDuration now r item t =
     (if tb_Duration t \<noteq> rq_Duration r then
        (case (if HasBehavior (rq_Behavior r) DURATION_IS_GREGORIAN
               then GregorianExpiration now (rq_Duration r)
               else Inr (add64 (tb_CreatedAt t) (rq_Duration r))) of
           Inl e \<Rightarrow> Inl e
         | Inr expire \<Rightarrow>
             (case rq_CreatedAt r of
                None \<Rightarrow> Inl nilCreatedAt
              | Some createdAt \<Rightarrow>
                  (let (expire', t') =
                     (if expire \<le> createdAt
                      then (add64 createdAt (rq_Duration r),
                            t\<lparr>tb_CreatedAt := createdAt, tb_Remaining := tb_Limit t\<rparr>)
                      else (expire, t))
                   in Inr (t'\<lparr>tb_Duration := rq_Duration r\<rparr>, expire'))))
      else Inr (t, ci_ExpireAt item))"

text \<open>
  The decision: status queries, the empty bucket, the exact remainder, too many hits, and the
  ordinary charge. The last component says whether the over-limit counter moves.
\<close>

definition tbHits ::
  "RateLimitReq \<Rightarrow> RateLimitReqState \<Rightarrow> TokenBucketItem \<Rightarrow> RateLimitResp
   \<Rightarrow> TokenBucketItem \<times> RateLimitResp \<times> bool" where
  "tbHits r reqState t rl =
     (if rq_Hits r = 0 then
        (if rs_Remaining rl = 0 then (t, rl\<lparr>rs_Status := tb_Status t\<rparr>, False)
         else (t\<lparr>tb_Status := UNDER_LIMIT\<rparr>, rl, False))
      else if rs_Remaining rl = 0 \<and> rq_Hits r > 0 then
        (t\<lparr>tb_Status := OVER_LIMIT\<rparr>, rl\<lparr>rs_Status := OVER_LIMIT\<rparr>, IsOwner reqState)
      else
        (let t = t\<lparr>tb_Status := UNDER_LIMIT\<rparr> in
         if tb_Remaining t = rq_Hits r then
           (t\<lparr>tb_Remaining := 0\<rparr>, rl\<lparr>rs_Remaining := 0\<rparr>, False)
         else if rq_Hits r > tb_Remaining t then
           (let rl = rl\<lparr>rs_Status := OVER_LIMIT\<rparr> in
            if HasBehavior (rq_Behavior r) DRAIN_OVER_LIMIT
            then (t\<lparr>tb_Remaining := 0\<rparr>, rl\<lparr>rs_Remaining := 0\<rparr>, IsOwner reqState)
            else (t, rl, IsOwner reqState))
         else
           (let rem = sub64 (tb_Remaining t) (rq_Hits r)
            in (t\<lparr>tb_Remaining := rem\<rparr>, rl\<lparr>rs_Remaining := rem\<rparr>, False))))"

definition tokenBucketExisting ::
  "Time \<Rightarrow> 's StoreOps option \<Rightarrow> RateLimitReq \<Rightarrow> RateLimitReqState \<Rightarrow> CacheItem \<Rightarrow> TokenBucketItem
   \<Rightarrow> 's wstate \<Rightarrow> (goerr + RateLimitResp) \<times> 's wstate" where
  "tokenBucketExisting now st r reqState item t0 w =
     (let t1 = tbLimit r t0
      in case tbDuration now r item t1 of
           Inl e \<Rightarrow> (Inl e, wPut (item\<lparr>ci_Value := TokenValue t1\<rparr>) w)
         | Inr (t2, expire) \<Rightarrow>
             (let rl = mkResp UNDER_LIMIT (rq_Limit r) (tb_Remaining t2) expire;
                  (t3, rl', over) = tbHits r reqState t2 rl;
                  item' = item\<lparr>ci_Value := TokenValue t3, ci_ExpireAt := expire\<rparr>
              in (Inr rl', storeOnChange st (IsOwner reqState) r item'
                             (wPut item' (countOver over w)))))"

definition tokenBucket ::
  "Time \<Rightarrow> 's StoreOps option \<Rightarrow> RateLimitReq \<Rightarrow> RateLimitReqState \<Rightarrow> 's wstate
   \<Rightarrow> (goerr + RateLimitResp) \<times> 's wstate" where
  "tokenBucket now st r reqState w =
     (let hashKey = HashKey r;
          (found, w1) = fetchItem now st r w
      in case saneItem hashKey found of
           None \<Rightarrow> tokenBucketNewItem now st r reqState w1
         | Some item \<Rightarrow>
             (let w2 = (case ci_Value item of
                          LeakyValue lb \<Rightarrow> countDebtReset (debtAt lb (epochMillis now)) w1
                        | _ \<Rightarrow> w1)
              in if HasBehavior (rq_Behavior r) RESET_REMAINING then
                   (Inr (mkResp UNDER_LIMIT (rq_Limit r) (rq_Limit r) 0),
                    storeRemove st hashKey (wRemove hashKey w2))
                 else case ci_Value item of
                        TokenValue t \<Rightarrow> tokenBucketExisting now st r reqState item t w2
                      | _ \<Rightarrow> tokenBucketNewItem now st r reqState
                               (storeRemove st hashKey (wRemove hashKey w2))))"

subsection \<open>The bucket stays within its limit\<close>

definition tb_ok :: "TokenBucketItem \<Rightarrow> bool" where
  "tb_ok t \<longleftrightarrow> 0 \<le> tb_Remaining t \<and> tb_Remaining t \<le> tb_Limit t \<and> in64 (tb_Limit t) \<and>
     (tb_Status t = UNDER_LIMIT \<or> tb_Status t = OVER_LIMIT)"

text \<open>A property of items that is \<open>tb_ok\<close> on token buckets; the weakest one ignores other items.\<close>

definition token_inv :: "(CacheItem \<Rightarrow> bool) \<Rightarrow> bool" where
  "token_inv P \<longleftrightarrow> (\<forall>i t. ci_Value i = TokenValue t \<longrightarrow> P i = tb_ok t)"

definition token_item_ok :: "CacheItem \<Rightarrow> bool" where
  "token_item_ok i \<longleftrightarrow> (case ci_Value i of TokenValue t \<Rightarrow> tb_ok t | _ \<Rightarrow> True)"

lemma token_invI: "token_inv P \<Longrightarrow> ci_Value i = TokenValue t \<Longrightarrow> tb_ok t \<Longrightarrow> P i"
  and token_invD: "token_inv P \<Longrightarrow> ci_Value i = TokenValue t \<Longrightarrow> P i \<Longrightarrow> tb_ok t"
  by (simp_all add: token_inv_def)

lemma token_inv_item_ok: "token_inv token_item_ok"
  by (simp add: token_inv_def token_item_ok_def)

text \<open>A request as the API admits it: hits and limit are non-negative 64-bit numbers.\<close>

definition req_ok :: "RateLimitReq \<Rightarrow> bool" where
  "req_ok r \<longleftrightarrow> 0 \<le> rq_Hits r \<and> in64 (rq_Hits r) \<and> 0 \<le> rq_Limit r \<and> in64 (rq_Limit r)"

definition token_resp_ok :: "RateLimitReq \<Rightarrow> RateLimitResp \<Rightarrow> bool" where
  "token_resp_ok r rl \<longleftrightarrow> rs_Limit rl = rq_Limit r \<and> 0 \<le> rs_Remaining rl \<and> rs_Remaining rl \<le> rq_Limit r \<and>
     (rs_Status rl = UNDER_LIMIT \<or> rs_Status rl = OVER_LIMIT) \<and> rs_RetryAfter rl = 0"

lemma add_sub64_nonneg:
  assumes "in64 a" "in64 b" "in64 c" "0 \<le> a" "0 \<le> b" "0 \<le> c" "a \<le> b"
  shows "add64 a (sub64 c b) = a + (c - b)"
  using assms by (simp add: go_arith) (simp add: in64_def minI64_def maxI64_def)

lemma in64_between: "0 \<le> a \<Longrightarrow> a \<le> b \<Longrightarrow> in64 b \<Longrightarrow> in64 a"
  by (auto simp: in64_def minI64_def)

lemma tbLimit_value:
  assumes "tb_ok t" "req_ok r"
  shows "tbLimit r t = t\<lparr>tb_Limit := rq_Limit r,
    tb_Remaining := (if tb_Limit t = rq_Limit r then tb_Remaining t
                     else max 0 (tb_Remaining t + (rq_Limit r - tb_Limit t)))\<rparr>"
proof -
  have "add64 (tb_Remaining t) (sub64 (rq_Limit r) (tb_Limit t)) = tb_Remaining t + (rq_Limit r - tb_Limit t)"
    using assms in64_between [of "tb_Remaining t" "tb_Limit t"]
    by (intro add_sub64_nonneg) (auto simp: tb_ok_def req_ok_def)
  then show ?thesis by (simp add: tbLimit_def Let_def max_def)
qed

lemma tbLimit_ok:
  assumes "tb_ok t" "req_ok r"
  shows "tb_ok (tbLimit r t)" "tb_Limit (tbLimit r t) = rq_Limit r"
  using assms by (auto simp: tbLimit_value tb_ok_def req_ok_def)

lemma tbDuration_ok:
  assumes "tb_ok t" "tbDuration now r item t = Inr (t', e)"
  shows "tb_ok t'" "tb_Limit t' = tb_Limit t"
  using assms by (auto simp: tbDuration_def tb_ok_def Let_def split: if_splits sum.splits option.splits)

lemma tbHits_ok:
  assumes "tb_ok t" "req_ok r" "tb_Limit t = rq_Limit r"
    and "tbHits r reqState t (mkResp UNDER_LIMIT (rq_Limit r) (tb_Remaining t) e) = (t', rl, b)"
  shows "tb_ok t'" "token_resp_ok r rl" "tb_Remaining t' = rs_Remaining rl"
proof -
  have "sub64 (tb_Remaining t) (rq_Hits r) = tb_Remaining t - rq_Hits r"
    using assms(1,2) in64_between [of "tb_Remaining t" "tb_Limit t"]
    by (intro sub64_nonneg) (auto simp: tb_ok_def req_ok_def)
  then show "tb_ok t'" "token_resp_ok r rl" "tb_Remaining t' = rs_Remaining rl"
    using assms
    by (auto simp: tbHits_def tb_ok_def req_ok_def token_resp_ok_def mkResp_def Let_def split: if_splits)
qed

lemma tokenBucketNewItem_ok:
  assumes "goodStore st held" "wholds held P w" "req_ok r"
    and P: "token_inv P"
    and res: "tokenBucketNewItem now st r reqState w = (res, w')"
  shows "wholds held P w'" and "res = Inr rl \<Longrightarrow> token_resp_ok r rl"
proof -
  have s: "sub64 (rq_Limit r) (rq_Hits r) = rq_Limit r - rq_Hits r"
    using assms(3) by (intro sub64_nonneg) (auto simp: req_ok_def)
  show "wholds held P w'"
    using res assms(1-3) s
    by (auto simp: tokenBucketNewItem_def Let_def split: option.splits sum.splits if_splits
        intro!: wholds_storeOnChange wholds_wAdd token_invI [OF P] simp: tb_ok_def req_ok_def)
  show "res = Inr rl \<Longrightarrow> token_resp_ok r rl"
    using res assms(3) s
    by (auto simp: tokenBucketNewItem_def Let_def token_resp_ok_def mkResp_def req_ok_def
        split: option.splits sum.splits if_splits)
qed

lemma tokenBucketExisting_ok:
  assumes "goodStore st held" "wholds held P w" "req_ok r" "tb_ok t"
    and P: "token_inv P"
    and res: "tokenBucketExisting now st r reqState item t w = (res, w')"
  shows "wholds held P w'" and "res = Inr rl \<Longrightarrow> token_resp_ok r rl"
proof -
  note L = tbLimit_ok [OF assms(4,3)]
  have "wholds held P w' \<and> (res = Inr rl \<longrightarrow> token_resp_ok r rl)"
  proof (cases "tbDuration now r item (tbLimit r t)")
    case (Inl e)
    then show ?thesis
      using res assms(2) L(1) by (auto simp: tokenBucketExisting_def intro!: wholds_wPut token_invI [OF P])
  next
    case (Inr p)
    obtain t2 e where p: "p = (t2, e)" by (cases p)
    note Du = tbDuration_ok [OF L(1) Inr [unfolded p]]
    obtain t3 rl' b where h:
      "tbHits r reqState t2 (mkResp UNDER_LIMIT (rq_Limit r) (tb_Remaining t2) e) = (t3, rl', b)"
      by (metis prod_cases3)
    note H = tbHits_ok [OF Du(1) assms(3) _ h, unfolded Du(2) L(2), OF refl]
    show ?thesis
      using res assms(1,2) H
      by (auto simp: tokenBucketExisting_def Inr p h Let_def intro!: wholds_storeOnChange wholds_wPut token_invI [OF P])
  qed
  then show "wholds held P w'" and "res = Inr rl \<Longrightarrow> token_resp_ok r rl" by simp_all
qed

lemma tokenBucket_ok:
  assumes "goodStore st held" "wholds held P w" "req_ok r"
    and P: "token_inv P"
    and res: "tokenBucket now st r reqState w = (res, w')"
  shows "wholds held P w'" and "res = Inr rl \<Longrightarrow> token_resp_ok r rl"
proof -
  obtain found w1 where f: "fetchItem now st r w = (found, w1)" by fastforce
  note F = wholds_fetchItem [OF assms(1,2) f]
  note new = tokenBucketNewItem_ok [OF assms(1) _ assms(3) P]
  note old = tokenBucketExisting_ok [OF assms(1) _ assms(3) _ P]
  note rem = wholds_storeRemove [OF assms(1) wholds_wRemove]
  have "wholds held P w' \<and> (res = Inr rl \<longrightarrow> token_resp_ok r rl)"
  proof (cases "saneItem (HashKey r) found")
    case None
    then have "tokenBucketNewItem now st r reqState w1 = (res, w')"
      using res by (simp add: tokenBucket_def f)
    then show ?thesis using new [OF F(1)] by blast
  next
    case (Some item)
    then have "P item" using F(2) saneItem_Some by blast
    let ?w2 = "case ci_Value item of LeakyValue lb \<Rightarrow> countDebtReset (debtAt lb (epochMillis now)) w1 | _ \<Rightarrow> w1"
    have w2: "wholds held P ?w2" using F(1) by (simp split: ItemValue.splits)
    have wr: "wholds held P (storeRemove st (HashKey r) (wRemove (HashKey r) ?w2))" by (rule rem [OF w2])
    show ?thesis
    proof (cases "HasBehavior (rq_Behavior r) RESET_REMAINING")
      case True
      then show ?thesis
        using res Some wr assms(3)
        by (auto simp: tokenBucket_def f Let_def token_resp_ok_def mkResp_def req_ok_def)
    next
      case False
      show ?thesis
      proof (cases "\<exists>t. ci_Value item = TokenValue t")
        case True
        then obtain t where t: "ci_Value item = TokenValue t" by blast
        then have "tb_ok t" using token_invD [OF P] \<open>P item\<close> by blast
        moreover have "tokenBucketExisting now st r reqState item t ?w2 = (res, w')"
          using res Some False t by (simp add: tokenBucket_def f)
        ultimately show ?thesis using old [OF w2] by blast
      next
        case nt: False
        then have "tokenBucketNewItem now st r reqState
            (storeRemove st (HashKey r) (wRemove (HashKey r) ?w2)) = (res, w')"
          using res Some False by (cases "ci_Value item") (simp_all add: tokenBucket_def f Let_def)
        then show ?thesis using new [OF wr] by blast
      qed
    qed
  qed
  then show "wholds held P w'" and "res = Inr rl \<Longrightarrow> token_resp_ok r rl" by simp_all
qed

subsection \<open>One window\<close>

text \<open>
  What a token bucket promises within one window, as a fold over hit counts: a request is
  admitted exactly when what remains covers it; a refusal charges nothing, or empties the bucket
  when the request asks for draining.
\<close>

fun windowSpec :: "int \<Rightarrow> (int \<times> bool) list \<Rightarrow> (Status \<times> int) list" where
  "windowSpec rem [] = []"
| "windowSpec rem ((h, drain) # xs) =
     (if h \<le> rem then (UNDER_LIMIT, rem - h) # windowSpec (rem - h) xs
      else let rem' = (if drain then 0 else rem) in (OVER_LIMIT, rem') # windowSpec rem' xs)"

fun admitted :: "(int \<times> bool) list \<Rightarrow> (Status \<times> int) list \<Rightarrow> int" where
  "admitted ((h, _) # hs) ((s, _) # rs) = (if s = UNDER_LIMIT then h else 0) + admitted hs rs"
| "admitted _ _ = 0"

lemma windowSpec_budget:
  "0 \<le> rem \<Longrightarrow> (\<forall>(h, d) \<in> set hs. 0 \<le> h) \<Longrightarrow> admitted hs (windowSpec rem hs) \<le> rem"
proof (induction hs arbitrary: rem)
  case (Cons p hs)
  obtain h d where p: "p = (h, d)" by (cases p)
  have nonneg: "0 \<le> h" "\<forall>(h, d) \<in> set hs. 0 \<le> h" using Cons.prems by (auto simp: p)
  show ?case
  proof (cases "h \<le> rem")
    case True
    then show ?thesis using Cons.IH [of "rem - h"] nonneg by (simp add: p)
  next
    case False
    have "admitted hs (windowSpec 0 hs) \<le> 0" using Cons.IH [of 0] nonneg by simp
    then show ?thesis using False Cons.IH [OF Cons.prems(1) nonneg(2)] Cons.prems(1)
      by (auto simp: p Let_def)
  qed
qed simp

text \<open>A run of requests through the token bucket.\<close>

fun tokenRun ::
  "'s StoreOps option \<Rightarrow> RateLimitReqState \<Rightarrow> (Time \<times> RateLimitReq) list \<Rightarrow> 's wstate
   \<Rightarrow> (goerr + RateLimitResp) list \<times> 's wstate" where
  "tokenRun st reqState [] w = ([], w)"
| "tokenRun st reqState ((now, r) # rs) w =
     (let (res, w1) = tokenBucket now st r reqState w;
          (ress, w2) = tokenRun st reqState rs w1
      in (res # ress, w2))"

definition outcome :: "goerr + RateLimitResp \<Rightarrow> Status \<times> int" where
  "outcome res = (case res of Inr rl \<Rightarrow> (rs_Status rl, rs_Remaining rl) | Inl _ \<Rightarrow> (NEVER_FITS, 0))"

definition drains :: "RateLimitReq \<Rightarrow> bool" where
  "drains r = HasBehavior (rq_Behavior r) DRAIN_OVER_LIMIT"

text \<open>
  A request of the window: same key, limit and duration, a positive number of hits, plain
  durations, no reset, stamped, and arriving no later than the window's end.
\<close>

definition window_req :: "key \<Rightarrow> i64 \<Rightarrow> i64 \<Rightarrow> i64 \<Rightarrow> Time \<Rightarrow> RateLimitReq \<Rightarrow> bool" where
  "window_req k limit duration end_ms now r \<longleftrightarrow>
     HashKey r = k \<and> rq_Limit r = limit \<and> rq_Duration r = duration \<and> req_ok r \<and> 0 < rq_Hits r \<and>
     \<not> HasBehavior (rq_Behavior r) RESET_REMAINING \<and>
     \<not> HasBehavior (rq_Behavior r) DURATION_IS_GREGORIAN \<and>
     rq_CreatedAt r \<noteq> None \<and> MillisecondNow now \<le> end_ms"

text \<open>The bucket of a window: present, alive until the end, with that much left.\<close>

definition bucket_at :: "'s wstate \<Rightarrow> key \<Rightarrow> i64 \<Rightarrow> i64 \<Rightarrow> i64 \<Rightarrow> i64 \<Rightarrow> bool" where
  "bucket_at w k limit duration end_ms rem \<longleftrightarrow>
     (\<exists>i t. wlook w k = Some i \<and> ci_Key i = k \<and> ci_Value i = TokenValue t \<and> ci_InvalidAt i = 0 \<and>
        ci_ExpireAt i = end_ms \<and> tb_ok t \<and> tb_Limit t = limit \<and> tb_Duration t = duration \<and>
        tb_Remaining t = rem)"

lemma wPut_found:
  "wok w \<Longrightarrow> wlook w (ci_Key i) \<noteq> None \<Longrightarrow> wlook (wPut i w) (ci_Key i) = Some i"
  by (auto simp: wPut_wlook)

lemma token_window_step:
  assumes "wok w" "bucket_at w k limit duration end_ms rem" "window_req k limit duration end_ms now r"
    and res: "tokenBucket now None r reqState w = (res, w')"
  defines "rem' \<equiv> (if rq_Hits r \<le> rem then rem - rq_Hits r else if drains r then 0 else rem)"
  shows "outcome res = (if rq_Hits r \<le> rem then UNDER_LIMIT else OVER_LIMIT, rem')"
    and "bucket_at w' k limit duration end_ms rem'" and "wok w'"
    and "\<And>k'. k' \<noteq> k \<Longrightarrow> wlook w' k' = wlook w k'"
proof -
  from assms(2) obtain i t where i: "wlook w k = Some i" "ci_Key i = k" "ci_Value i = TokenValue t"
    "ci_InvalidAt i = 0" "ci_ExpireAt i = end_ms" and t: "tb_ok t" "tb_Limit t = limit"
    "tb_Duration t = duration" "tb_Remaining t = rem" unfolding bucket_at_def by blast
  from assms(3) have r: "HashKey r = k" "rq_Limit r = limit" "rq_Duration r = duration" "req_ok r"
    "0 < rq_Hits r" "\<not> HasBehavior (rq_Behavior r) RESET_REMAINING" "MillisecondNow now \<le> end_ms"
    by (simp_all add: window_req_def)
  have alive: "\<not> IsExpired now i" using i r(7) by (simp add: IsExpired_def)
  from fetchItem_hit [OF assms(1) _ alive, of r None] i(1) r(1) obtain w1 where
    f: "fetchItem now None r w = (Some i, w1)" "wok w1" "wlook w1 = wlook w" by metis
  have sane: "saneItem k (Some i) = Some i" by (simp add: saneItem_def i)
  obtain t' rl over where h:
    "tbHits r reqState t (mkResp UNDER_LIMIT limit rem end_ms) = (t', rl, over)" by (metis prod_cases3)
  let ?i' = "i\<lparr>ci_Value := TokenValue t', ci_ExpireAt := end_ms\<rparr>"
  have lim: "tbLimit r t = t" by (simp add: tbLimit_def r t)
  have dur: "tbDuration now r i t = Inr (t, end_ms)" by (simp add: tbDuration_def t r i)
  have run: "res = Inr rl" "w' = wPut ?i' (countOver over w1)"
    using res h by (simp_all add: tokenBucket_def f sane i r t tokenBucketExisting_def lim dur
        storeOnChange_def)
  have s: "sub64 rem (rq_Hits r) = rem - rq_Hits r"
    using t r in64_between [of rem limit] by (intro sub64_nonneg) (auto simp: tb_ok_def req_ok_def)
  have "0 \<le> rem" using t by (simp add: tb_ok_def)
  with h r(5) s t have dec: "(rs_Status rl, rs_Remaining rl) =
      (if rq_Hits r \<le> rem then UNDER_LIMIT else OVER_LIMIT, rem')" "tb_Remaining t' = rem'"
    "tb_Limit t' = limit" "tb_Duration t' = duration"
    by (auto simp: tbHits_def mkResp_def rem'_def drains_def Let_def split: if_splits)
  then show "outcome res = (if rq_Hits r \<le> rem then UNDER_LIMIT else OVER_LIMIT, rem')"
    by (simp add: outcome_def run)
  have "tb_ok t'" using tbHits_ok(1) [of t r reqState end_ms] h t r by simp
  moreover have "wlook w' k = Some ?i'" using wPut_found [of "countOver over w1" ?i'] i f by (simp add: run)
  ultimately show "bucket_at w' k limit duration end_ms rem'"
    unfolding bucket_at_def using i dec by auto
  show "wok w'" using f by (simp add: run)
  show "wlook w' k' = wlook w k'" if "k' \<noteq> k" for k' using that i f by (simp add: run wPut_wlook)
qed

lemma token_window_run:
  assumes "wok w" "bucket_at w k limit duration end_ms rem"
    and "\<forall>(now, r) \<in> set reqs. window_req k limit duration end_ms now r"
  shows "map outcome (fst (tokenRun None reqState reqs w)) =
    windowSpec rem (map (\<lambda>(_, r). (rq_Hits r, drains r)) reqs)"
  using assms
proof (induction reqs arbitrary: w rem)
  case (Cons p reqs)
  obtain now r where p: "p = (now, r)" by (cases p)
  obtain res w1 where s: "tokenBucket now None r reqState w = (res, w1)" by fastforce
  have wr: "window_req k limit duration end_ms now r" using Cons.prems(3) by (simp add: p)
  note step = token_window_step [OF Cons.prems(1,2) wr s]
  have "\<forall>(now, r) \<in> set reqs. window_req k limit duration end_ms now r" using Cons.prems(3) by simp
  then show ?case using Cons.IH [OF step(3,2)] step(1) by (auto simp: p s Let_def case_prod_beta)
qed simp

lemma token_new_window:
  assumes "wok w" "\<And>i. wlook w k = Some i \<Longrightarrow> IsExpired now i"
    and "window_req k limit duration end_ms now r" "rq_CreatedAt r = Some c" "end_ms = add64 c duration"
    and res: "tokenBucket now None r reqState w = (res, w')"
  defines "rem' \<equiv> (if rq_Hits r \<le> limit then limit - rq_Hits r else limit)"
  shows "outcome res = (if rq_Hits r \<le> limit then UNDER_LIMIT else OVER_LIMIT, rem')"
    and "bucket_at w' k limit duration end_ms rem'" and "wok w'"
proof -
  from assms(3) have r: "HashKey r = k" "rq_Limit r = limit" "rq_Duration r = duration" "req_ok r"
    "\<not> HasBehavior (rq_Behavior r) DURATION_IS_GREGORIAN" by (simp_all add: window_req_def)
  from fetchItem_miss [OF assms(1), of r now] assms(2) r(1) obtain w1 where
    f: "fetchItem now None r w = (None, w1)" "wok w1" by metis
  have s: "sub64 limit (rq_Hits r) = limit - rq_Hits r"
    using r by (intro sub64_nonneg) (auto simp: req_ok_def)
  let ?t = "\<lparr>tb_Status = UNDER_LIMIT, tb_Limit = limit, tb_Duration = duration, tb_Remaining = rem',
    tb_CreatedAt = c\<rparr>"
  let ?i = "\<lparr>ci_Algorithm = TOKEN_BUCKET, ci_Key = k, ci_Value = TokenValue ?t, ci_ExpireAt = end_ms,
    ci_InvalidAt = 0\<rparr>"
  have "tokenBucket now None r reqState w = tokenBucketNewItem now None r reqState w1"
    by (simp add: tokenBucket_def f saneItem_def Let_def)
  also have "\<dots> = (Inr (mkResp (if rq_Hits r > limit then OVER_LIMIT else UNDER_LIMIT) limit rem' end_ms),
      wAdd now ?i (countOver (rq_Hits r > limit \<and> IsOwner reqState) w1))"
    by (simp add: tokenBucketNewItem_def r assms(4,5) storeOnChange_def rem'_def s Let_def)
  finally have run: "res = Inr (mkResp (if rq_Hits r > limit then OVER_LIMIT else UNDER_LIMIT) limit rem' end_ms)"
    "w' = wAdd now ?i (countOver (rq_Hits r > limit \<and> IsOwner reqState) w1)" using res by simp_all
  then show "outcome res = (if rq_Hits r \<le> limit then UNDER_LIMIT else OVER_LIMIT, rem')"
    by (simp add: outcome_def mkResp_def)
  have "wlook w' k = Some ?i" using wAdd_self [of "countOver (rq_Hits r > limit \<and> IsOwner reqState) w1" now ?i] f
    by (simp add: run)
  moreover have "tb_ok ?t" using r by (auto simp: tb_ok_def rem'_def req_ok_def)
  ultimately show "bucket_at w' k limit duration end_ms rem'" by (auto simp: bucket_at_def)
  show "wok w'" using f by (simp add: run)
qed

subsection \<open>Properties\<close>


definition req0 :: RateLimitReq where
  "req0 = \<lparr>rq_Name = ''n'', rq_UniqueKey = ''k'', rq_Hits = 2, rq_Limit = 5, rq_Duration = 1000,
     rq_Algorithm = TOKEN_BUCKET, rq_Behavior = 0, rq_Burst = 0, rq_Metadata = None,
     rq_CreatedAt = Some 7, rq_MaxWait = 0\<rparr>"

definition time0 :: Time where
  "time0 = \<lparr>t_ns = 7000000, t_loc = UTC\<rparr>"

definition state0 :: "unit wstate" where
  "state0 = \<lparr>w_cache = NewLRUCache 100, w_metrics = zero_metrics, w_store = ()\<rparr>"

lemma wok_New: "0 < n \<Longrightarrow> wok \<lparr>w_cache = NewLRUCache n, w_metrics = m, w_store = s\<rparr>"
  by (simp add: wok_def wcache_def lru_ok_iff NewLRUCache_inv cacheSize_New)

lemma wlook_New [simp]: "wlook \<lparr>w_cache = NewLRUCache n, w_metrics = m, w_store = s\<rparr> k = None"
  by (simp add: wlook_def lookup_def items_def NewLRUCache_def)

lemma wok_state0 [simp]: "wok state0" and wlook_state0 [simp]: "wlook state0 k = None"
  by (simp_all add: state0_def wok_New)

lemma window_req0: "window_req ''n_k'' 5 1000 1007 time0 req0"
  by code_simp


text \<open>
  C2. Never over the limit: within one window the hits that a token bucket admits add up to at most
  the limit, however they are split over requests.
\<close>

theorem token_bucket_never_over:
  assumes "wok w" "\<And>i. wlook w k = Some i \<Longrightarrow> IsExpired now i"
    and "rq_CreatedAt r = Some c" "end_ms = add64 c duration"
    and "\<forall>(now, r) \<in> set ((now, r) # reqs). window_req k limit duration end_ms now r"
  shows "admitted (map (\<lambda>(_, r). (rq_Hits r, drains r)) ((now, r) # reqs))
    (map outcome (fst (tokenRun None reqState ((now, r) # reqs) w))) \<le> limit"
proof -
  let ?hs = "(rq_Hits r, False) # map (\<lambda>(_, r). (rq_Hits r, drains r)) reqs"
  obtain res w1 where s: "tokenBucket now None r reqState w = (res, w1)" by fastforce
  have wr: "window_req k limit duration end_ms now r"
    and rest: "\<forall>(now, r) \<in> set reqs. window_req k limit duration end_ms now r" using assms(5) by simp_all
  note new = token_new_window [OF assms(1,2) wr assms(3,4) s]
  have "map outcome (fst (tokenRun None reqState ((now, r) # reqs) w)) = windowSpec limit ?hs"
    using token_window_run [OF new(3,2) rest, of reqState] new(1) by (auto simp: s Let_def case_prod_beta)
  moreover have "admitted ((rq_Hits r, drains r) # map (\<lambda>(_, r). (rq_Hits r, drains r)) reqs) xs = admitted ?hs xs"
    for xs by (cases xs) auto
  moreover have "0 \<le> limit" "\<forall>(h, d) \<in> set ?hs. 0 \<le> h"
    using assms(5) by (auto simp: window_req_def req_ok_def)
  ultimately show ?thesis using windowSpec_budget [of limit ?hs] by simp
qed

theorem token_bucket_never_over_witness:
  "admitted [(2, False), (2, False), (2, False)] (map outcome (fst (tokenRun None
      \<lparr>IsOwner = True, WaitCeiling = 0\<rparr> [(time0, req0), (time0, req0), (time0, req0)] state0))) \<le> 5"
proof -
  have "admitted (map (\<lambda>(_, r). (rq_Hits r, drains r)) ((time0, req0) # [(time0, req0), (time0, req0)]))
    (map outcome (fst (tokenRun None \<lparr>IsOwner = True, WaitCeiling = 0\<rparr>
      ((time0, req0) # [(time0, req0), (time0, req0)]) state0))) \<le> 5"
    by (rule token_bucket_never_over [where k = "''n_k''" and c = 7 and duration = 1000 and end_ms = 1007])
      (use window_req0 in \<open>simp_all add: req0_def go_arith wrap64_def\<close>)
  then show ?thesis by (simp add: req0_def drains_def HasBehavior_def del: tokenRun.simps)
qed


definition mock_state0 :: "MockStore wstate" where
  "mock_state0 = \<lparr>w_cache = NewLRUCache 100, w_metrics = zero_metrics, w_store = NewMockStore\<rparr>"

lemma wholds_mock_state0: "wholds ms_CacheItems P mock_state0"
  by (simp add: wholds_def mock_state0_def wok_New NewMockStore_def)


subsection \<open>Isolation, resets and switches\<close>

text \<open>The other keys of the cache: each is as it was, or evicted.\<close>

definition others_kept :: "key \<Rightarrow> 's wstate \<Rightarrow> 's wstate \<Rightarrow> bool" where
  "others_kept k w w' \<longleftrightarrow> (\<forall>k'. k' \<noteq> k \<longrightarrow> wlook w' k' = None \<or> wlook w' k' = wlook w k')"

lemma others_kept_refl [simp]: "others_kept k w w"
  by (simp add: others_kept_def)

lemma others_kept_trans:
  assumes "others_kept k w1 w2" "others_kept k w2 w3"
  shows "others_kept k w1 w3"
  unfolding others_kept_def
proof (intro allI impI)
  fix k' assume "k' \<noteq> k"
  with assms [unfolded others_kept_def, rule_format, of k']
  show "wlook w3 k' = None \<or> wlook w3 k' = wlook w1 k'" by auto
qed

lemma others_kept_ops:
  "wok w \<Longrightarrow> others_kept k w (snd (wGet now k w))"
  "wok w \<Longrightarrow> others_kept (ci_Key item) w (wAdd now item w)"
  "wok w \<Longrightarrow> others_kept k w (wRemove k w)"
  "wok w \<Longrightarrow> others_kept (ci_Key item) w (wPut item w)"
  using wAdd_other [of w _ item now] by (auto simp: others_kept_def wGet_wlook wRemove_wlook wPut_wlook)

lemma others_kept_same:
  "others_kept k w (storeRemove st k1 w') = others_kept k w w'"
  "others_kept k w (storeOnChange st b r item w') = others_kept k w w'"
  "others_kept k w (countOver c w') = others_kept k w w'"
  "others_kept k w (countDebtReset c w') = others_kept k w w'"
  by (simp_all add: others_kept_def)

lemma fetchItem_None_store:
  assumes "wok w"
  shows "fetchItem now None r w = wGet now (HashKey r) w"
  by (simp add: fetchItem_def storeGet_def case_prod_beta split: option.splits) (metis prod.collapse)

lemma others_kept_wAdd: "wok w \<Longrightarrow> ci_Key item = k \<Longrightarrow> others_kept k w (wAdd now item (countOver b w))"
  using others_kept_ops(2) [of "countOver b w" item now] by (auto simp: others_kept_def)

lemma tokenBucketNewItem_others:
  assumes "wok w"
  shows "others_kept (HashKey r) w (snd (tokenBucketNewItem now st r reqState w))"
    and "wok (snd (tokenBucketNewItem now st r reqState w))"
  using assms
  by (simp_all add: tokenBucketNewItem_def Let_def others_kept_same others_kept_wAdd
      split: option.split sum.split)

lemma tokenBucketExisting_others:
  assumes "wok w" "ci_Key item = HashKey r"
  shows "others_kept (HashKey r) w (snd (tokenBucketExisting now st r reqState item t w))"
    and "wok (snd (tokenBucketExisting now st r reqState item t w))"
proof -
  have put: "others_kept (HashKey r) w (wPut (item\<lparr>ci_Value := v, ci_ExpireAt := e\<rparr>) (countOver b w))"
    "others_kept (HashKey r) w (wPut (item\<lparr>ci_Value := v\<rparr>) w)" for v e b
    using others_kept_ops(4) [of "countOver b w" "item\<lparr>ci_Value := v, ci_ExpireAt := e\<rparr>"]
      others_kept_ops(4) [of w "item\<lparr>ci_Value := v\<rparr>"] assms
    by (simp_all add: others_kept_def)
  then show "others_kept (HashKey r) w (snd (tokenBucketExisting now st r reqState item t w))"
    by (auto simp: tokenBucketExisting_def Let_def others_kept_same case_prod_beta split: sum.splits)
  show "wok (snd (tokenBucketExisting now st r reqState item t w))"
    using assms(1) by (auto simp: tokenBucketExisting_def Let_def case_prod_beta split: sum.splits)
qed

text \<open>Without a store, a request leaves the bucket of every other key as it was, or evicted.\<close>

lemma tokenBucket_others:
  assumes "wok w"
  shows "others_kept (HashKey r) w (snd (tokenBucket now None r reqState w)) \<and>
    wok (snd (tokenBucket now None r reqState w))"
proof -
  obtain found w1 where f: "fetchItem now None r w = (found, w1)" by fastforce
  have g: "wGet now (HashKey r) w = (found, w1)" using f fetchItem_None_store [OF assms] by simp
  have w1: "wok w1" "others_kept (HashKey r) w w1"
    using wok_ops(1) [OF assms, of now "HashKey r"] others_kept_ops(1) [OF assms, of "HashKey r" now] by (simp_all add: g)
  note tr = others_kept_trans [OF w1(2)]
  show ?thesis
  proof (cases "saneItem (HashKey r) found")
    case None
    then show ?thesis
      using tokenBucketNewItem_others [OF w1(1)] tr by (simp add: tokenBucket_def f Let_def)
  next
    case (Some item)
    then have key: "ci_Key item = HashKey r" using saneItem_Some by blast
    let ?w2 = "case ci_Value item of LeakyValue lb \<Rightarrow> countDebtReset (debtAt lb (epochMillis now)) w1 | _ \<Rightarrow> w1"
    have w2: "wok ?w2" "others_kept (HashKey r) w ?w2" "others_kept (HashKey r) w (wRemove (HashKey r) ?w2)"
      using w1 others_kept_trans [OF _ others_kept_ops(3) [of ?w2 "HashKey r"]]
      by (auto simp: others_kept_same split: ItemValue.splits)
    have w3: "wok (storeRemove None (HashKey r) (wRemove (HashKey r) ?w2))"
      "others_kept (HashKey r) w (storeRemove None (HashKey r) (wRemove (HashKey r) ?w2))"
      using w2 by (simp_all add: others_kept_same)
    let ?p = "tokenBucket now None r reqState w"
    have "?p = (Inr (mkResp UNDER_LIMIT (rq_Limit r) (rq_Limit r) 0),
          storeRemove None (HashKey r) (wRemove (HashKey r) ?w2)) \<or>
        (\<exists>t. ?p = tokenBucketExisting now None r reqState item t ?w2) \<or>
        ?p = tokenBucketNewItem now None r reqState (storeRemove None (HashKey r) (wRemove (HashKey r) ?w2))"
      using Some by (cases "ci_Value item") (auto simp: tokenBucket_def f Let_def)
    then show ?thesis
      using w3 tokenBucketExisting_others [OF w2(1) key, where now = now and st = None and reqState = reqState]
        tokenBucketNewItem_others [OF w3(1), where r = r and now = now and st = None and reqState = reqState]
        others_kept_trans [OF w2(2)] others_kept_trans [OF w3(2)]
      by (elim disjE exE) auto
  qed
qed

lemma tokenBucket_reset_result:
  assumes "wok w" "goodStore st held" "wlook w (HashKey r) = Some i" "\<not> IsExpired now i"
    and "ci_Value i \<noteq> NilValue" "HasBehavior (rq_Behavior r) RESET_REMAINING"
  shows "let (res, w') = tokenBucket now st r reqState w
    in res = Inr (mkResp UNDER_LIMIT (rq_Limit r) (rq_Limit r) 0) \<and> wlook w' (HashKey r) = None \<and>
       (st \<noteq> None \<longrightarrow> held (w_store w') (HashKey r) = None) \<and>
       (\<forall>k. k \<noteq> HashKey r \<longrightarrow> wlook w' k = wlook w k)"
proof -
  from fetchItem_hit [OF assms(1,3,4), of st] obtain w1 where
    f: "fetchItem now st r w = (Some i, w1)" "wok w1" "wlook w1 = wlook w" "w_store w1 = w_store w" by blast
  have "ci_Key i = HashKey r" using assms(3) lookup_Key by (auto simp: wlook_def)
  then have sane: "saneItem (HashKey r) (Some i) = Some i" using assms(5) by (simp add: saneItem_def)
  let ?w2 = "case ci_Value i of LeakyValue lb \<Rightarrow> countDebtReset (debtAt lb (epochMillis now)) w1 | _ \<Rightarrow> w1"
  have w2: "wok ?w2" "wlook ?w2 = wlook w" using f by (simp_all split: ItemValue.splits)
  have "tokenBucket now st r reqState w = (Inr (mkResp UNDER_LIMIT (rq_Limit r) (rq_Limit r) 0),
      storeRemove st (HashKey r) (wRemove (HashKey r) ?w2))"
    using assms(6) by (simp add: tokenBucket_def f sane Let_def)
  moreover have "held (w_store (storeRemove st (HashKey r) (wRemove (HashKey r) ?w2))) (HashKey r) = None"
    if "st \<noteq> None" using that assms(2) by (auto simp: storeRemove_def goodStore_def store_ops.remove_held)
  ultimately show ?thesis using w2 by (simp add: wRemove_wlook)
qed

text \<open>
  \<^verbatim>\<open>RESET_REMAINING\<close> on a live bucket: whatever hits the request carries, the answer is
  the full limit under limit, and the bucket is gone from the cache and from the store, so the next
  request starts a new window. Booked debt of a leaky bucket that is forgiven this way is counted.
\<close>

theorem token_bucket_reset:
  assumes "wok w" "goodStore st held" "wlook w (HashKey r) = Some i" "\<not> IsExpired now i"
    and "ci_Value i \<noteq> NilValue" "HasBehavior (rq_Behavior r) RESET_REMAINING"
  shows "let (res, w') = tokenBucket now st r reqState w
    in res = Inr (mkResp UNDER_LIMIT (rq_Limit r) (rq_Limit r) 0) \<and> wlook w' (HashKey r) = None \<and>
       (st \<noteq> None \<longrightarrow> held (w_store w') (HashKey r) = None) \<and>
       (\<forall>k. k \<noteq> HashKey r \<longrightarrow> wlook w' k = wlook w k)"
  by (rule tokenBucket_reset_result [OF assms])

definition token0 :: "i64 \<Rightarrow> CacheItem" where
  "token0 rem = \<lparr>ci_Algorithm = TOKEN_BUCKET, ci_Key = ''n_k'',
     ci_Value = TokenValue \<lparr>tb_Status = UNDER_LIMIT, tb_Limit = 5, tb_Duration = 1000,
       tb_Remaining = rem, tb_CreatedAt = 7\<rparr>, ci_ExpireAt = 1007, ci_InvalidAt = 0\<rparr>"

lemma req0_sel [simp]:
  "rq_Name req0 = ''n''" "rq_UniqueKey req0 = ''k''" "rq_Hits req0 = 2" "rq_Limit req0 = 5"
  "rq_Duration req0 = 1000" "rq_Behavior req0 = 0" "rq_CreatedAt req0 = Some 7"
  by (simp_all add: req0_def)

lemma HashKey_req0 [simp]: "HashKey req0 = ''n_k''" "HashKey (req0\<lparr>rq_Behavior := b\<rparr>) = ''n_k''"
  "HashKey (req0\<lparr>rq_Behavior := b, rq_Hits := h\<rparr>) = ''n_k''"
  by (simp_all add: HashKey_def)

lemma token0_sel [simp]: "ci_Value (token0 rem) = TokenValue \<lparr>tb_Status = UNDER_LIMIT, tb_Limit = 5,
    tb_Duration = 1000, tb_Remaining = rem, tb_CreatedAt = 7\<rparr>"
  by (simp add: token0_def)

lemma small_arith: "add64 7 1000 = 1007" "in64 2" "in64 5" "in64 9"
  by (simp_all add: go_arith wrap64_def in64_def minI64_def maxI64_def)

lemma wlook_token0 [simp]: "wlook (wAdd time0 (token0 rem) state0) ''n_k'' = Some (token0 rem)"
  using wAdd_self [OF wok_state0, of time0 "token0 rem"] by (simp add: token0_def)

lemma token0_live [simp]: "\<not> IsExpired time0 (token0 rem)"
  by (simp add: IsExpired_def token0_def time0_def MillisecondNow_def UnixNano_def quot_def wrap64_def)

theorem token_bucket_reset_witness:
  "wlook (snd (tokenBucket time0 None (req0\<lparr>rq_Behavior := RESET_REMAINING\<rparr>)
     \<lparr>IsOwner = True, WaitCeiling = 0\<rparr> (wAdd time0 (token0 1) state0))) ''n_k'' = None"
  using token_bucket_reset [of "wAdd time0 (token0 1) state0" None "\<lambda>_ _. None"
      "req0\<lparr>rq_Behavior := RESET_REMAINING\<rparr>" "token0 1" time0 "\<lparr>IsOwner = True, WaitCeiling = 0\<rparr>"]
  by (simp add: case_prod_beta HasBehavior_def RESET_REMAINING_def)

text \<open>
  Switching the algorithm resets the counts: a token bucket request that finds a live leaky
  bucket under its key drops it and opens a fresh window, charged with this request's hits only.
\<close>

theorem token_bucket_switch:
  assumes "wok w" "wlook w (HashKey r) = Some i" "\<not> IsExpired now i" "ci_Value i = LeakyValue b"
    and "\<not> HasBehavior (rq_Behavior r) RESET_REMAINING"
    and "\<not> HasBehavior (rq_Behavior r) DURATION_IS_GREGORIAN"
    and "rq_CreatedAt r = Some c" "req_ok r" "rq_Hits r \<le> rq_Limit r"
  shows "let (res, w') = tokenBucket now st r reqState w;
             rem = rq_Limit r - rq_Hits r; e = add64 c (rq_Duration r)
    in res = Inr (mkResp UNDER_LIMIT (rq_Limit r) rem e) \<and>
       bucket_at w' (HashKey r) (rq_Limit r) (rq_Duration r) e rem"
proof -
  from fetchItem_hit [OF assms(1,2,3), of st] obtain w1 where
    f: "fetchItem now st r w = (Some i, w1)" "wok w1" by blast
  have "ci_Key i = HashKey r" using assms(2) lookup_Key by (auto simp: wlook_def)
  then have sane: "saneItem (HashKey r) (Some i) = Some i" using assms(4) by (simp add: saneItem_def)
  let ?w3 = "storeRemove st (HashKey r) (wRemove (HashKey r) (countDebtReset (debtAt b (epochMillis now)) w1))"
  have w3: "wok ?w3" using f by simp
  have s: "sub64 (rq_Limit r) (rq_Hits r) = rq_Limit r - rq_Hits r"
    using assms(8) by (intro sub64_nonneg) (auto simp: req_ok_def)
  let ?t = "\<lparr>tb_Status = UNDER_LIMIT, tb_Limit = rq_Limit r, tb_Duration = rq_Duration r,
    tb_Remaining = rq_Limit r - rq_Hits r, tb_CreatedAt = c\<rparr>"
  let ?i = "\<lparr>ci_Algorithm = TOKEN_BUCKET, ci_Key = HashKey r, ci_Value = TokenValue ?t,
    ci_ExpireAt = add64 c (rq_Duration r), ci_InvalidAt = 0\<rparr>"
  have run: "tokenBucket now st r reqState w =
      (Inr (mkResp UNDER_LIMIT (rq_Limit r) (rq_Limit r - rq_Hits r) (add64 c (rq_Duration r))),
       storeOnChange st (IsOwner reqState) r ?i (wAdd now ?i ?w3))"
    using assms(4-9) s
    by (simp add: tokenBucket_def f sane Let_def tokenBucketNewItem_def countOver_def)
  have "wlook (wAdd now ?i ?w3) (HashKey r) = Some ?i" using wAdd_self [OF w3, of now ?i] by simp
  moreover have "tb_ok ?t" using assms(8,9) by (auto simp: tb_ok_def req_ok_def)
  ultimately show ?thesis by (auto simp: run bucket_at_def)
qed

definition leaky0 :: "f64 \<Rightarrow> CacheItem" where
  "leaky0 bal = \<lparr>ci_Algorithm = LEAKY_BUCKET, ci_Key = ''n_k'',
     ci_Value = LeakyValue \<lparr>lb_Limit = 5, lb_Duration = 1000, lb_Remaining = bal, lb_UpdatedAt = 7,
       lb_Burst = 5\<rparr>, ci_ExpireAt = 1007, ci_InvalidAt = 0\<rparr>"

lemma wlook_leaky0 [simp]: "wlook (wAdd time0 (leaky0 bal) state0) ''n_k'' = Some (leaky0 bal)"
  using wAdd_self [OF wok_state0, of time0 "leaky0 bal"] by (simp add: leaky0_def)

lemma leaky0_sel [simp]: "ci_Value (leaky0 bal) = LeakyValue \<lparr>lb_Limit = 5, lb_Duration = 1000,
    lb_Remaining = bal, lb_UpdatedAt = 7, lb_Burst = 5\<rparr>"
  by (simp add: leaky0_def)

lemma leaky0_live [simp]: "\<not> IsExpired time0 (leaky0 bal)"
  by (simp add: IsExpired_def leaky0_def time0_def MillisecondNow_def UnixNano_def quot_def wrap64_def)

theorem token_bucket_switch_witness:
  "fst (tokenBucket time0 None req0 \<lparr>IsOwner = True, WaitCeiling = 0\<rparr> (wAdd time0 (leaky0 (Fin 1)) state0)) =
   Inr (mkResp UNDER_LIMIT 5 3 1007)"
  using token_bucket_switch [of "wAdd time0 (leaky0 (Fin 1)) state0" req0 "leaky0 (Fin 1)" time0 _ 7 None
      "\<lparr>IsOwner = True, WaitCeiling = 0\<rparr>"]
  by (simp add: case_prod_beta req_ok_def HasBehavior_def small_arith)

text \<open>
  A request for more than the limit that opens a window is refused and leaves the bucket full
  even when it sets \<^verbatim>\<open>DRAIN_OVER_LIMIT\<close>: the first over-limit event does not drain.
\<close>

theorem drain_does_not_apply_to_first_request:
  assumes "wok w" "\<And>i. wlook w k = Some i \<Longrightarrow> IsExpired now i"
    and "window_req k limit duration end_ms now r" "rq_CreatedAt r = Some c" "end_ms = add64 c duration"
    and "drains r" "limit < rq_Hits r"
  shows "let (res, w') = tokenBucket now None r reqState w
    in outcome res = (OVER_LIMIT, limit) \<and> bucket_at w' k limit duration end_ms limit"
proof -
  obtain res w' where s: "tokenBucket now None r reqState w = (res, w')" by fastforce
  from token_new_window [OF assms(1-5) s] assms(7) show ?thesis by (simp add: s)
qed

theorem drain_does_not_apply_to_first_request_witness:
  "outcome (fst (tokenBucket time0 None (req0\<lparr>rq_Behavior := DRAIN_OVER_LIMIT, rq_Hits := 9\<rparr>)
     \<lparr>IsOwner = True, WaitCeiling = 0\<rparr> state0)) = (OVER_LIMIT, 5)"
proof -
  let ?r = "req0\<lparr>rq_Behavior := DRAIN_OVER_LIMIT, rq_Hits := 9\<rparr>"
  have "MillisecondNow time0 = 7"
    by (simp add: time0_def MillisecondNow_def UnixNano_def quot_def wrap64_def)
  then have "window_req ''n_k'' 5 1000 1007 time0 ?r" "drains ?r"
    by (simp_all add: window_req_def drains_def req_ok_def HasBehavior_def behavior_flags small_arith)
  moreover have "5 < rq_Hits ?r" "rq_CreatedAt ?r = Some 7" by simp_all
  ultimately have "let (res, w') = tokenBucket time0 None ?r \<lparr>IsOwner = True, WaitCeiling = 0\<rparr> state0
      in outcome res = (OVER_LIMIT, 5) \<and> bucket_at w' ''n_k'' 5 1000 1007 5"
    using small_arith(1) by (intro drain_does_not_apply_to_first_request) simp_all
  then show ?thesis by (simp add: case_prod_beta)
qed

text \<open>
  \<^verbatim>\<open>RESET_REMAINING\<close> on a key without a live bucket is an ordinary request: its hits are
  charged to the new window, as if the flag were not set.
\<close>

theorem reset_on_absent_bucket_charges:
  assumes "wok w" "\<And>i. wlook w (HashKey r) = Some i \<Longrightarrow> IsExpired now i"
    and "\<not> HasBehavior (rq_Behavior r) DURATION_IS_GREGORIAN"
    and "rq_CreatedAt r = Some c" "req_ok r" "rq_Hits r \<le> rq_Limit r"
    and "HasBehavior (rq_Behavior r) RESET_REMAINING"
  shows "let (res, w') = tokenBucket now None r reqState w;
             rem = rq_Limit r - rq_Hits r; e = add64 c (rq_Duration r)
    in res = Inr (mkResp UNDER_LIMIT (rq_Limit r) rem e) \<and>
       bucket_at w' (HashKey r) (rq_Limit r) (rq_Duration r) e rem"
proof -
  from fetchItem_miss [OF assms(1,2)] obtain w1 where
    f: "fetchItem now None r w = (None, w1)" "wok w1" by blast
  have s: "sub64 (rq_Limit r) (rq_Hits r) = rq_Limit r - rq_Hits r"
    using assms(5) by (intro sub64_nonneg) (auto simp: req_ok_def)
  let ?t = "\<lparr>tb_Status = UNDER_LIMIT, tb_Limit = rq_Limit r, tb_Duration = rq_Duration r,
    tb_Remaining = rq_Limit r - rq_Hits r, tb_CreatedAt = c\<rparr>"
  let ?i = "\<lparr>ci_Algorithm = TOKEN_BUCKET, ci_Key = HashKey r, ci_Value = TokenValue ?t,
    ci_ExpireAt = add64 c (rq_Duration r), ci_InvalidAt = 0\<rparr>"
  have run: "tokenBucket now None r reqState w =
      (Inr (mkResp UNDER_LIMIT (rq_Limit r) (rq_Limit r - rq_Hits r) (add64 c (rq_Duration r))), wAdd now ?i w1)"
    using assms(3-6) s
    by (simp add: tokenBucket_def f saneItem_def Let_def tokenBucketNewItem_def countOver_def storeOnChange_def)
  have "wlook (wAdd now ?i w1) (HashKey r) = Some ?i" using wAdd_self [OF f(2), of now ?i] by simp
  moreover have "tb_ok ?t" using assms(5,6) by (auto simp: tb_ok_def req_ok_def)
  ultimately show ?thesis by (auto simp: run bucket_at_def)
qed

theorem reset_on_absent_bucket_charges_witness:
  "fst (tokenBucket time0 None (req0\<lparr>rq_Behavior := RESET_REMAINING\<rparr>) \<lparr>IsOwner = True, WaitCeiling = 0\<rparr> state0) =
   Inr (mkResp UNDER_LIMIT 5 3 1007)"
  using reset_on_absent_bucket_charges [of state0 "req0\<lparr>rq_Behavior := RESET_REMAINING\<rparr>" time0 7
      "\<lparr>IsOwner = True, WaitCeiling = 0\<rparr>"]
  by (simp add: case_prod_beta req_ok_def HasBehavior_def behavior_flags small_arith)

end
