(* ===== verification/LeakyBucket.thy ===== *)
theory LeakyBucket
  imports TokenBucket
begin

text \<open>
  The leaky bucket of \<^verbatim>\<open>algorithms.go\<close>: \<^verbatim>\<open>leakyBucket\<close>, \<^verbatim>\<open>scheduleHits\<close>,
  \<^verbatim>\<open>extendDebtExpiry\<close> and \<^verbatim>\<open>leakyBucketNewItem\<close>. The handler for an item that exists
  is split into the stages of the source: the clock and the configuration that apply, the credit of
  leaked tokens up to the clamp at burst, and the decision. Deferred calls run last, the expiry
  extension before the store's \<^verbatim>\<open>OnChange\<close>. All balances are \<^verbatim>\<open>float64\<close> values.
\<close>

subsection \<open>Configuration\<close>

text \<open>The handler writes the default burst into the request it was given.\<close>

definition withBurst :: "RateLimitReq \<Rightarrow> RateLimitReq" where
  "withBurst r = (if rq_Burst r = 0 then r\<lparr>rq_Burst := rq_Limit r\<rparr> else r)"

record leakyCfg =
  lc_duration :: i64
  lc_rate :: f64
  lc_requestRate :: f64
  lc_creditRate :: f64
  lc_storedRate :: f64
  lc_keepStored :: bool
  lc_rescale :: bool
  lc_burst :: i64
  lc_wasInDebt :: bool
  lc_burstChanged :: bool
  lc_configChanged :: bool

text \<open>A key in debt and any max-wait request are timed by the owner's clock.\<close>

definition lbClock :: "Time \<Rightarrow> RateLimitReq \<Rightarrow> LeakyBucketItem \<Rightarrow> i64 \<Rightarrow> i64" where
  "lbClock now r b createdAt =
     (if rq_MaxWait r > 0 \<or> lb_Remaining b < Fin 0 then epochMillis now else createdAt)"

text \<open>
  The flags of the source, for a request rate and an expiry span that are known: the stored
  configuration is kept by a key in debt when the request's rate follows the calendar or cannot be
  credited, a usable one rescales the debt, and a burst of zero or less does not reach a key in debt.
\<close>

definition storedRateOf :: "LeakyBucketItem \<Rightarrow> f64" where
  "storedRateOf b = rateOf (lb_Duration b) (lb_Limit b)"

definition requestUsable :: "RateLimitReq \<Rightarrow> bool" where
  "requestUsable r \<longleftrightarrow>
     rq_Limit r > 0 \<and> rq_Duration r > 0 \<and> \<not> unusableRate (rateOf (rq_Duration r) (rq_Limit r))"

definition keepsStored :: "RateLimitReq \<Rightarrow> LeakyBucketItem \<Rightarrow> bool" where
  "keepsStored r b \<longleftrightarrow>
     (HasBehavior (rq_Behavior r) DURATION_IS_GREGORIAN \<or> \<not> requestUsable r) \<and>
     lb_Remaining b < Fin 0 \<and> \<not> unusableRate (storedRateOf b)"

definition configChanged :: "RateLimitReq \<Rightarrow> LeakyBucketItem \<Rightarrow> bool" where
  "configChanged r b \<longleftrightarrow> lb_Limit b \<noteq> rq_Limit r \<or> lb_Duration b \<noteq> rq_Duration r"

definition rescales :: "RateLimitReq \<Rightarrow> LeakyBucketItem \<Rightarrow> bool" where
  "rescales r b \<longleftrightarrow>
     \<not> HasBehavior (rq_Behavior r) DURATION_IS_GREGORIAN \<and> requestUsable r \<and>
     lb_Remaining b < Fin 0 \<and> configChanged r b \<and> \<not> unusableRate (storedRateOf b)"

definition effectiveBurst :: "RateLimitReq \<Rightarrow> LeakyBucketItem \<Rightarrow> i64 \<Rightarrow> i64" where
  "effectiveBurst r b createdAt =
     (if debtAt b createdAt \<and>
         (rq_Burst r < 0 \<or> rq_Burst r = 0 \<and> \<not> HasBehavior (rq_Behavior r) RESET_REMAINING)
      then lb_Burst b else rq_Burst r)"

definition lbCfg :: "RateLimitReq \<Rightarrow> LeakyBucketItem \<Rightarrow> i64 \<Rightarrow> i64 \<Rightarrow> f64 \<Rightarrow> leakyCfg" where
  "lbCfg r b createdAt duration requestRate =
     (let rate = (if keepsStored r b then storedRateOf b else requestRate)
      in \<lparr>lc_duration = duration, lc_rate = rate, lc_requestRate = requestRate,
          lc_creditRate = (if rescales r b then storedRateOf b else rate),
          lc_storedRate = storedRateOf b,
          lc_keepStored = keepsStored r b, lc_rescale = rescales r b,
          lc_burst = effectiveBurst r b createdAt,
          lc_wasInDebt = (lb_Remaining b < Fin 0 \<and> \<not> HasBehavior (rq_Behavior r) RESET_REMAINING),
          lc_burstChanged = (lb_Burst b \<noteq> effectiveBurst r b createdAt),
          lc_configChanged = configChanged r b\<rparr>)"

text \<open>A Gregorian request's rate spreads the limit over the whole calendar interval.\<close>

definition lbConfig :: "Time \<Rightarrow> RateLimitReq \<Rightarrow> LeakyBucketItem \<Rightarrow> i64 \<Rightarrow> goerr + leakyCfg" where
  "lbConfig now r b createdAt =
     (if HasBehavior (rq_Behavior r) DURATION_IS_GREGORIAN then
        (case GregorianDuration now (rq_Duration r) of
           Inl e \<Rightarrow> Inl e
         | Inr d \<Rightarrow>
             (case GregorianExpiration now (rq_Duration r) of
                Inl e \<Rightarrow> Inl e
              | Inr expire \<Rightarrow>
                  Inr (lbCfg r b createdAt (sub64 expire (quot (UnixNano now) 1000000))
                         (rateOf d (rq_Limit r)))))
      else Inr (lbCfg r b createdAt (rq_Duration r) (rateOf (rq_Duration r) (rq_Limit r))))"

subsection \<open>Credit\<close>

definition lbLeak :: "leakyCfg \<Rightarrow> i64 \<Rightarrow> LeakyBucketItem \<Rightarrow> LeakyBucketItem" where
  "lbLeak cfg createdAt b =
     (if createdAt > lb_UpdatedAt b
      then b\<lparr>lb_Remaining := lb_Remaining b + creditedLeak b createdAt (lc_creditRate cfg),
             lb_UpdatedAt := createdAt\<rparr>
      else b)"

definition lbRescale :: "leakyCfg \<Rightarrow> LeakyBucketItem \<Rightarrow> LeakyBucketItem" where
  "lbRescale cfg b =
     (if lc_rescale cfg \<and> snapToZero (lb_Remaining b) < Fin 0
      then b\<lparr>lb_Remaining := lb_Remaining b * (lc_storedRate cfg / lc_rate cfg)\<rparr> else b)"

definition lbBurst :: "leakyCfg \<Rightarrow> LeakyBucketItem \<Rightarrow> LeakyBucketItem" where
  "lbBurst cfg b =
     (if lc_burstChanged cfg
      then (if Fin 0 \<le> snapToZero (lb_Remaining b)
            then b\<lparr>lb_Remaining :=
                     fMax (Fin 0) (lb_Remaining b + f64_of_int (sub64 (lc_burst cfg) (lb_Burst b)))\<rparr>
            else b)\<lparr>lb_Burst := lc_burst cfg\<rparr>
      else b)"

definition lbReset :: "leakyCfg \<Rightarrow> RateLimitReq \<Rightarrow> LeakyBucketItem \<Rightarrow> LeakyBucketItem \<times> bool" where
  "lbReset cfg r b =
     (if HasBehavior (rq_Behavior r) RESET_REMAINING
      then (b\<lparr>lb_Remaining := f64_of_int (lc_burst cfg)\<rparr>, snapToZero (lb_Remaining b) < Fin 0)
      else (b, False))"

definition lbClamp :: "LeakyBucketItem \<Rightarrow> LeakyBucketItem" where
  "lbClamp b = b\<lparr>lb_Remaining := snapToZero (fMin (f64_of_int (lb_Burst b)) (lb_Remaining b))\<rparr>"

text \<open>The new configuration is adopted unless the key keeps the one its debt was booked at.\<close>

definition lbAdopt :: "leakyCfg \<Rightarrow> RateLimitReq \<Rightarrow> LeakyBucketItem \<Rightarrow> LeakyBucketItem \<times> f64" where
  "lbAdopt cfg r b =
     (if \<not> lc_keepStored cfg \<or> Fin 0 \<le> lb_Remaining b
      then (b\<lparr>lb_Limit := rq_Limit r, lb_Duration := rq_Duration r\<rparr>, lc_requestRate cfg)
      else (b, lc_rate cfg))"

definition lbCredit ::
  "leakyCfg \<Rightarrow> RateLimitReq \<Rightarrow> i64 \<Rightarrow> LeakyBucketItem \<Rightarrow> LeakyBucketItem \<times> f64 \<times> bool" where
  "lbCredit cfg r createdAt b =
     (let (b1, forgiven) = lbReset cfg r (lbBurst cfg (lbRescale cfg (lbLeak cfg createdAt b)));
          (b2, rate) = lbAdopt cfg r (lbClamp b1)
      in (b2, rate, forgiven))"

definition lbResponse :: "i64 \<Rightarrow> f64 \<Rightarrow> LeakyBucketItem \<Rightarrow> RateLimitResp" where
  "lbResponse createdAt rate b =
     mkResp UNDER_LIMIT (lb_Limit b) (spendableTokens (lb_Remaining b))
       (if lb_Remaining b < Fin 0 then fullAt b rate
        else add64 createdAt (mul64 (sub64 (lb_Limit b) (wholeTokens (lb_Remaining b))) (int64_of rate)))"

subsection \<open>Decision\<close>

text \<open>
  \<^verbatim>\<open>Cache.UpdateExpiration\<close> finds the same object the handler holds, if the key is cached.
\<close>

definition wUpdateExpiration :: "key \<Rightarrow> i64 \<Rightarrow> CacheItem \<Rightarrow> 's wstate \<Rightarrow> CacheItem \<times> 's wstate" where
  "wUpdateExpiration k t item w =
     (let (found, c) = UpdateExpiration k t (w_cache w)
      in (if found then item\<lparr>ci_ExpireAt := t\<rparr> else item, w\<lparr>w_cache := c\<rparr>))"

definition extendDebtExpiry ::
  "CacheItem \<Rightarrow> LeakyBucketItem \<Rightarrow> i64 \<Rightarrow> i64 \<Rightarrow> f64 \<Rightarrow> 's wstate \<Rightarrow> CacheItem \<times> 's wstate" where
  "extendDebtExpiry item b now duration rate w =
     wUpdateExpiration (ci_Key item)
       (max (max (ci_ExpireAt item) (add64 now duration)) (fullAt b rate)) item w"

definition countScheduled :: "bool \<Rightarrow> 's wstate \<Rightarrow> 's wstate" where
  "countScheduled c w =
     (if c then w\<lparr>w_metrics := (w_metrics w)\<lparr>m_Scheduled := Suc (m_Scheduled (w_metrics w))\<rparr>\<rparr> else w)"

definition countCeilingRefused :: "bool \<Rightarrow> 's wstate \<Rightarrow> 's wstate" where
  "countCeilingRefused c w =
     (if c then w\<lparr>w_metrics := (w_metrics w)\<lparr>m_CeilingRefused := Suc (m_CeilingRefused (w_metrics w))\<rparr>\<rparr> else w)"

text \<open>The wait of a request that cannot be admitted now.\<close>

definition scheduleWait :: "RateLimitReq \<Rightarrow> LeakyBucketItem \<Rightarrow> i64 \<Rightarrow> f64 \<Rightarrow> i64" where
  "scheduleWait r b now rate =
     max 1 (millis (Ceil (f64_of_int (sub64 (max (lb_UpdatedAt b) now) now)
                          + (f64_of_int (rq_Hits r) - lb_Remaining b) * rate - Fin eps6)))"

definition scheduleHits ::
  "CacheItem \<Rightarrow> LeakyBucketItem \<Rightarrow> RateLimitReq \<Rightarrow> RateLimitReqState \<Rightarrow> RateLimitResp \<Rightarrow> i64 \<Rightarrow> i64 \<Rightarrow> f64
   \<Rightarrow> bool \<Rightarrow> 's wstate \<Rightarrow> RateLimitResp \<times> LeakyBucketItem \<times> CacheItem \<times> 's wstate" where
  "scheduleHits item b r reqState rl now duration rate wasInDebt w =
     (if rq_Hits r > lb_Burst b \<or> unusableRate rate then
        (rl\<lparr>rs_Status := NEVER_FITS\<rparr>, b, item, countOver (IsOwner reqState) w)
      else if rq_Hits r \<le> wholeTokens (lb_Remaining b) then
        (let b' = b\<lparr>lb_Remaining := snapToZero (lb_Remaining b - f64_of_int (rq_Hits r))\<rparr>;
             rem = spendableTokens (lb_Remaining b');
             rl' = rl\<lparr>rs_Remaining := rem,
                      rs_ResetTime := add64 now (mul64 (sub64 (rs_Limit rl) rem) (int64_of rate))\<rparr>;
             (item', w') = (if wasInDebt then extendDebtExpiry item b' now duration rate w else (item, w))
         in (rl', b', item', w'))
      else
        (let wait = scheduleWait r b now rate;
             ceiling = Milliseconds (WaitCeiling reqState)
         in if wait > min (rq_MaxWait r) ceiling then
              (rl\<lparr>rs_Status := OVER_LIMIT, rs_RetryAfter := wait\<rparr>, b, item,
               countCeilingRefused (IsOwner reqState \<and> wait > ceiling \<and> wait \<le> rq_MaxWait r)
                 (countOver (IsOwner reqState) w))
            else
              (let b' = b\<lparr>lb_Remaining := lb_Remaining b - f64_of_int (rq_Hits r)\<rparr>;
                   rl' = rl\<lparr>rs_Status := SCHEDULED, rs_RetryAfter := wait, rs_Remaining := 0,
                            rs_ResetTime := fullAt b' rate\<rparr>;
                   (item', w') = extendDebtExpiry item b' now duration rate
                                   (countScheduled (IsOwner reqState) w)
               in (rl', b', item', w'))))"

definition lbDecide ::
  "CacheItem \<Rightarrow> LeakyBucketItem \<Rightarrow> RateLimitReq \<Rightarrow> RateLimitReqState \<Rightarrow> i64 \<Rightarrow> leakyCfg \<Rightarrow> f64
   \<Rightarrow> 's wstate \<Rightarrow> RateLimitResp \<times> LeakyBucketItem \<times> CacheItem \<times> 's wstate" where
  "lbDecide item b r reqState createdAt cfg rate w =
     (let rl = lbResponse createdAt rate b; duration = lc_duration cfg in
      if rq_Hits r = 0 then (rl, b, item, w)
      else if rq_MaxWait r > 0 then
        scheduleHits item b r reqState rl createdAt duration rate (lc_wasInDebt cfg) w
      else if rq_Hits r < 0 \<and> lb_Remaining b < Fin 0 then
        (let (item', w') = extendDebtExpiry item b createdAt duration rate w in (rl, b, item', w'))
      else if rq_Hits r > wholeTokens (lb_Remaining b) then
        (let w' = countOver (IsOwner reqState) w; rl' = rl\<lparr>rs_Status := OVER_LIMIT\<rparr> in
         if HasBehavior (rq_Behavior r) DRAIN_OVER_LIMIT
         then (rl'\<lparr>rs_Remaining := 0\<rparr>, b\<lparr>lb_Remaining := fMin (lb_Remaining b) (Fin 0)\<rparr>, item, w')
         else (rl', b, item, w'))
      else
        (let b' = b\<lparr>lb_Remaining := snapToZero (fMin (f64_of_int (lb_Burst b))
                                                    (lb_Remaining b - f64_of_int (rq_Hits r)))\<rparr>;
             rem = wholeTokens (lb_Remaining b');
             rl' = rl\<lparr>rs_Remaining := rem,
                      rs_ResetTime := add64 createdAt (mul64 (sub64 (rs_Limit rl) rem) (int64_of rate))\<rparr>;
             (item', w') = (if lc_wasInDebt cfg then extendDebtExpiry item b' createdAt duration rate w
                            else (item, w))
         in (rl', b', item', w')))"

subsection \<open>The handler\<close>

definition leakyBucketExisting ::
  "Time \<Rightarrow> 's StoreOps option \<Rightarrow> RateLimitReq \<Rightarrow> RateLimitReqState \<Rightarrow> i64 \<Rightarrow> CacheItem \<Rightarrow> LeakyBucketItem
   \<Rightarrow> 's wstate \<Rightarrow> (goerr + RateLimitResp) \<times> 's wstate" where
  "leakyBucketExisting now st r reqState createdAt0 item0 b0 w0 =
     (let createdAt = lbClock now r b0 createdAt0
      in case lbConfig now r b0 createdAt of
           Inl e \<Rightarrow> (Inl e, w0)
         | Inr cfg \<Rightarrow>
             (let (item1, w1) =
                (if rq_Hits r \<noteq> 0 \<and> \<not> lc_wasInDebt cfg
                 then wUpdateExpiration (HashKey r) (add64 createdAt (lc_duration cfg)) item0 w0
                 else (item0, w0));
                  (b1, rate, forgiven) = lbCredit cfg r createdAt b0;
                  w2 = countDebtReset forgiven w1;
                  (rl, b2, item2, w3) = lbDecide item1 b1 r reqState createdAt cfg rate w2;
                  (item3, w4) =
                    (if lc_wasInDebt cfg \<and> (lc_burstChanged cfg \<or> lc_configChanged cfg) \<and> \<not> unusableRate rate
                     then extendDebtExpiry item2 b2 createdAt (lc_duration cfg) rate w3
                     else (item2, w3));
                  item4 = item3\<lparr>ci_Value := LeakyValue b2\<rparr>
              in (Inr rl, storeOnChange st (IsOwner reqState) r item4 (wPut item4 w4))))"

definition leakyBucketNewItem ::
  "Time \<Rightarrow> 's StoreOps option \<Rightarrow> RateLimitReq \<Rightarrow> RateLimitReqState \<Rightarrow> 's wstate
   \<Rightarrow> (goerr + RateLimitResp) \<times> 's wstate" where
  "leakyBucketNewItem now st r reqState w =
     (case rq_CreatedAt r of
        None \<Rightarrow> (Inl nilCreatedAt, w)
      | Some createdAt0 \<Rightarrow>
          (let createdAt = (if rq_MaxWait r > 0 then epochMillis now else createdAt0);
               rate = rateOf (rq_Duration r) (rq_Limit r);
               reset = (\<lambda>rem. add64 createdAt (mul64 (sub64 (rq_Limit r) rem) (int64_of rate)))
           in case (if HasBehavior (rq_Behavior r) DURATION_IS_GREGORIAN
                    then (case GregorianExpiration now (rq_Duration r) of
                            Inl e \<Rightarrow> Inl e
                          | Inr expire \<Rightarrow> Inr (sub64 expire (quot (UnixNano now) 1000000)))
                    else Inr (rq_Duration r)) of
                Inl e \<Rightarrow> (Inl e, w)
              | Inr duration \<Rightarrow>
                  if rq_MaxWait r > 0 \<and> rq_Hits r > rq_Burst r then
                    (Inr (mkResp NEVER_FITS (rq_Limit r) (rq_Burst r) (reset (rq_Burst r))),
                     countOver (IsOwner reqState) w)
                  else
                    (let remaining = min (rq_Burst r) (sub64 (rq_Burst r) (rq_Hits r));
                         over = rq_Hits r > rq_Burst r;
                         rem = (if over then 0 else remaining);
                         b = \<lparr>lb_Limit = rq_Limit r, lb_Duration = duration, lb_Remaining = f64_of_int rem,
                              lb_UpdatedAt = createdAt, lb_Burst = rq_Burst r\<rparr>;
                         rl = mkResp (if over then OVER_LIMIT else UNDER_LIMIT) (rq_Limit r) rem (reset rem);
                         item = \<lparr>ci_Algorithm = rq_Algorithm r, ci_Key = HashKey r, ci_Value = LeakyValue b,
                                 ci_ExpireAt = add64 createdAt duration, ci_InvalidAt = 0\<rparr>;
                         w2 = wAdd now item (countOver (over \<and> IsOwner reqState) w)
                     in (Inr rl, storeOnChange st (IsOwner reqState) r item w2))))"

definition leakyBucket ::
  "Time \<Rightarrow> 's StoreOps option \<Rightarrow> RateLimitReq \<Rightarrow> RateLimitReqState \<Rightarrow> 's wstate
   \<Rightarrow> (goerr + RateLimitResp) \<times> 's wstate" where
  "leakyBucket now st r0 reqState w =
     (let r = withBurst r0 in
      case rq_CreatedAt r of
        None \<Rightarrow> (Inl nilCreatedAt, w)
      | Some createdAt \<Rightarrow>
          (let hashKey = HashKey r;
               (found, w1) = fetchItem now st r w
           in case saneItem hashKey found of
                None \<Rightarrow> leakyBucketNewItem now st r reqState w1
              | Some item \<Rightarrow>
                  (case ci_Value item of
                     LeakyValue b \<Rightarrow> leakyBucketExisting now st r reqState createdAt item b w1
                   | _ \<Rightarrow> leakyBucketNewItem now st r reqState
                            (storeRemove st hashKey (wRemove hashKey w1)))))"

subsection \<open>The answers\<close>

text \<open>
  What a caller may rely on: a plain request is told under or over limit and no wait; a max-wait
  request that is scheduled waits at least a millisecond and no longer than it and the server
  allow; one that is refused learns a wait that exceeds what is allowed.
\<close>

definition answer_ok :: "RateLimitReq \<Rightarrow> RateLimitReqState \<Rightarrow> RateLimitResp \<Rightarrow> bool" where
  "answer_ok r reqState rl \<longleftrightarrow>
     (let allowed = min (rq_MaxWait r) (Milliseconds (WaitCeiling reqState))
      in if rq_MaxWait r \<le> 0
         then (rs_Status rl = UNDER_LIMIT \<or> rs_Status rl = OVER_LIMIT) \<and> rs_RetryAfter rl = 0
         else (case rs_Status rl of
                 SCHEDULED \<Rightarrow> 1 \<le> rs_RetryAfter rl \<and> rs_RetryAfter rl \<le> allowed
               | OVER_LIMIT \<Rightarrow> 1 \<le> rs_RetryAfter rl \<and> allowed < rs_RetryAfter rl
               | _ \<Rightarrow> rs_RetryAfter rl = 0))"

lemma scheduleWait_pos: "1 \<le> scheduleWait r b now rate"
  by (simp add: scheduleWait_def)

lemma lbResponse_sel [simp]:
  "rs_Status (lbResponse t rate b) = UNDER_LIMIT" "rs_RetryAfter (lbResponse t rate b) = 0"
  "rs_Limit (lbResponse t rate b) = lb_Limit b"
  "rs_Remaining (lbResponse t rate b) = spendableTokens (lb_Remaining b)"
  by (simp_all add: lbResponse_def mkResp_def)

lemma scheduleHits_answer:
  assumes "rs_Status rl = UNDER_LIMIT" "rs_RetryAfter rl = 0" "0 < rq_MaxWait r"
    and "scheduleHits item b r reqState rl now duration rate wasInDebt w = (rl', rest)"
  shows "answer_ok r reqState rl'"
  using assms scheduleWait_pos [of r b now rate]
  by (auto simp: scheduleHits_def answer_ok_def Let_def case_prod_beta split: if_splits)

lemma lbDecide_answer:
  assumes "lbDecide item b r reqState createdAt cfg rate w = (rl, rest)"
  shows "answer_ok r reqState rl"
proof (cases "rq_Hits r \<noteq> 0 \<and> 0 < rq_MaxWait r")
  case True
  then show ?thesis
    using assms
    by (intro scheduleHits_answer [where rl = "lbResponse createdAt rate b" and rest = rest])
      (auto simp: lbDecide_def Let_def)
next
  case False
  then show ?thesis
    using assms by (auto simp: lbDecide_def answer_ok_def Let_def case_prod_beta split: if_splits)
qed

lemma leakyBucketNewItem_answer:
  "fst (leakyBucketNewItem now st r reqState w) = Inr rl \<Longrightarrow> answer_ok r reqState rl"
  by (auto simp: leakyBucketNewItem_def answer_ok_def mkResp_def Let_def
      split: option.splits sum.splits if_splits)

lemma leakyBucketExisting_answer:
  assumes "fst (leakyBucketExisting now st r reqState c item b w) = Inr rl"
  shows "answer_ok r reqState rl"
proof (cases "lbConfig now r b (lbClock now r b c)")
  case (Inr cfg)
  let ?t = "lbClock now r b c"
  obtain item1 w1 where u: "(if rq_Hits r \<noteq> 0 \<and> \<not> lc_wasInDebt cfg
      then wUpdateExpiration (HashKey r) (add64 ?t (lc_duration cfg)) item w else (item, w)) = (item1, w1)"
    by fastforce
  obtain b1 rate f where cr: "lbCredit cfg r ?t b = (b1, rate, f)" by (metis prod_cases3)
  obtain rl' b2 item2 w3 where d:
    "lbDecide item1 b1 r reqState ?t cfg rate (countDebtReset f w1) = (rl', b2, item2, w3)"
    by (metis prod_cases4)
  have "rl = rl'"
    using assms by (simp add: leakyBucketExisting_def Inr u cr d case_prod_beta Let_def)
  then show ?thesis using lbDecide_answer [OF d] by simp
qed (use assms in \<open>simp add: leakyBucketExisting_def\<close>)

subsection \<open>The cached object through the handler\<close>

text \<open>The handler's item is the cached one, and only its key's entry differs from the state before.\<close>

definition tracks :: "key \<Rightarrow> 's wstate \<Rightarrow> CacheItem \<times> 's wstate \<Rightarrow> bool" where
  "tracks k w0 = (\<lambda>(item, w). wok w \<and> wlook w k = Some item \<and> ci_Key item = k \<and>
     (\<forall>k'. k' \<noteq> k \<longrightarrow> wlook w k' = wlook w0 k') \<and> w_store w = w_store w0)"

lemma wlook_count [simp]:
  "wlook (countScheduled c w) = wlook w" "wlook (countCeilingRefused c w) = wlook w"
  "wok (countScheduled c w) = wok w" "wok (countCeilingRefused c w) = wok w"
  "w_store (countScheduled c w) = w_store w" "w_store (countCeilingRefused c w) = w_store w"
  by (simp_all add: countScheduled_def countCeilingRefused_def wlook_def wok_def wcache_def lru_ok_def
      fun_eq_iff)

lemma tracks_count [simp]:
  "tracks k w0 (item, countScheduled c w) = tracks k w0 (item, w)"
  "tracks k w0 (item, countCeilingRefused c w) = tracks k w0 (item, w)"
  "tracks k w0 (item, countOver c w) = tracks k w0 (item, w)"
  "tracks k w0 (item, countDebtReset c w) = tracks k w0 (item, w)"
  by (simp_all add: tracks_def)

lemma wUpdateExpiration_tracked:
  assumes "wok w" "wlook w k = Some item" "ci_Key item = k"
  shows "wUpdateExpiration k t item w = (item\<lparr>ci_ExpireAt := t\<rparr>, wPut (item\<lparr>ci_ExpireAt := t\<rparr>) w)"
proof -
  have "lru_core (w_cache w)" using assms(1) by (simp add: wok_def wcache_def lru_ok_iff lru_inv_core)
  from UpdateExpiration_eq [OF this, of k t] assms(2,3) show ?thesis
    by (simp add: wUpdateExpiration_def wPut_def wlook_def)
qed

lemma tracks_wPut:
  "tracks k w0 (item, w) \<Longrightarrow> ci_Key item' = k \<Longrightarrow> tracks k w0 (item', wPut item' w)"
  by (auto simp: tracks_def wPut_wlook)

lemma tracks_expire:
  "tracks k w0 (item, w) \<Longrightarrow> tracks k w0 (item\<lparr>ci_ExpireAt := t\<rparr>, wPut (item\<lparr>ci_ExpireAt := t\<rparr>) w)"
  using tracks_wPut [of k w0 item w "item\<lparr>ci_ExpireAt := t\<rparr>"] by (simp add: tracks_def)

lemma tracks_wUpdateExpiration:
  "tracks k w0 (item, w) \<Longrightarrow>
   wUpdateExpiration k t item w = (item\<lparr>ci_ExpireAt := t\<rparr>, wPut (item\<lparr>ci_ExpireAt := t\<rparr>) w)"
  by (rule wUpdateExpiration_tracked) (simp_all add: tracks_def)

lemma tracks_extendDebtExpiry:
  assumes "tracks k w0 (item, w)"
  shows "extendDebtExpiry item b now duration rate w =
    (let i = item\<lparr>ci_ExpireAt := max (max (ci_ExpireAt item) (add64 now duration)) (fullAt b rate)\<rparr>
     in (i, wPut i w))"
proof -
  have "ci_Key item = k" using assms by (simp add: tracks_def)
  then show ?thesis using tracks_wUpdateExpiration [OF assms] by (simp add: extendDebtExpiry_def Let_def)
qed

text \<open>The answer and the bucket do not depend on the item's expiry or on the cache.\<close>

definition decision :: "LeakyBucketItem \<Rightarrow> RateLimitReq \<Rightarrow> RateLimitReqState \<Rightarrow> i64 \<Rightarrow> f64
    \<Rightarrow> RateLimitResp \<times> LeakyBucketItem" where
  "decision b r reqState t rate =
     (let rl = lbResponse t rate b;
          reset = (\<lambda>rem. add64 t (mul64 (sub64 (lb_Limit b) rem) (int64_of rate)));
          whole = wholeTokens (lb_Remaining b); charged = lb_Remaining b - f64_of_int (rq_Hits r)
      in if rq_Hits r = 0 then (rl, b)
         else if rq_MaxWait r > 0 then
           (if rq_Hits r > lb_Burst b \<or> unusableRate rate then (rl\<lparr>rs_Status := NEVER_FITS\<rparr>, b)
            else if rq_Hits r \<le> whole then
              (let b' = b\<lparr>lb_Remaining := snapToZero charged\<rparr>; rem = spendableTokens (lb_Remaining b')
               in (rl\<lparr>rs_Remaining := rem, rs_ResetTime := reset rem\<rparr>, b'))
            else
              (let wait = scheduleWait r b t rate
               in if wait > min (rq_MaxWait r) (Milliseconds (WaitCeiling reqState))
                  then (rl\<lparr>rs_Status := OVER_LIMIT, rs_RetryAfter := wait\<rparr>, b)
                  else (let b' = b\<lparr>lb_Remaining := charged\<rparr>
                        in (rl\<lparr>rs_Status := SCHEDULED, rs_RetryAfter := wait, rs_Remaining := 0,
                               rs_ResetTime := fullAt b' rate\<rparr>, b'))))
         else if rq_Hits r < 0 \<and> lb_Remaining b < Fin 0 then (rl, b)
         else if rq_Hits r > whole then
           (if HasBehavior (rq_Behavior r) DRAIN_OVER_LIMIT
            then (rl\<lparr>rs_Status := OVER_LIMIT, rs_Remaining := 0\<rparr>,
                  b\<lparr>lb_Remaining := fMin (lb_Remaining b) (Fin 0)\<rparr>)
            else (rl\<lparr>rs_Status := OVER_LIMIT\<rparr>, b))
         else
           (let b' = b\<lparr>lb_Remaining := snapToZero (fMin (f64_of_int (lb_Burst b)) charged)\<rparr>;
                rem = wholeTokens (lb_Remaining b')
            in (rl\<lparr>rs_Remaining := rem, rs_ResetTime := reset rem\<rparr>, b')))"

lemma lbDecide_decision:
  assumes "lbDecide item b r reqState t cfg rate w = (rl, b', item', w')"
  shows "decision b r reqState t rate = (rl, b')"
  using assms
  by (auto simp: lbDecide_def scheduleHits_def decision_def Let_def case_prod_beta split: if_splits)

lemma lbDecide_tracks:
  assumes "tracks k w0 (item, w)" and "lbDecide item b r reqState t cfg rate w = (rl, b', item', w')"
  shows "tracks k w0 (item', w')" and "ci_ExpireAt item \<le> ci_ExpireAt item'"
    and "rs_Status rl = SCHEDULED \<Longrightarrow> fullAt b' rate \<le> ci_ExpireAt item'"
    and "ci_InvalidAt item' = ci_InvalidAt item"
proof -
  have tr: "tracks k w0 (item, countScheduled (IsOwner reqState) w)" using assms(1) by simp
  note E = tracks_extendDebtExpiry [OF assms(1)] tracks_extendDebtExpiry [OF tr]
    tracks_expire [OF assms(1)] tracks_expire [OF tr]
  show "tracks k w0 (item', w')" and "ci_ExpireAt item \<le> ci_ExpireAt item'"
    and "rs_Status rl = SCHEDULED \<Longrightarrow> fullAt b' rate \<le> ci_ExpireAt item'"
    and "ci_InvalidAt item' = ci_InvalidAt item"
    using assms by (auto simp: lbDecide_def scheduleHits_def Let_def E split: if_splits)
qed

text \<open>The whole handler on a live leaky bucket.\<close>

lemma leakyBucket_live:
  assumes "wok w" "wlook w (HashKey r) = Some i" "\<not> IsExpired now i" "ci_Value i = LeakyValue b"
    and "rq_CreatedAt r = Some c"
  defines "t \<equiv> lbClock now (withBurst r) b c"
  assumes cfg: "lbConfig now (withBurst r) b t = Inr cfg"
    and cr: "lbCredit cfg (withBurst r) t b = (b1, rate, f)"
    and de: "decision b1 (withBurst r) reqState t rate = (rl, b2)"
    and res: "leakyBucket now st r reqState w = (out, w')"
  obtains i' where "out = Inr rl" "wok w'" "wlook w' (HashKey r) = Some i'" "ci_Value i' = LeakyValue b2"
    "ci_Key i' = HashKey r" "ci_InvalidAt i' = ci_InvalidAt i"
    "\<And>k. k \<noteq> HashKey r \<Longrightarrow> wlook w' k = wlook w k"
    "rs_Status rl = SCHEDULED \<Longrightarrow> fullAt b2 rate \<le> ci_ExpireAt i'"
    "lc_wasInDebt cfg \<or> rq_Hits r = 0 \<Longrightarrow> ci_ExpireAt i \<le> ci_ExpireAt i'"
    "rq_Hits r \<noteq> 0 \<Longrightarrow> \<not> lc_wasInDebt cfg \<Longrightarrow> add64 t (lc_duration cfg) \<le> ci_ExpireAt i'"
proof -
  let ?r = "withBurst r" and ?k = "HashKey r"
  have r: "HashKey ?r = ?k" "rq_CreatedAt ?r = Some c" "rq_Hits ?r = rq_Hits r"
    using assms(5) by (simp_all add: withBurst_def HashKey_def)
  from fetchItem_hit [OF assms(1), of ?r i now st] assms(2,3) r(1) obtain w1 where
    f: "fetchItem now st ?r w = (Some i, w1)" "wok w1" "wlook w1 = wlook w" "w_store w1 = w_store w" by metis
  have key: "ci_Key i = ?k" using assms(2) lookup_Key by (auto simp: wlook_def)
  have sane: "saneItem ?k (Some i) = Some i" using assms(4) key by (simp add: saneItem_def)
  have t0: "tracks ?k w1 (i, w1)" using f assms(2) key by (simp add: tracks_def)
  obtain item1 w2 where u: "(if rq_Hits r \<noteq> 0 \<and> \<not> lc_wasInDebt cfg
      then wUpdateExpiration (HashKey ?r) (add64 t (lc_duration cfg)) i w1 else (i, w1)) = (item1, w2)" by fastforce
  have t1: "tracks ?k w1 (item1, w2)" "ci_InvalidAt item1 = ci_InvalidAt i"
    "lc_wasInDebt cfg \<or> rq_Hits r = 0 \<Longrightarrow> item1 = i"
    "rq_Hits r \<noteq> 0 \<Longrightarrow> \<not> lc_wasInDebt cfg \<Longrightarrow> ci_ExpireAt item1 = add64 t (lc_duration cfg)"
    using u t0 tracks_expire [OF t0] by (auto simp: r tracks_wUpdateExpiration [OF t0] split: if_splits)
  then have t1': "tracks ?k w1 (item1, countDebtReset f w2)" by simp
  obtain rl' b' item2 w3 where d:
    "lbDecide item1 b1 ?r reqState t cfg rate (countDebtReset f w2) = (rl', b', item2, w3)" by (metis prod_cases4)
  have rb: "rl' = rl" "b' = b2" using lbDecide_decision [OF d] de by simp_all
  note D = lbDecide_tracks [OF t1' d, unfolded rb]
  obtain item3 w4 where x: "(if lc_wasInDebt cfg \<and> (lc_burstChanged cfg \<or> lc_configChanged cfg) \<and> \<not> unusableRate rate
      then extendDebtExpiry item2 b2 t (lc_duration cfg) rate w3 else (item2, w3)) = (item3, w4)" by fastforce
  have t3: "tracks ?k w1 (item3, w4)" "ci_ExpireAt item2 \<le> ci_ExpireAt item3" "ci_InvalidAt item3 = ci_InvalidAt item2"
    using x D(1) tracks_expire [OF D(1)]
    by (auto simp: tracks_extendDebtExpiry [OF D(1)] Let_def split: if_splits)
  let ?i = "item3\<lparr>ci_Value := LeakyValue b2\<rparr>"
  have "tracks ?k w1 (?i, wPut ?i w4)" using tracks_wPut [OF t3(1), of ?i] t3(1) by (simp add: tracks_def)
  moreover have "(out, w') = (Inr rl, storeOnChange st (IsOwner reqState) ?r ?i (wPut ?i w4))"
    using res cfg cr u d x rb
    by (simp add: leakyBucket_def r(2,3) r(1) f sane assms(4) leakyBucketExisting_def Let_def flip: t_def)
  ultimately show thesis
    using that [of ?i] f D t1 t3 by (fastforce simp: tracks_def)
qed

subsection \<open>The balance is a number, at most the burst\<close>

definition lb_wf :: "LeakyBucketItem \<Rightarrow> bool" where
  "lb_wf b \<longleftrightarrow> wf64 (lb_Remaining b) \<and> lb_Remaining b \<le> f64_of_int (lb_Burst b) \<and>
     0 \<le> lb_Burst b \<and> in64 (lb_Burst b) \<and> in64 (lb_Limit b) \<and> in64 (lb_Duration b)"

text \<open>
  A well-formed leaky request: positive limit, a positive (or Gregorian) duration, no negative
  burst, and non-negative hits when it asks to be scheduled.
\<close>

definition leaky_req_ok :: "Time \<Rightarrow> RateLimitReq \<Rightarrow> bool" where
  "leaky_req_ok now r \<longleftrightarrow>
     0 < rq_Limit r \<and> in64 (rq_Limit r) \<and> in64 (rq_Duration r) \<and> 0 \<le> rq_Burst r \<and> in64 (rq_Burst r) \<and>
     in64 (rq_Hits r) \<and> (0 < rq_MaxWait r \<longrightarrow> 0 \<le> rq_Hits r) \<and>
     (if HasBehavior (rq_Behavior r) DURATION_IS_GREGORIAN
      then (case GregorianDuration now (rq_Duration r) of Inl _ \<Rightarrow> True | Inr d \<Rightarrow> 0 < d \<and> in64 d)
      else 0 < rq_Duration r)"

definition cfg_ok :: "leakyCfg \<Rightarrow> bool" where
  "cfg_ok cfg \<longleftrightarrow> good_rate (lc_creditRate cfg) \<and>
     (lc_rescale cfg \<longrightarrow> good_rate (lc_storedRate cfg) \<and> good_rate (lc_rate cfg)) \<and>
     0 \<le> lc_burst cfg \<and> in64 (lc_burst cfg)"

lemma leaky_req_ok_withBurst: "leaky_req_ok now r \<Longrightarrow> leaky_req_ok now (withBurst r)"
  by (simp add: leaky_req_ok_def withBurst_def)

lemma lbCfg_ok:
  assumes "leaky_req_ok now r" "lb_wf b" "keepsStored r b \<or> good_rate rate"
  shows "cfg_ok (lbCfg r b t duration rate)"
proof -
  have st: "good_rate (storedRateOf b)" if "\<not> unusableRate (storedRateOf b)"
    using that assms(2) unfolding storedRateOf_def by (intro good_rate_usable) (auto simp: lb_wf_def)
  have k: "keepsStored r b \<Longrightarrow> good_rate (storedRateOf b)" and s: "rescales r b \<Longrightarrow> good_rate (storedRateOf b)"
    using st by (simp_all add: keepsStored_def rescales_def)
  have "rescales r b \<Longrightarrow> \<not> keepsStored r b" by (auto simp: keepsStored_def rescales_def)
  moreover have "0 \<le> effectiveBurst r b t" "in64 (effectiveBurst r b t)"
    using assms(1,2) by (auto simp: effectiveBurst_def leaky_req_ok_def lb_wf_def)
  ultimately show ?thesis using k s assms(3) by (auto simp: cfg_ok_def lbCfg_def Let_def)
qed

lemma lbConfig_ok:
  assumes "lbConfig now r b t = Inr cfg" "leaky_req_ok now r" "lb_wf b"
  shows "cfg_ok cfg"
proof (cases "HasBehavior (rq_Behavior r) DURATION_IS_GREGORIAN")
  case True
  then obtain d where d: "GregorianDuration now (rq_Duration r) = Inr d"
    using assms(1) by (auto simp: lbConfig_def split: sum.splits)
  then have "good_rate (rateOf d (rq_Limit r))"
    using True assms(2) by (intro good_rate_pos) (auto simp: leaky_req_ok_def)
  then show ?thesis
    using lbCfg_ok [OF assms(2,3)] assms(1) True d by (auto simp: lbConfig_def split: sum.splits)
next
  case False
  then have "good_rate (rateOf (rq_Duration r) (rq_Limit r))"
    using assms(2) by (intro good_rate_pos) (auto simp: leaky_req_ok_def)
  then show ?thesis using lbCfg_ok [OF assms(2,3)] assms(1) False by (auto simp: lbConfig_def)
qed

definition num :: "LeakyBucketItem \<Rightarrow> bool" where
  "num b \<longleftrightarrow> wf64 (lb_Remaining b) \<and> lb_Remaining b \<noteq> NaN"

lemma num_lbLeak: "cfg_ok cfg \<Longrightarrow> num b \<Longrightarrow> num (lbLeak cfg t b)"
  by (simp add: num_def lbLeak_def cfg_ok_def plus_not_NaN creditedLeak_val(1))

lemma num_lbRescale:
  assumes "cfg_ok cfg" "num b"
  shows "num (lbRescale cfg b)"
proof (cases "lc_rescale cfg")
  case True
  then have "is_fin (lc_storedRate cfg / lc_rate cfg)" "0 < val (lc_storedRate cfg / lc_rate cfg)"
    using assms(1) good_rate_ratio by (auto simp: cfg_ok_def)
  then show ?thesis using assms(2) times_not_NaN by (auto simp: num_def lbRescale_def)
qed (use assms in \<open>simp add: lbRescale_def\<close>)

lemma wf64_fMax: "wf64 a \<Longrightarrow> wf64 b \<Longrightarrow> wf64 (fMax a b)"
  and wf64_fMin: "wf64 a \<Longrightarrow> wf64 b \<Longrightarrow> wf64 (fMin a b)"
  by (simp_all add: fMax_def fMin_def)

lemma num_lbBurst: "num b \<Longrightarrow> num (lbBurst cfg b)"
  by (simp add: num_def lbBurst_def wf64_fMax f64_of_int_fin fMax_not_NaN plus_not_NaN)

lemma num_lbReset: "num b \<Longrightarrow> num (fst (lbReset cfg r b))"
  by (auto simp: num_def lbReset_def)

lemma lbLeak_sel [simp]:
  "lb_Burst (lbLeak cfg t b) = lb_Burst b" "lb_Limit (lbLeak cfg t b) = lb_Limit b"
  "lb_Duration (lbLeak cfg t b) = lb_Duration b"
  by (simp_all add: lbLeak_def)

lemma lbRescale_sel [simp]:
  "lb_Burst (lbRescale cfg b) = lb_Burst b" "lb_Limit (lbRescale cfg b) = lb_Limit b"
  "lb_Duration (lbRescale cfg b) = lb_Duration b" "lb_UpdatedAt (lbRescale cfg b) = lb_UpdatedAt b"
  by (simp_all add: lbRescale_def)

lemma lbBurst_sel [simp]:
  "lb_Burst (lbBurst cfg b) = (if lc_burstChanged cfg then lc_burst cfg else lb_Burst b)"
  "lb_Limit (lbBurst cfg b) = lb_Limit b" "lb_Duration (lbBurst cfg b) = lb_Duration b"
  "lb_UpdatedAt (lbBurst cfg b) = lb_UpdatedAt b"
  by (simp_all add: lbBurst_def)

lemma lbReset_sel [simp]:
  "lb_Burst (fst (lbReset cfg r b)) = lb_Burst b" "lb_Limit (fst (lbReset cfg r b)) = lb_Limit b"
  "lb_Duration (fst (lbReset cfg r b)) = lb_Duration b" "lb_UpdatedAt (fst (lbReset cfg r b)) = lb_UpdatedAt b"
  by (simp_all add: lbReset_def)

lemma lbClamp_wf:
  assumes "num b" "0 \<le> lb_Burst b" "in64 (lb_Burst b)" "in64 (lb_Limit b)" "in64 (lb_Duration b)"
  shows "lb_wf (lbClamp b)"
proof -
  let ?B = "f64_of_int (lb_Burst b)"
  have B: "is_fin ?B" "0 \<le> val ?B" using assms(2,3) f64_of_int_fin(1) f64_of_int_nonneg by auto
  have "fMin ?B (lb_Remaining b) \<le> ?B" using fMin_le(2) [of ?B] assms(1) by (simp add: num_def)
  then have "snapToZero (fMin ?B (lb_Remaining b)) \<le> ?B" using B by (intro snapToZero_le) simp_all
  then show ?thesis
    using assms by (simp add: lb_wf_def lbClamp_def num_def wf64_snapToZero wf64_fMin)
qed

lemma lbCredit_wf:
  assumes "lbCredit cfg r t b = (b', rate, f)" "cfg_ok cfg" "lb_wf b" "leaky_req_ok now r"
  shows "lb_wf b'" "snapToZero (lb_Remaining b') = lb_Remaining b'"
proof -
  have "num b" using assms(3) le_not_NaN by (auto simp: lb_wf_def num_def)
  then have "num (fst (lbReset cfg r (lbBurst cfg (lbRescale cfg (lbLeak cfg t b)))))"
    using assms(2) by (intro num_lbReset num_lbBurst num_lbRescale num_lbLeak)
  then have wf: "lb_wf (lbClamp (fst (lbReset cfg r (lbBurst cfg (lbRescale cfg (lbLeak cfg t b))))))"
    using assms(2,3) by (intro lbClamp_wf) (auto simp: cfg_ok_def lb_wf_def)
  have b': "b' = fst (lbAdopt cfg r (lbClamp (fst (lbReset cfg r (lbBurst cfg (lbRescale cfg (lbLeak cfg t b)))))))"
    using assms(1) by (simp add: lbCredit_def case_prod_beta Let_def)
  show "lb_wf b'" using wf assms(4) by (auto simp: b' lbAdopt_def lb_wf_def leaky_req_ok_def)
  show "snapToZero (lb_Remaining b') = lb_Remaining b'" by (simp add: b' lbAdopt_def lbClamp_def)
qed

lemma decision_wf:
  assumes "decision b r reqState t rate = (rl, b')" "lb_wf b" "leaky_req_ok now r"
  shows "lb_wf b'"
proof -
  let ?B = "f64_of_int (lb_Burst b)" and ?h = "f64_of_int (rq_Hits r)"
  have B: "is_fin ?B" "0 \<le> val ?B" "?B \<noteq> NaN" "wf64 ?B"
    using assms(2) f64_of_int_fin(1) f64_of_int_nonneg by (auto simp: lb_wf_def)
  have h: "is_fin ?h" using assms(3) by (simp add: leaky_req_ok_def f64_of_int_fin)
  have x: "lb_Remaining b \<le> ?B" "lb_Remaining b \<noteq> NaN" using assms(2) le_not_NaN by (auto simp: lb_wf_def)
  have drain: "fMin (lb_Remaining b) (Fin 0) \<le> ?B" "wf64 (fMin (lb_Remaining b) (Fin 0))"
    using fMin_le(2) [OF x(2), of "Fin 0"] x(1) f64_le_trans assms(2) by (auto simp: lb_wf_def wf64_fMin)
  have plain: "snapToZero (fMin ?B (lb_Remaining b - ?h)) \<le> ?B" "wf64 (snapToZero (fMin ?B (lb_Remaining b - ?h)))"
    using fMin_le(2) [OF B(3), of "lb_Remaining b - ?h"] minus_not_NaN [OF x(2) h] B
    by (auto intro: snapToZero_le wf64_snapToZero simp: wf64_fMin)
  have sched: "lb_Remaining b - ?h \<le> ?B" "snapToZero (lb_Remaining b - ?h) \<le> ?B"
    if "0 < rq_MaxWait r"
  proof -
    have "0 \<le> val ?h" using that assms(3) by (auto simp: leaky_req_ok_def f64_of_int_nonneg)
    then show "lb_Remaining b - ?h \<le> ?B" using minus_nonneg_le [OF x(1) B(1,4) h] by simp
    then show "snapToZero (lb_Remaining b - ?h) \<le> ?B" using B by (intro snapToZero_le) simp_all
  qed
  show ?thesis
    using assms(1,2) drain plain sched
    by (auto simp: decision_def Let_def lb_wf_def wf64_snapToZero split: if_splits)
qed

text \<open>A property of items that is \<open>lb_wf\<close> on leaky buckets.\<close>

definition leaky_inv :: "(CacheItem \<Rightarrow> bool) \<Rightarrow> bool" where
  "leaky_inv P \<longleftrightarrow> (\<forall>i b. ci_Value i = LeakyValue b \<longrightarrow> P i = lb_wf b)"

lemma leaky_invI: "leaky_inv P \<Longrightarrow> ci_Value i = LeakyValue b \<Longrightarrow> lb_wf b \<Longrightarrow> P i"
  and leaky_invD: "leaky_inv P \<Longrightarrow> ci_Value i = LeakyValue b \<Longrightarrow> P i \<Longrightarrow> lb_wf b"
  by (simp_all add: leaky_inv_def)

lemma fetchItem_found:
  assumes "wok w" "fetchItem now st r w = (Some i, w1)" "ci_Key i = HashKey r"
  shows "wok w1" "wlook w1 (HashKey r) = Some i"
proof -
  obtain item w0 where g: "wGet now (HashKey r) w = (item, w0)" by fastforce
  have w0: "wok w0" using wok_ops(1) [OF assms(1), of now "HashKey r"] by (simp add: g)
  have "wok w1 \<and> wlook w1 (HashKey r) = Some i"
  proof (cases item)
    case None
    obtain item2 w2 where s: "storeGet st r w0 = (item2, w2)" by fastforce
    have w2: "wok w2" using w0 wok_store(1) [of st r w0] by (simp add: s)
    then show ?thesis
      using assms(2,3) wAdd_self [OF w2, of now i] by (auto simp: fetchItem_def g None s split: option.splits)
  next
    case (Some j)
    then show ?thesis
      using assms(2) w0 wGet_wlook [OF assms(1), of now "HashKey r" "HashKey r"] by (simp add: fetchItem_def g)
  qed
  then show "wok w1" "wlook w1 (HashKey r) = Some i" by simp_all
qed

text \<open>The item keeps its value and every other item its property until the final write.\<close>

definition tracked_ok ::
  "('s \<Rightarrow> key \<Rightarrow> CacheItem option) \<Rightarrow> (CacheItem \<Rightarrow> bool) \<Rightarrow> key \<Rightarrow> LeakyBucketItem \<Rightarrow> CacheItem \<times> 's wstate \<Rightarrow> bool" where
  "tracked_ok held P k b = (\<lambda>(item, w). wholds held P w \<and> wlook w k = Some item \<and> ci_Key item = k \<and>
     ci_Value item = LeakyValue b)"

lemma tracked_ok_count [simp]:
  "tracked_ok held P k b (item, countScheduled c w) = tracked_ok held P k b (item, w)"
  "tracked_ok held P k b (item, countCeilingRefused c w) = tracked_ok held P k b (item, w)"
  "tracked_ok held P k b (item, countOver c w) = tracked_ok held P k b (item, w)"
  "tracked_ok held P k b (item, countDebtReset c w) = tracked_ok held P k b (item, w)"
  by (simp_all add: tracked_ok_def wholds_def)

lemma tracked_ok_expire:
  assumes "leaky_inv P" "lb_wf b" "tracked_ok held P k b (item, w)"
  shows "tracked_ok held P k b (wUpdateExpiration k t item w)"
proof -
  have "wok w" "wlook w k = Some item" "ci_Key item = k" using assms(3) by (auto simp: tracked_ok_def wholds_def)
  note e = wUpdateExpiration_tracked [OF this, of t]
  have "P (item\<lparr>ci_ExpireAt := t\<rparr>)" using leaky_invI [OF assms(1) _ assms(2)] assms(3) by (simp add: tracked_ok_def)
  then show ?thesis
    using assms(3) wholds_wPut [of held P w] by (auto simp: e tracked_ok_def wPut_wlook wholds_wok)
qed

lemma tracked_ok_extend:
  assumes "leaky_inv P" "lb_wf b" "tracked_ok held P k b (item, w)"
  shows "tracked_ok held P k b (extendDebtExpiry item b' now duration rate w)"
  using tracked_ok_expire [OF assms] assms(3) by (simp add: extendDebtExpiry_def tracked_ok_def)

lemma lbDecide_tracked_ok:
  assumes "leaky_inv P" "lb_wf b0" "tracked_ok held P k b0 (item, w)"
    and "lbDecide item b r reqState t cfg rate w = (rl, b', item', w')"
  shows "tracked_ok held P k b0 (item', w')"
proof -
  have s: "tracked_ok held P k b0 (item, countScheduled c w)" for c using assms(3) by simp
  note E = tracked_ok_extend [OF assms(1-3)] tracked_ok_extend [OF assms(1,2) s]
  show ?thesis
    using assms(3,4) E
    by (auto simp: lbDecide_def scheduleHits_def Let_def split: if_splits prod.splits) metis+
qed

lemma leakyBucketExisting_ok:
  assumes "goodStore st held" "leaky_inv P" "leaky_req_ok now r" "lb_wf b0"
    and "tracked_ok held P (HashKey r) b0 (item0, w0)"
    and res: "leakyBucketExisting now st r reqState c item0 b0 w0 = (out, w')"
  shows "wholds held P w'"
proof (cases "lbConfig now r b0 (lbClock now r b0 c)")
  case (Inl e)
  then show ?thesis using res assms(5) by (simp add: leakyBucketExisting_def tracked_ok_def)
next
  case (Inr cfg)
  let ?k = "HashKey r" and ?t = "lbClock now r b0 c"
  obtain item1 w1 where u: "(if rq_Hits r \<noteq> 0 \<and> \<not> lc_wasInDebt cfg
      then wUpdateExpiration ?k (add64 ?t (lc_duration cfg)) item0 w0 else (item0, w0)) = (item1, w1)"
    by fastforce
  have t1: "tracked_ok held P ?k b0 (item1, w1)"
    using tracked_ok_expire [OF assms(2,4,5), of "add64 ?t (lc_duration cfg)"] assms(5) u by (auto split: if_splits)
  obtain b1 rate f where cr: "lbCredit cfg r ?t b0 = (b1, rate, f)" by (metis prod_cases3)
  have wf1: "lb_wf b1" using lbCredit_wf(1) [OF cr lbConfig_ok [OF Inr assms(3,4)] assms(4,3)] .
  obtain rl b2 item2 w3 where d:
    "lbDecide item1 b1 r reqState ?t cfg rate (countDebtReset f w1) = (rl, b2, item2, w3)" by (metis prod_cases4)
  have wf2: "lb_wf b2" using decision_wf [OF lbDecide_decision [OF d] wf1 assms(3)] .
  have t1': "tracked_ok held P ?k b0 (item1, countDebtReset f w1)" using t1 by simp
  have t2: "tracked_ok held P ?k b0 (item2, w3)" using lbDecide_tracked_ok [OF assms(2,4) t1' d] .
  obtain item3 w4 where x: "(if lc_wasInDebt cfg \<and> (lc_burstChanged cfg \<or> lc_configChanged cfg) \<and> \<not> unusableRate rate
      then extendDebtExpiry item2 b2 ?t (lc_duration cfg) rate w3 else (item2, w3)) = (item3, w4)" by fastforce
  have t3: "tracked_ok held P ?k b0 (item3, w4)"
    using tracked_ok_extend [OF assms(2,4) t2, of b2 ?t "lc_duration cfg" rate] t2 x by (auto split: if_splits)
  let ?i = "item3\<lparr>ci_Value := LeakyValue b2\<rparr>"
  have "P ?i" using leaky_invI [OF assms(2) _ wf2] by simp
  moreover have "w' = storeOnChange st (IsOwner reqState) r ?i (wPut ?i w4)"
    using res Inr u cr d x by (simp add: leakyBucketExisting_def Let_def)
  ultimately show ?thesis
    using t3 assms(1) by (auto simp: tracked_ok_def intro!: wholds_storeOnChange wholds_wPut)
qed

lemma leakyBucketNewItem_ok:
  assumes "goodStore st held" "wholds held P w" "leaky_inv P" "leaky_req_ok now r"
    and res: "leakyBucketNewItem now st r reqState w = (out, w')"
  shows "wholds held P w'"
proof -
  let ?rem = "min (rq_Burst r) (sub64 (rq_Burst r) (rq_Hits r))"
  have R: "in64 (rq_Burst r)" "0 \<le> rq_Burst r" "in64 (rq_Limit r)" "in64 (rq_Duration r)" "in64 ?rem"
    using assms(4) by (auto simp: leaky_req_ok_def min_def)
  have wf: "lb_wf \<lparr>lb_Limit = rq_Limit r, lb_Duration = d, lb_Remaining = f64_of_int ?rem, lb_UpdatedAt = t,
      lb_Burst = rq_Burst r\<rparr>"
    "lb_wf \<lparr>lb_Limit = rq_Limit r, lb_Duration = d, lb_Remaining = Fin 0, lb_UpdatedAt = t,
      lb_Burst = rq_Burst r\<rparr>" if "in64 d" for d t
    using R that f64_of_int_mono [of ?rem "rq_Burst r"] f64_of_int_mono [of 0 "rq_Burst r"]
    by (simp_all add: lb_wf_def)
  show ?thesis
    using res assms(1,2) R(4)
    by (auto simp: leakyBucketNewItem_def Let_def split: option.splits sum.splits if_splits
        intro!: wholds_storeOnChange wholds_wAdd leaky_invI [OF assms(3)] wf)
qed

lemma leakyBucket_ok:
  assumes "goodStore st held" "wholds held P w" "leaky_inv P" "leaky_req_ok now r"
    and res: "leakyBucket now st r reqState w = (out, w')"
  shows "wholds held P w'"
proof (cases "rq_CreatedAt (withBurst r)")
  case None
  then show ?thesis using res assms(2) by (simp add: leakyBucket_def)
next
  case (Some c)
  let ?r = "withBurst r"
  have rok: "leaky_req_ok now ?r" by (rule leaky_req_ok_withBurst [OF assms(4)])
  obtain found w1 where f: "fetchItem now st ?r w = (found, w1)" by fastforce
  note F = wholds_fetchItem [OF assms(1,2) f]
  note new = leakyBucketNewItem_ok [OF assms(1) _ assms(3) rok]
  show ?thesis
  proof (cases "saneItem (HashKey ?r) found")
    case None
    then have "leakyBucketNewItem now st ?r reqState w1 = (out, w')"
      using res Some by (simp add: leakyBucket_def f)
    then show ?thesis using new [OF F(1)] by simp
  next
    case it: (Some item)
    then have item: "found = Some item" "ci_Key item = HashKey ?r" using saneItem_Some by blast+
    show ?thesis
    proof (cases "\<exists>b. ci_Value item = LeakyValue b")
      case True
      then obtain b where b: "ci_Value item = LeakyValue b" by blast
      then have wf: "lb_wf b" using leaky_invD [OF assms(3)] F(2) item(1) by blast
      have "wlook w1 (HashKey ?r) = Some item"
        using fetchItem_found(2) [OF wholds_wok [OF assms(2)] _ item(2)] f item(1) by simp
      then have "tracked_ok held P (HashKey ?r) b (item, w1)" using F(1) item b by (simp add: tracked_ok_def)
      moreover have "leakyBucketExisting now st ?r reqState c item b w1 = (out, w')"
        using res Some it b by (simp add: leakyBucket_def f)
      ultimately show ?thesis using leakyBucketExisting_ok [OF assms(1,3) rok wf] by blast
    next
      case False
      then have "leakyBucketNewItem now st ?r reqState
          (storeRemove st (HashKey ?r) (wRemove (HashKey ?r) w1)) = (out, w')"
        using res Some it by (cases "ci_Value item") (simp_all add: leakyBucket_def f Let_def)
      then show ?thesis using new [OF wholds_storeRemove [OF assms(1) wholds_wRemove [OF F(1)]]] by simp
    qed
  qed
qed

text \<open>Both kinds of bucket at once: what a cache may hold.\<close>

definition item_ok :: "CacheItem \<Rightarrow> bool" where
  "item_ok i \<longleftrightarrow> (case ci_Value i of TokenValue t \<Rightarrow> tb_ok t | LeakyValue b \<Rightarrow> lb_wf b | _ \<Rightarrow> True)"

lemma item_ok_inv: "token_inv item_ok" "leaky_inv item_ok"
  by (simp_all add: token_inv_def leaky_inv_def item_ok_def)

end
