(* ===== verification/LeakyProps.thy ===== *)
theory LeakyProps
  imports LeakyBucket
begin

text \<open>
  The properties of the leaky bucket: the status protocol, refusals, the balance invariant, plain
  requests never borrowing, bookings in order of arrival, and the lifetime of debt.
\<close>

subsection \<open>A request on a live bucket\<close>

lemma withBurst_hits: "withBurst (r\<lparr>rq_Hits := h\<rparr>) = (withBurst r)\<lparr>rq_Hits := h\<rparr>"
  by (simp add: withBurst_def)

lemma credit_ignores_hits:
  "lbClock now (r\<lparr>rq_Hits := h\<rparr>) b c = lbClock now r b c"
  "lbConfig now (r\<lparr>rq_Hits := h\<rparr>) b t = lbConfig now r b t"
  "lbCredit cfg (r\<lparr>rq_Hits := h\<rparr>) t b = lbCredit cfg r t b"
  by (simp_all add: lbClock_def lbConfig_def lbCfg_def keepsStored_def rescales_def requestUsable_def
      configChanged_def effectiveBurst_def lbCredit_def lbReset_def lbAdopt_def
      cong: if_cong sum.case_cong)

lemma withBurst_sel [simp]:
  "HashKey (withBurst r) = HashKey r" "rq_CreatedAt (withBurst r) = rq_CreatedAt r"
  "rq_Hits (withBurst r) = rq_Hits r" "rq_MaxWait (withBurst r) = rq_MaxWait r"
  "rq_Behavior (withBurst r) = rq_Behavior r" "rq_Limit (withBurst r) = rq_Limit r"
  "rq_Duration (withBurst r) = rq_Duration r"
  by (simp_all add: withBurst_def HashKey_def)

text \<open>The stages of a request that a live leaky bucket answers.\<close>

lemma leakyBucket_live_stages:
  assumes "wok w" "wlook w (HashKey r) = Some i" "\<not> IsExpired now i" "ci_Value i = LeakyValue b"
    and "leakyBucket now st r reqState w = (Inr rl, w')"
  obtains c t cfg b1 rate f b2 i' where "rq_CreatedAt r = Some c" "t = lbClock now (withBurst r) b c"
    "lbConfig now (withBurst r) b t = Inr cfg" "lbCredit cfg (withBurst r) t b = (b1, rate, f)"
    "decision b1 (withBurst r) reqState t rate = (rl, b2)"
    "wok w'" "wlook w' (HashKey r) = Some i'" "ci_Value i' = LeakyValue b2"
    "ci_InvalidAt i' = ci_InvalidAt i"
    "\<And>k. k \<noteq> HashKey r \<Longrightarrow> wlook w' k = wlook w k"
    "rs_Status rl = SCHEDULED \<Longrightarrow> fullAt b2 rate \<le> ci_ExpireAt i'"
    "lc_wasInDebt cfg \<or> rq_Hits r = 0 \<Longrightarrow> ci_ExpireAt i \<le> ci_ExpireAt i'"
    "rq_Hits r \<noteq> 0 \<Longrightarrow> \<not> lc_wasInDebt cfg \<Longrightarrow> add64 t (lc_duration cfg) \<le> ci_ExpireAt i'"
proof -
  obtain c where c: "rq_CreatedAt r = Some c"
    using assms(5) by (cases "rq_CreatedAt r") (auto simp: leakyBucket_def)
  let ?t = "lbClock now (withBurst r) b c"
  obtain cfg where cfg: "lbConfig now (withBurst r) b ?t = Inr cfg"
  proof (cases "lbConfig now (withBurst r) b ?t")
    case (Inl e)
    obtain w1 where f: "fetchItem now st (withBurst r) w = (Some i, w1)"
      using fetchItem_hit [OF assms(1) _ assms(3), of "withBurst r" st] assms(2) by (metis withBurst_sel(1))
    have "ci_Key i = HashKey r" using assms(2) lookup_Key by (auto simp: wlook_def)
    then have "saneItem (HashKey r) (Some i) = Some i" using assms(4) by (simp add: saneItem_def)
    then have "fst (leakyBucket now st r reqState w) = Inl e"
      using assms(4) c Inl f by (simp add: leakyBucket_def leakyBucketExisting_def)
    then show ?thesis using assms(5) by simp
  qed
  obtain b1 rate f where cr: "lbCredit cfg (withBurst r) ?t b = (b1, rate, f)" by (metis prod_cases3)
  obtain rl' b2 where de: "decision b1 (withBurst r) reqState ?t rate = (rl', b2)" by fastforce
  from leakyBucket_live [OF assms(1-4) c cfg cr de assms(5)] obtain i' where
    "Inr rl = (Inr rl' :: goerr + RateLimitResp)" "wok w'" "wlook w' (HashKey r) = Some i'" "ci_Value i' = LeakyValue b2"
    "ci_InvalidAt i' = ci_InvalidAt i" "\<And>k. k \<noteq> HashKey r \<Longrightarrow> wlook w' k = wlook w k"
    "rs_Status rl' = SCHEDULED \<Longrightarrow> fullAt b2 rate \<le> ci_ExpireAt i'"
    "lc_wasInDebt cfg \<or> rq_Hits r = 0 \<Longrightarrow> ci_ExpireAt i \<le> ci_ExpireAt i'"
    "rq_Hits r \<noteq> 0 \<Longrightarrow> \<not> lc_wasInDebt cfg \<Longrightarrow> add64 ?t (lc_duration cfg) \<le> ci_ExpireAt i'" by metis
  then show thesis using that [OF c refl cfg cr] de by simp
qed

lemma decision_refused:
  assumes "decision b r reqState t rate = (rl, b')" "rs_Status rl = OVER_LIMIT \<or> rs_Status rl = NEVER_FITS"
    and "\<not> drains r"
  shows "b' = b"
  using assms by (auto simp: decision_def Let_def drains_def split: if_splits)

lemma leakyBucket_absent:
  assumes "wok w" "\<And>i. wlook w (HashKey r) = Some i \<Longrightarrow> IsExpired now i" "rq_CreatedAt r \<noteq> None"
  obtains w1 where "leakyBucket now None r reqState w = leakyBucketNewItem now None (withBurst r) reqState w1"
    "wok w1" "\<And>k. wlook w1 k = (if k = HashKey r then None else wlook w k)"
proof -
  obtain w1 where f: "fetchItem now None (withBurst r) w = (None, w1)" "wok w1"
    "\<And>k. wlook w1 k = (if k = HashKey (withBurst r) then None else wlook w k)"
    using fetchItem_miss [OF assms(1), of "withBurst r" now] assms(2) by (metis withBurst_sel(1))
  have "leakyBucket now None r reqState w = leakyBucketNewItem now None (withBurst r) reqState w1"
    using assms(3) by (auto simp: leakyBucket_def f saneItem_def)
  then show thesis using that f by simp
qed

lemma req0_sel2 [simp]: "rq_Burst req0 = 0" "rq_MaxWait req0 = 0" "rq_Algorithm req0 = TOKEN_BUCKET"
  by (simp_all add: req0_def)

lemma rate0: "rateOf 1000 5 = Fin 200"
  by (simp add: rateOf_def whole_eval)

lemma epochMillis_time0 [simp]: "epochMillis time0 = 7" "MillisecondNow time0 = 7"
  by (simp_all add: epochMillis_def MillisecondNow_def time0_def UnixNano_def quot_def wrap64_def)

text \<open>The answer and the new bucket, as one evaluation.\<close>

definition leakyStep ::
  "Time \<Rightarrow> RateLimitReq \<Rightarrow> RateLimitReqState \<Rightarrow> LeakyBucketItem \<Rightarrow> i64 \<Rightarrow> goerr + RateLimitResp \<times> LeakyBucketItem" where
  "leakyStep now r reqState b c =
     (let t = lbClock now r b c
      in case lbConfig now r b t of
           Inl e \<Rightarrow> Inl e
         | Inr cfg \<Rightarrow> (let (b1, rate, _) = lbCredit cfg r t b in Inr (decision b1 r reqState t rate)))"

lemma leakyBucket_step:
  assumes "wok w" "wlook w (HashKey r) = Some i" "\<not> IsExpired now i" "ci_Value i = LeakyValue b"
    and "rq_CreatedAt r = Some c" and s: "leakyStep now (withBurst r) reqState b c = Inr (rl, b2)"
  shows "fst (leakyBucket now st r reqState w) = Inr rl"
    and "map_option ci_Value (wlook (snd (leakyBucket now st r reqState w)) (HashKey r)) = Some (LeakyValue b2)"
    and "wok (snd (leakyBucket now st r reqState w))"
proof -
  let ?t = "lbClock now (withBurst r) b c"
  obtain cfg b1 rate f where c: "lbConfig now (withBurst r) b ?t = Inr cfg"
    "lbCredit cfg (withBurst r) ?t b = (b1, rate, f)" "decision b1 (withBurst r) reqState ?t rate = (rl, b2)"
    using s by (auto simp: leakyStep_def Let_def split: sum.splits prod.splits)
  obtain out w' where o: "leakyBucket now st r reqState w = (out, w')" by fastforce
  show "fst (leakyBucket now st r reqState w) = Inr rl"
    and "map_option ci_Value (wlook (snd (leakyBucket now st r reqState w)) (HashKey r)) = Some (LeakyValue b2)"
    and "wok (snd (leakyBucket now st r reqState w))"
    by (rule leakyBucket_live [OF assms(1-5) c o]; simp add: o)+
qed

definition rs0 :: RateLimitReqState where
  "rs0 = \<lparr>IsOwner = True, WaitCeiling = 60000000000\<rparr>"

definition lbi :: "f64 \<Rightarrow> LeakyBucketItem" where
  "lbi bal = \<lparr>lb_Limit = 5, lb_Duration = 1000, lb_Remaining = bal, lb_UpdatedAt = 7, lb_Burst = 5\<rparr>"

definition leaky_state0 :: "f64 \<Rightarrow> unit wstate" where
  "leaky_state0 bal = wAdd time0 (leaky0 bal) state0"

lemma leaky_state0 [simp]:
  "wok (leaky_state0 bal)" "wlook (leaky_state0 bal) ''n_k'' = Some (leaky0 bal)"
  "ci_Value (leaky0 bal) = LeakyValue (lbi bal)"
  by (simp_all add: leaky_state0_def lbi_def leaky0_def wAdd_self [OF wok_state0, of time0 "leaky0 bal", unfolded leaky0_def, simplified])

lemma leaky0_step:
  assumes "leakyStep time0 (withBurst r) rs0 (lbi bal) 7 = Inr (rl, b2)"
    and "HashKey r = ''n_k''" "rq_CreatedAt r = Some 7"
  obtains w' where "leakyBucket time0 None r rs0 (leaky_state0 bal) = (Inr rl, w')"
    "map_option ci_Value (wlook w' ''n_k'') = Some (LeakyValue b2)" "wok w'"
proof -
  have v: "ci_Value (leaky0 bal) = LeakyValue (lbi bal)" by (simp add: leaky0_def lbi_def)
  have l: "wlook (leaky_state0 bal) (HashKey r) = Some (leaky0 bal)" using assms(2) by simp
  note S = leakyBucket_step [OF leaky_state0(1) l leaky0_live v assms(3,1), of None]
  obtain out w' where o: "leakyBucket time0 None r rs0 (leaky_state0 bal) = (out, w')" by fastforce
  show thesis by (rule that [of w']) (use S assms(2) in \<open>simp_all add: o\<close>)
qed

text \<open>A sample bucket and requests with its own configuration, at the instant of its last update.\<close>

lemma sample_step:
  assumes "rq_Limit r = 5" "rq_Duration r = 1000" "rq_Burst r = 0" "rq_Behavior r = 0"
    and "fMin (Fin 5) bal = bal" "snapToZero bal = bal"
  shows "leakyStep time0 (withBurst r) rs (lbi bal) 7 = Inr (decision (lbi bal) (withBurst r) rs 7 (Fin 200))"
proof -
  have clock: "lbClock time0 (withBurst r) (lbi bal) 7 = 7" by (simp add: lbClock_def)
  have burst: "effectiveBurst (withBurst r) (lbi bal) 7 = 5" "f64_of_int 5 = Fin 5"
    using assms by (simp_all add: effectiveBurst_def withBurst_def lbi_def whole_eval)
  have usable: "requestUsable (withBurst r)"
    using assms by (simp add: requestUsable_def withBurst_def rate0 unusableRate_def IsInf_def less_f64_def)
  have nochange: "\<not> configChanged (withBurst r) (lbi bal)" using assms by (simp add: configChanged_def lbi_def)
  have flags: "\<not> HasBehavior (rq_Behavior (withBurst r)) DURATION_IS_GREGORIAN"
    "\<not> HasBehavior (rq_Behavior (withBurst r)) RESET_REMAINING" using assms(4) by (simp_all add: HasBehavior_def)
  let ?cfg = "lbCfg (withBurst r) (lbi bal) 7 1000 (Fin 200)"
  have cfg: "lbConfig time0 (withBurst r) (lbi bal) 7 = Inr ?cfg"
    using flags assms(1,2) by (simp add: lbConfig_def rate0)
  have sel: "\<not> lc_rescale ?cfg" "\<not> lc_keepStored ?cfg" "\<not> lc_burstChanged ?cfg" "lc_requestRate ?cfg = Fin 200"
    using flags usable nochange burst
    by (simp_all add: lbCfg_def Let_def rescales_def keepsStored_def) (simp add: lbi_def)
  have "lbCredit ?cfg (withBurst r) 7 (lbi bal) = (lbi bal, Fin 200, False)"
    using sel flags assms burst
    by (simp add: lbCredit_def lbLeak_def lbRescale_def lbBurst_def lbReset_def lbAdopt_def lbClamp_def)
      (simp add: lbi_def)
  then show ?thesis by (simp add: leakyStep_def clock cfg)
qed

lemma whole_min:
  "fMin (Fin 5) (Fin 1) = Fin 1" "fMin (Fin 5) (Fin 0) = Fin 0" "fMin (Fin 5) (Fin (- numeral k)) = Fin (- numeral k)"
  by (simp_all add: fMin_def IsNaN_def less_f64_def)

lemmas decision_eval = decision_def lbResponse_def spendableTokens_def withBurst_def whole_eval go_arith
  wrap64_def mkResp_def Let_def rs0_def

lemma leakyStep_refused:
  "leakyStep time0 (withBurst req0) rs0 (lbi (Fin 1)) 7 = Inr (mkResp OVER_LIMIT 5 1 807, lbi (Fin 1))"
  "leakyStep time0 (withBurst (req0\<lparr>rq_Hits := 0\<rparr>)) rs0 (lbi (Fin 1)) 7 = Inr (mkResp UNDER_LIMIT 5 1 807, lbi (Fin 1))"
  by (simp_all add: sample_step whole_min) (simp_all add: decision_eval HasBehavior_def lbi_def)

lemma leaky0_value: "ci_Value (leaky0 bal) = LeakyValue (lbi bal)"
  by (simp add: leaky0_def lbi_def)

subsection \<open>Properties\<close>







lemma leaky_req_ok_req0: "leaky_req_ok now (req0\<lparr>rq_MaxWait := m\<rparr>)" "leaky_req_ok now req0"
  by (simp_all add: leaky_req_ok_def HasBehavior_def in64_def minI64_def maxI64_def)


lemma decision_plain_admitted:
  assumes "decision b r reqState t rate = (rl, b')" "rq_MaxWait r \<le> 0" "0 < rq_Hits r" "rq_Hits r \<le> 2 ^ 53"
    and "rs_Status rl = UNDER_LIMIT" "lb_wf b"
  shows "rq_Hits r \<le> wholeTokens (lb_Remaining b)"
    and "lb_Remaining b' = snapToZero (fMin (f64_of_int (lb_Burst b)) (lb_Remaining b - f64_of_int (rq_Hits r)))"
    and "is_fin (lb_Remaining b')" and "- 2 * eps9 \<le> val (lb_Remaining b')"
proof -
  let ?x = "lb_Remaining b" and ?B = "f64_of_int (lb_Burst b)" and ?h = "f64_of_int (rq_Hits r)"
  from assms show adm: "rq_Hits r \<le> wholeTokens ?x"
    by (auto simp: decision_def Let_def split: if_splits)
  with assms show b': "lb_Remaining b' = snapToZero (fMin ?B (?x - ?h))"
    by (auto simp: decision_def Let_def split: if_splits)
  have wf: "wf64 ?x" "?x \<le> ?B" "is_fin ?B" "0 \<le> val ?B" "\<bar>val ?B\<bar> \<le> 2 ^ 63"
  proof -
    have B: "in64 (lb_Burst b)" "0 \<le> lb_Burst b" using assms(6) by (simp_all add: lb_wf_def)
    show "wf64 ?x" "?x \<le> ?B" using assms(6) by (simp_all add: lb_wf_def)
    show "is_fin ?B" "0 \<le> val ?B" "\<bar>val ?B\<bar> \<le> 2 ^ 63"
      by (rule f64_of_int_fin(1) [OF B(1)], rule f64_of_int_nonneg [OF B], rule f64_of_int_fin(3) [OF B(1)])
  qed
  have one: "1 \<le> rq_Hits r" using assms(3) by simp
  note G = wholeTokens_ge [OF adm one wf(1)]
  have "(1 :: rat) \<le> of_int (rq_Hits r)" using one by simp
  then have "0 \<le> val ?x" using G(2) eps9_small by linarith
  moreover have "val ?x \<le> val ?B" using wf(2,3) G(1) by simp
  moreover have "(2 ^ 63 :: rat) \<le> 2 ^ 1000" by (rule power_increasing) auto
  ultimately have "\<bar>val ?x\<bar> \<le> 2 ^ 1000" using wf(4,5) by linarith
  note C = charge_bound [OF adm one assms(4) wf(1) this]
  have m: "is_fin (fMin ?B (?x - ?h))" "val (fMin ?B (?x - ?h)) = min (val ?B) (val (?x - ?h))"
    using fMin_fin [OF wf(3) C(1)] by simp_all
  have neg: "- 2 * eps9 \<le> 0" using eps9_pos by linarith
  have "- 2 * eps9 \<le> val (fMin ?B (?x - ?h))" using m(2) C(2) wf(4) neg by linarith
  then show "- 2 * eps9 \<le> val (lb_Remaining b')" using snapToZero_val(3) [OF m(1)] neg by (auto simp: b')
  show "is_fin (lb_Remaining b')" using snapToZero_val(1) [OF m(1)] by (simp add: b')
qed

text \<open>
  C4. Plain requests never borrow: a request without max-wait that a live leaky bucket admits leaves a
  finite balance that is at least zero up to two billionths of a token. In particular no plain request
  is admitted while the bucket owes booked hits.
\<close>

theorem leaky_plain_never_borrows:
  assumes "wok w" "wlook w (HashKey r) = Some i" "\<not> IsExpired now i" "ci_Value i = LeakyValue b" "lb_wf b"
    and "leaky_req_ok now r" "rq_MaxWait r \<le> 0" "0 < rq_Hits r" "rq_Hits r \<le> 2 ^ 53"
    and "leakyBucket now st r reqState w = (Inr rl, w')" "rs_Status rl = UNDER_LIMIT"
  shows "\<exists>i' b'. wlook w' (HashKey r) = Some i' \<and> ci_Value i' = LeakyValue b' \<and>
    is_fin (lb_Remaining b') \<and> - 2 * eps9 \<le> val (lb_Remaining b')"
proof (rule leakyBucket_live_stages [OF assms(1-4,10)])
  fix c t cfg b1 rate f b2 i'
  assume s: "lbConfig now (withBurst r) b t = Inr cfg" "lbCredit cfg (withBurst r) t b = (b1, rate, f)"
    "decision b1 (withBurst r) reqState t rate = (rl, b2)" "wlook w' (HashKey r) = Some i'"
    "ci_Value i' = LeakyValue b2"
  have rok: "leaky_req_ok now (withBurst r)" using assms(6) by (rule leaky_req_ok_withBurst)
  have "lb_wf b1" by (rule lbCredit_wf(1) [OF s(2) lbConfig_ok [OF s(1) rok assms(5)] assms(5) rok])
  with decision_plain_admitted(3,4) [OF s(3)] assms(7-9,11) s(4,5) show ?thesis by simp
qed

lemma leakyStep_admitted:
  "leakyStep time0 (withBurst (req0\<lparr>rq_Hits := 1\<rparr>)) rs0 (lbi (Fin 1)) 7 = Inr (mkResp UNDER_LIMIT 5 0 1007, lbi (Fin 0))"
  by (simp add: sample_step whole_min)
    (simp add: decision_eval HasBehavior_def lbi_def fMin_def IsNaN_def)

lemma lb_wf_lbi: "lb_wf (lbi (Fin 1))"
  by (simp add: lb_wf_def lbi_def whole_eval overflow64_def) (use repr64_int [of 1] in simp)

theorem leaky_plain_never_borrows_witness:
  "\<exists>i' b'. wlook (snd (leakyBucket time0 None (req0\<lparr>rq_Hits := 1\<rparr>) rs0 (leaky_state0 (Fin 1)))) ''n_k'' = Some i' \<and>
     ci_Value i' = LeakyValue b' \<and> is_fin (lb_Remaining b') \<and> - 2 * eps9 \<le> val (lb_Remaining b')"
proof -
  let ?r = "req0\<lparr>rq_Hits := 1\<rparr>"
  have k: "HashKey ?r = ''n_k''" by (simp add: HashKey_def)
  obtain w' where w': "leakyBucket time0 None ?r rs0 (leaky_state0 (Fin 1)) = (Inr (mkResp UNDER_LIMIT 5 0 1007), w')"
    by (rule leaky0_step [OF leakyStep_admitted]) (simp_all add: k)
  have "leaky_req_ok time0 ?r" by (simp add: leaky_req_ok_def HasBehavior_def in64_def minI64_def maxI64_def)
  from leaky_plain_never_borrows [OF leaky_state0(1) _ leaky0_live leaky0_value lb_wf_lbi this _ _ _ w']
  show ?thesis by (simp add: k w' mkResp_def)
qed

subsection \<open>Bookings queue up\<close>

lemma plus_comm_f64: "a + b = b + (a :: f64)"
  by (cases a; cases b) (auto simp: add.commute conj_commute)

lemma scheduleWait_mono:
  assumes "f64_of_int (rq_Hits r1) - lb_Remaining b1 \<le> f64_of_int (rq_Hits r2) - lb_Remaining b2"
    and "lb_UpdatedAt b1 = lb_UpdatedAt b2" "is_fin rate" "0 < val rate"
  shows "scheduleWait r1 b1 now rate \<le> scheduleWait r2 b2 now rate"
proof -
  let ?adv = "f64_of_int (sub64 (max (lb_UpdatedAt b1) now) now)"
  let ?x1 = "(f64_of_int (rq_Hits r1) - lb_Remaining b1) * rate"
  let ?x2 = "(f64_of_int (rq_Hits r2) - lb_Remaining b2) * rate"
  have "?x1 \<le> ?x2" using assms(1,3,4) by (rule times_mono_f64)
  moreover have "is_fin ?adv" by (simp add: f64_of_int_fin)
  ultimately have "?adv + ?x1 \<le> ?adv + ?x2" by (simp add: plus_comm_f64 [of ?adv] plus_mono_f64)
  then have "?adv + ?x1 - Fin eps6 \<le> ?adv + ?x2 - Fin eps6"
    unfolding minus_f64_def by (rule plus_mono_f64) simp
  then show ?thesis
    using assms(2) millis_mono [OF Ceil_mono] by (simp add: scheduleWait_def max.coboundedI2)
qed

lemma le_same_val:
  assumes "is_fin a" "is_fin b" "val a = val b" "a \<le> c"
  shows "b \<le> (c :: f64)"
  using assms by (cases a; cases b; cases c) (auto simp: less_eq_f64_def less_f64_def split: if_splits)

text \<open>Booking \<open>h1\<close> hits moves the next request of at least one hit behind it.\<close>

lemma queue_step:
  assumes "x \<noteq> NaN" "x \<noteq> Inf False" "is_fin h1" "is_fin h2" "1 \<le> val h2" "is_fin B" "x - h1 \<le> B"
  shows "h1 - x \<le> h2 - snapToZero (fMin B (x - h1))"
proof (cases "is_fin (x - h1)")
  case False
  have "x - h1 \<noteq> NaN" "B \<noteq> NaN" using assms(1,3,6) minus_not_NaN by (auto simp: is_fin_iff)
  then have "x - h1 = Inf True" using False le_fin_cases [OF assms(7,6)] by blast
  then have "snapToZero (fMin B (x - h1)) = Inf True" by (simp add: fMin_def snapToZero_def less_f64_def)
  moreover have "h1 - x \<noteq> NaN"
    using assms(1-3) by (cases h1; cases x) (auto simp: minus_f64_def split: if_splits)
  ultimately show ?thesis using assms(4) by (cases h2) (auto simp: minus_f64_def is_fin_iff)
next
  case True
  let ?y = "x - h1"
  have x: "is_fin x" using True assms(1-3) by (cases x; cases h1) (auto simp: minus_f64_def split: if_splits)
  have e: "?y = fl (x = NegZero \<and> - h1 = NegZero) (val x - val h1)"
    "h1 - x = fl (h1 = NegZero \<and> - x = NegZero) (val h1 - val x)"
    using x assms(3) by (simp_all add: minus_f64_def plus_fin_fl)
  have vy: "val ?y = round64 (val x - val h1)" using True by (auto simp: e fl_def Let_def split: if_splits)
  have neg: "round64 (val h1 - val x) = - val ?y"
    using round64_uminus [of "val x - val h1"] by (simp add: vy)
  have "\<bar>round64 (val h1 - val x)\<bar> < overflow64"
    using True neg vy by (auto simp: e fl_def Let_def split: if_splits)
  then have l: "is_fin (h1 - x)" "val (h1 - x) = - val ?y"
    using neg by (auto simp: e fl_def Let_def split: if_splits)
  have m: "is_fin (fMin B ?y)" "val (fMin B ?y) = val ?y"
    using fMin_fin [OF assms(6) True] assms(6,7) True by (simp_all add: min_def)
  let ?s = "snapToZero (fMin B ?y)"
  have s: "is_fin ?s" "val ?s = val ?y \<or> val ?s = 0 \<and> \<bar>val ?y\<bar> < eps9"
    using snapToZero_val [OF m(1)] m(2) by (auto simp: snapToZero_def Abs_less_eps)
  have repr: "repr64 (- val ?y)" by (simp add: vy)
  have ge: "- val ?y \<le> val h2 - val ?s" using s(2) assms(5) eps9_small by auto
  have r: "h2 - ?s = fl (h2 = NegZero \<and> - ?s = NegZero) (val h2 - val ?s)"
    using s(1) assms(4) by (simp add: minus_f64_def plus_fin_fl)
  have "fl (h1 = NegZero \<and> - x = NegZero) (- val ?y) \<le> h2 - ?s" unfolding r by (rule fl_mono [OF ge])
  moreover have "is_fin (fl (h1 = NegZero \<and> - x = NegZero) (- val ?y))"
    "val (fl (h1 = NegZero \<and> - x = NegZero) (- val ?y)) = - val ?y"
    using repr neg \<open>\<bar>round64 (val h1 - val x)\<bar> < overflow64\<close> by (auto simp: fl_def Let_def)
  ultimately show ?thesis using l by (auto intro: le_same_val)
qed

lemma wholeTokens_less:
  assumes "wholeTokens x < h" "is_fin x" "wf64 x" "val x \<le> 2 ^ 53" "0 < h" "h \<le> 2 ^ 53"
  shows "val x < of_int h"
proof (rule ccontr)
  assume "\<not> val x < of_int h"
  then have ge: "of_int h \<le> val x" by simp
  have "repr64 (of_int h)" using assms(5,6) by (intro repr64_int) simp
  then have lo: "of_int h \<le> round64 (val x + eps9)" using ge eps9_pos by (intro round64_ge) linarith+
  have "val x + eps9 \<le> 2 ^ 54" using assms(4) eps9_small by simp
  then have hi: "round64 (val x + eps9) \<le> 2 ^ 54" by (rule round64_le [OF _ repr64_pow2])
  have "(0 :: rat) < of_int h" using assms(5) by simp
  then have "0 \<le> val x" using ge by linarith
  moreover have "(2 ^ 53 + 1 :: rat) \<le> 2 ^ 1023" by simp
  ultimately have "\<bar>val x + val (Fin eps9)\<bar> \<le> 2 ^ 1023" using assms(4) eps9_small eps9_pos
    unfolding abs_le_iff val.simps by (intro conjI) linarith+
  note P = plus_fin [OF assms(2) _ this]
  let ?q = "round64 (val x + eps9)"
  have q: "is_fin (x + Fin eps9)" "val (x + Fin eps9) = ?q" using P by simp_all
  have "0 \<le> ?q" using lo \<open>0 < of_int h\<close> by linarith
  then have t: "truncate_rat ?q = \<lfloor>?q\<rfloor>" by (simp add: truncate_rat_def)
  have "h \<le> \<lfloor>?q\<rfloor>" using lo by (simp add: le_floor_iff)
  moreover have "\<lfloor>?q\<rfloor> \<le> 2 ^ 54" using hi by (metis floor_mono floor_of_int of_int_numeral of_int_power)
  ultimately have "- (2 ^ 63) \<le> n \<and> n \<le> 2 ^ 63 - 1" if "n = \<lfloor>?q\<rfloor>" for n
    using assms(5) unfolding that [symmetric] by simp
  then have "in64 (truncate_rat ?q)" by (simp only: t in64_def minI64_def maxI64_def)
  then have "int64_of (x + Fin eps9) = truncate_rat ?q"
    using q by (cases "x + Fin eps9") (auto simp: truncate_rat_def)
  then have "h \<le> wholeTokens x" using \<open>h \<le> \<lfloor>?q\<rfloor>\<close> by (simp add: wholeTokens_def t)
  then show False using assms(1) by simp
qed

lemma booked_not_spendable:
  assumes "y \<le> Fin 0" "is_fin B" "0 \<le> val B"
  shows "wholeTokens (snapToZero (fMin B y)) \<le> 0"
proof -
  let ?m = "fMin B y"
  have "?m = Inf True \<or> is_fin ?m \<and> val ?m \<le> 0"
  proof (cases "y = Inf True")
    case True
    then show ?thesis using assms(2) by (simp add: fMin_def)
  next
    case False
    then show ?thesis using le_fin_cases [OF assms(1)] fMin_fin [OF assms(2), of y] by auto
  qed
  then have "snapToZero ?m < Fin 0 \<or> snapToZero ?m = Fin 0"
  proof (cases rule: snapToZero_cases [of ?m])
    case 2
    have "0 < eps9" by (rule eps9_pos)
    with 2 \<open>?m = Inf True \<or> is_fin ?m \<and> val ?m \<le> 0\<close> show ?thesis
      by (cases ?m) (auto simp: less_f64_def)
  qed simp
  then show ?thesis using wholeTokens_neg [of "snapToZero ?m"] by auto
qed

text \<open>The configuration of a key after a request with a usable configuration of its own.\<close>

definition plain_cfg :: "RateLimitReq \<Rightarrow> bool" where
  "plain_cfg r \<longleftrightarrow> \<not> HasBehavior (rq_Behavior r) DURATION_IS_GREGORIAN \<and> requestUsable r \<and> 0 < rq_Burst r"

definition has_cfg :: "LeakyBucketItem \<Rightarrow> RateLimitReq \<Rightarrow> bool" where
  "has_cfg b r \<longleftrightarrow> lb_Limit b = rq_Limit r \<and> lb_Duration b = rq_Duration r \<and> lb_Burst b = rq_Burst r"

lemma plain_cfg_config:
  assumes "plain_cfg r"
  shows "lbConfig now r b t = Inr (lbCfg r b t (rq_Duration r) (rateOf (rq_Duration r) (rq_Limit r)))"
    "\<not> keepsStored r b" "effectiveBurst r b t = rq_Burst r"
  using assms by (auto simp: plain_cfg_def lbConfig_def keepsStored_def effectiveBurst_def)

lemma lbLeak_clock: "t \<le> lb_UpdatedAt (lbLeak cfg t b)" "lb_Burst (lbLeak cfg t b) = lb_Burst b"
  by (simp_all add: lbLeak_def)

lemma credit_adopts:
  assumes "lbConfig now r b t = Inr cfg" "lbCredit cfg r t b = (b1, rate, f)" "plain_cfg r"
  shows "has_cfg b1 r" "rate = rateOf (rq_Duration r) (rq_Limit r)" "t \<le> lb_UpdatedAt b1"
    "lc_duration cfg = rq_Duration r"
proof -
  have cfg: "\<not> lc_keepStored cfg" "lc_burst cfg = rq_Burst r" "lc_burstChanged cfg = (lb_Burst b \<noteq> rq_Burst r)"
    "lc_requestRate cfg = rateOf (rq_Duration r) (rq_Limit r)"
    using assms(1,3) by (auto simp: plain_cfg_config lbCfg_def Let_def)
  then show "has_cfg b1 r" "rate = rateOf (rq_Duration r) (rq_Limit r)" "t \<le> lb_UpdatedAt b1"
    using assms(2) lbLeak_clock
    by (auto simp: lbCredit_def lbAdopt_def lbClamp_def lbReset_def lbBurst_def lbRescale_def has_cfg_def
        split: if_splits)
  show "lc_duration cfg = rq_Duration r" using assms(1,3) by (auto simp: plain_cfg_config lbCfg_def Let_def)
qed

text \<open>A request with the key's own configuration, at the instant of its last credit, only clamps.\<close>

lemma credit_again:
  assumes "plain_cfg r" "has_cfg b r" "t \<le> lb_UpdatedAt b" "\<not> HasBehavior (rq_Behavior r) RESET_REMAINING"
    and "lbConfig now r b t = Inr cfg" "lbCredit cfg r t b = (b1, rate, f)"
  shows "b1 = b\<lparr>lb_Remaining := snapToZero (fMin (f64_of_int (lb_Burst b)) (lb_Remaining b))\<rparr>"
    "rate = rateOf (rq_Duration r) (rq_Limit r)"
proof -
  have "\<not> rescales r b" using assms(2) by (auto simp: rescales_def configChanged_def has_cfg_def)
  then have cfg: "\<not> lc_keepStored cfg" "\<not> lc_rescale cfg" "\<not> lc_burstChanged cfg"
    "lc_requestRate cfg = rateOf (rq_Duration r) (rq_Limit r)"
    using assms(1,2,5) by (auto simp: plain_cfg_config lbCfg_def Let_def has_cfg_def)
  then show "b1 = b\<lparr>lb_Remaining := snapToZero (fMin (f64_of_int (lb_Burst b)) (lb_Remaining b))\<rparr>"
    "rate = rateOf (rq_Duration r) (rq_Limit r)"
    using assms(2,3,4,6)
    by (auto simp: lbCredit_def lbLeak_def lbRescale_def lbBurst_def lbReset_def lbAdopt_def lbClamp_def has_cfg_def)
qed

lemma decision_booked:
  assumes "decision b r reqState t rate = (rl, b')" "rs_Status rl = SCHEDULED"
  shows "0 < rq_MaxWait r" "rq_Hits r \<le> lb_Burst b" "wholeTokens (lb_Remaining b) < rq_Hits r"
    "rs_RetryAfter rl = scheduleWait r b t rate" "b' = b\<lparr>lb_Remaining := lb_Remaining b - f64_of_int (rq_Hits r)\<rparr>"
    "rs_RetryAfter rl \<le> rq_MaxWait r" "rs_RetryAfter rl \<le> Milliseconds (WaitCeiling reqState)"
    "\<not> unusableRate rate" "rs_ResetTime rl = fullAt b' rate"
  using assms by (auto simp: decision_def lbResponse_def mkResp_def Let_def split: if_splits)

lemma decision_waits:
  assumes "decision b r reqState t rate = (rl, b')" "0 < rq_MaxWait r" "0 < rq_Hits r"
    and "wholeTokens (lb_Remaining b) \<le> 0"
  shows "rs_Status rl = NEVER_FITS \<or>
    (rs_Status rl = SCHEDULED \<or> rs_Status rl = OVER_LIMIT) \<and> rs_RetryAfter rl = scheduleWait r b t rate"
  using assms by (auto simp: decision_def Let_def split: if_splits)

lemma booked_balance:
  assumes "decision b r reqState t rate = (rl, b')" "rs_Status rl = SCHEDULED" "lb_wf b" "lb_Burst b \<le> 2 ^ 53"
    and "0 < rq_Hits r"
  defines "x \<equiv> lb_Remaining b" and "h \<equiv> f64_of_int (rq_Hits r)" and "B \<equiv> f64_of_int (lb_Burst b)"
  shows "x \<noteq> NaN" "x \<noteq> Inf False" "is_fin B" "is_fin h" "x - h \<le> B" "0 \<le> val B" "x - h \<le> Fin 0"
proof -
  note D = decision_booked [OF assms(1,2)]
  have bounds: "0 \<le> rq_Hits r" "rq_Hits r \<le> 2 ^ 53" "0 \<le> lb_Burst b" using assms(3-5) D(2) by (simp_all add: lb_wf_def)
  have H: "h = Fin (of_int (rq_Hits r))" and B: "B = Fin (of_int (lb_Burst b))"
    using bounds assms(4) f64_of_int_exact unfolding h_def B_def by simp_all
  have xB: "x \<le> B" "wf64 x" "wf64 B" using assms(3) by (simp_all add: lb_wf_def x_def B_def)
  then have inf: "x = Inf True \<or> is_fin x \<and> val x \<le> of_int (lb_Burst b)" using le_fin_cases [OF xB(1)] by (simp add: B)
  then show "x \<noteq> NaN" "x \<noteq> Inf False" by auto
  show "is_fin B" "is_fin h" "0 \<le> val B" using bounds by (simp_all add: H B)
  show "x - h \<le> B" using minus_nonneg_le [OF xB(1) _ xB(3)] bounds by (simp add: H B)
  show "x - h \<le> Fin 0"
  proof (cases "x = Inf True")
    case False
    have "(of_int (lb_Burst b) :: rat) \<le> of_int (2 ^ 53)" using assms(4) by (simp only: of_int_le_iff)
    then have fx: "is_fin x" "val x \<le> 2 ^ 53" using inf False by simp_all
    have "val x < of_int (rq_Hits r)"
      by (rule wholeTokens_less [OF _ fx(1) xB(2) fx(2)]) (use D(3) bounds assms(5) in \<open>simp_all add: x_def\<close>)
    then have "fl (x = NegZero \<and> - h = NegZero) (val x - val h) \<le> fl False 0" by (intro fl_mono) (simp add: H)
    then show ?thesis using fx(1) assms(5) by (simp add: minus_f64_def plus_fin_fl H)
  qed (simp add: H minus_f64_def)
qed

lemma booking_behind:
  assumes "wok w" "wlook w (HashKey r) = Some i" "\<not> IsExpired now i" "ci_Value i = LeakyValue b"
    and "leakyBucket now st r reqState w = (Inr rl, w')" "plain_cfg (withBurst r)" "0 < rq_MaxWait r" "0 < rq_Hits r"
    and "\<not> HasBehavior (rq_Behavior r) RESET_REMAINING" "has_cfg b (withBurst r)" "epochMillis now \<le> lb_UpdatedAt b"
    and B: "B = f64_of_int (lb_Burst b)" and "is_fin B" "0 \<le> val B" "lb_Remaining b \<le> Fin 0"
  shows "rs_Status rl = NEVER_FITS \<or> (rs_Status rl = SCHEDULED \<or> rs_Status rl = OVER_LIMIT) \<and>
    rs_RetryAfter rl = scheduleWait (withBurst r) (b\<lparr>lb_Remaining := snapToZero (fMin B (lb_Remaining b))\<rparr>)
      (epochMillis now) (rateOf (rq_Duration r) (rq_Limit r))"
proof (rule leakyBucket_live_stages [OF assms(1-5)])
  fix c t cfg b1 rate f b2 i'
  assume s: "t = lbClock now (withBurst r) b c" "lbConfig now (withBurst r) b t = Inr cfg"
    "lbCredit cfg (withBurst r) t b = (b1, rate, f)" "decision b1 (withBurst r) reqState t rate = (rl, b2)"
  have t: "t = epochMillis now" using assms(7) s(1) by (simp add: lbClock_def)
  have "t \<le> lb_UpdatedAt b" "\<not> HasBehavior (rq_Behavior (withBurst r)) RESET_REMAINING" using assms(9,11) t by simp_all
  note C = credit_again [OF assms(6,10) this s(2,3)]
  have "wholeTokens (lb_Remaining b1) \<le> 0" using booked_not_spendable [OF assms(15,13,14)] by (simp add: C(1) B)
  from decision_waits [OF s(4) _ _ this] assms(7,8) show ?thesis by (simp add: t C B)
qed

lemma leaky_expiry_kept:
  assumes "\<not> IsExpired now i" "ci_InvalidAt i' = ci_InvalidAt i" "in64 (epochMillis now + d)" "0 \<le> d"
    and "ci_ExpireAt i \<le> ci_ExpireAt i' \<or> add64 (epochMillis now) d \<le> ci_ExpireAt i'"
  shows "\<not> IsExpired now i'"
  using assms by (auto simp: IsExpired_def MillisecondNow_def epochMillis_def add64_def wrap64_id split: if_splits)

text \<open>
  C3. Bookings are served in the order they arrive. When a request with a max-wait has been scheduled on
  a key, a further request with a max-wait for the same key and configuration at the same instant never
  overtakes it: it is not admitted at once, and when it is scheduled, or told when to retry, its wait is
  at least the wait of the booking before it.
\<close>

theorem leaky_bookings_in_order:
  assumes "wok w" "wlook w (HashKey r1) = Some i" "\<not> IsExpired now i" "ci_Value i = LeakyValue b" "lb_wf b"
    and "leaky_req_ok now r1" "HashKey r2 = HashKey r1" "0 < rq_MaxWait r2" "0 < rq_Hits r1" "0 < rq_Hits r2"
    and "rq_Limit r2 = rq_Limit r1" "rq_Duration r2 = rq_Duration r1" "rq_Burst r2 = rq_Burst r1"
    and "rq_Limit r1 \<le> 2 ^ 53" "rq_Burst r1 \<le> 2 ^ 53" "in64 (rq_Hits r2)"
    and "\<not> HasBehavior (rq_Behavior r1) DURATION_IS_GREGORIAN" "\<not> HasBehavior (rq_Behavior r2) DURATION_IS_GREGORIAN"
    and "\<not> HasBehavior (rq_Behavior r2) RESET_REMAINING" "in64 (epochMillis now + rq_Duration r1)"
    and run1: "leakyBucket now st r1 rs w = (Inr rl1, w1)" and "rs_Status rl1 = SCHEDULED"
    and run2: "leakyBucket now st r2 rs' w1 = (Inr rl2, w2)"
  shows "rs_Status rl2 = NEVER_FITS \<or>
    (rs_Status rl2 = SCHEDULED \<or> rs_Status rl2 = OVER_LIMIT) \<and> rs_RetryAfter rl1 \<le> rs_RetryAfter rl2"
proof (rule leakyBucket_live_stages [OF assms(1-4) run1])
  let ?r1 = "withBurst r1" and ?r2 = "withBurst r2"
  let ?rate = "rateOf (rq_Duration r1) (rq_Limit r1)"
  fix c t cfg b1 rate f b2 i'
  assume s: "t = lbClock now ?r1 b c" "lbConfig now ?r1 b t = Inr cfg" "lbCredit cfg ?r1 t b = (b1, rate, f)"
    "decision b1 ?r1 rs t rate = (rl1, b2)" "wok w1" "wlook w1 (HashKey r1) = Some i'" "ci_Value i' = LeakyValue b2"
    "ci_InvalidAt i' = ci_InvalidAt i" "lc_wasInDebt cfg \<or> rq_Hits r1 = 0 \<Longrightarrow> ci_ExpireAt i \<le> ci_ExpireAt i'"
    "rq_Hits r1 \<noteq> 0 \<Longrightarrow> \<not> lc_wasInDebt cfg \<Longrightarrow> add64 t (lc_duration cfg) \<le> ci_ExpireAt i'"
  note D = decision_booked [OF s(4) assms(22)]
  have t: "t = epochMillis now" using D(1) s(1) by (simp add: lbClock_def)
  have rok: "leaky_req_ok now ?r1" using assms(6) by (rule leaky_req_ok_withBurst)
  have good: "good_rate ?rate" using assms(6,17) by (intro good_rate_pos) (auto simp: leaky_req_ok_def)
  have burst: "0 < rq_Burst ?r1" "rq_Burst ?r1 \<le> 2 ^ 53" "rq_Burst ?r2 = rq_Burst ?r1"
    using assms(6,11,13,14,15) by (auto simp: withBurst_def leaky_req_ok_def)
  have plain: "plain_cfg ?r1" "plain_cfg ?r2"
    using assms(6,11,12,17,18) burst good_rate_not_unusable [OF good] by (auto simp: plain_cfg_def requestUsable_def leaky_req_ok_def)
  note A = credit_adopts [OF s(2,3) plain(1)]
  let ?x = "lb_Remaining b1" and ?h = "f64_of_int (rq_Hits r1)" and ?B = "f64_of_int (lb_Burst b1)"
  have wf: "lb_wf b1" by (rule lbCredit_wf(1) [OF s(3) lbConfig_ok [OF s(2) rok assms(5)] assms(5) rok])
  have "lb_Burst b1 \<le> 2 ^ 53" using A(1) burst by (simp add: has_cfg_def)
  note x = booked_balance [OF s(4) assms(22) wf this, simplified, OF assms(9)]
  let ?b = "b2\<lparr>lb_Remaining := snapToZero (fMin ?B (?x - ?h))\<rparr>"
  have "1 \<le> round64 (of_int (rq_Hits r2))"
    by (rule round64_ge) (use assms(10) repr64_int [of 1] in simp_all)
  then have h2: "1 \<le> val (f64_of_int (rq_Hits r2))" "is_fin (f64_of_int (rq_Hits r2))"
    using assms(16) by (simp_all add: f64_of_int_fin)
  have "rs_RetryAfter rl1 \<le> scheduleWait ?r2 ?b t ?rate"
    unfolding D(4) A(2) withBurst_sel
    by (rule scheduleWait_mono) (use queue_step [OF x(1,2,4) h2(2,1) x(3,5)] D(5) good good_rate_pos_val good_rate_def in auto)
  moreover have "\<not> IsExpired now i'"
    using leaky_expiry_kept [OF assms(3) s(8) assms(20)] s(9,10) t A(4) assms(6,9,17) by (auto simp: leaky_req_ok_def)
  moreover have "has_cfg b2 ?r2" "t \<le> lb_UpdatedAt b2" "lb_Burst b2 = lb_Burst b1"
    using A(1,3) D(5) assms(11,12) burst(3) by (simp_all add: has_cfg_def)
  moreover have "lb_Remaining b2 = ?x - ?h" using D(5) by simp
  ultimately show ?thesis
    using booking_behind [OF s(5) _ _ s(7) run2 plain(2) assms(8,10,19), of ?B] s(6) assms(7,11,12) t x(3,6,7) by auto
qed

lemma booking_state:
  assumes "wok w" "wlook w (HashKey r) = Some i" "\<not> IsExpired now i" "ci_Value i = LeakyValue b"
    and "leakyBucket now st r reqState w = (Inr rl, w')" "rs_Status rl = SCHEDULED"
  obtains i' b' where "wok w'" "wlook w' (HashKey r) = Some i'" "ci_Value i' = LeakyValue b'"
    "ci_InvalidAt i' = ci_InvalidAt i" "rs_ResetTime rl \<le> ci_ExpireAt i'"
proof (rule leakyBucket_live_stages [OF assms(1-5)])
  fix c t cfg b1 rate f b2 i'
  assume s: "decision b1 (withBurst r) reqState t rate = (rl, b2)" "wok w'" "wlook w' (HashKey r) = Some i'"
    "ci_Value i' = LeakyValue b2" "ci_InvalidAt i' = ci_InvalidAt i"
    "rs_Status rl = SCHEDULED \<Longrightarrow> fullAt b2 rate \<le> ci_ExpireAt i'"
  show thesis by (rule that [OF s(2-5)]) (use s(6) assms(6) decision_booked(9) [OF s(1) assms(6)] in simp)
qed

text \<open>Two bookings of two hits each on a bucket with one token left, at five tokens a second.\<close>

definition booking0 :: RateLimitReq where
  "booking0 = req0\<lparr>rq_MaxWait := 1000\<rparr>"

lemma booking0_sel [simp]:
  "rq_MaxWait booking0 = 1000" "rq_Hits booking0 = 2" "rq_Limit booking0 = 5" "rq_Duration booking0 = 1000"
  "rq_Burst booking0 = 0" "rq_Behavior booking0 = 0" "HashKey booking0 = ''n_k''" "rq_CreatedAt booking0 = Some 7"
  "leaky_req_ok time0 booking0"
  by (simp_all add: booking0_def HashKey_def leaky_req_ok_req0)

lemma scheduleWait_sample: "scheduleWait (booking0\<lparr>rq_Burst := 5\<rparr>) (lbi (Fin 1)) 7 (Fin 200) = 200"
  "millis (Fin 1207) = 1207" "Milliseconds 60000000000 = 60000" "\<not> unusableRate (Fin 200)"
  by code_simp+

lemma leakyStep_booked:
  "leakyStep time0 (withBurst booking0) rs0 (lbi (Fin 1)) 7 =
     Inr ((mkResp SCHEDULED 5 0 1207)\<lparr>rs_RetryAfter := 200\<rparr>, lbi (Fin (- 1)))"
  by (simp add: sample_step whole_min)
    (simp add: decision_eval lbi_def fullAt_def scheduleWait_sample scheduleWait_sample(1) [unfolded lbi_def])

lemma booked0:
  obtains w1 i1 where
    "leakyBucket time0 None booking0 rs0 (leaky_state0 (Fin 1)) = (Inr ((mkResp SCHEDULED 5 0 1207)\<lparr>rs_RetryAfter := 200\<rparr>), w1)"
    "wok w1" "wlook w1 ''n_k'' = Some i1" "ci_Value i1 = LeakyValue (lbi (Fin (- 1)))" "\<not> IsExpired time0 i1"
proof (rule leaky0_step [OF leakyStep_booked booking0_sel(7,8)])
  let ?rl = "(mkResp SCHEDULED 5 0 1207)\<lparr>rs_RetryAfter := 200\<rparr>"
  fix w1
  assume w1: "leakyBucket time0 None booking0 rs0 (leaky_state0 (Fin 1)) = (Inr ?rl, w1)"
    "map_option ci_Value (wlook w1 ''n_k'') = Some (LeakyValue (lbi (Fin (- 1))))" "wok w1"
  have l: "wlook (leaky_state0 (Fin 1)) (HashKey booking0) = Some (leaky0 (Fin 1))" by simp
  obtain i1 b' where i1: "wlook w1 (HashKey booking0) = Some i1" "ci_InvalidAt i1 = ci_InvalidAt (leaky0 (Fin 1))"
    "rs_ResetTime ?rl \<le> ci_ExpireAt i1"
    by (rule booking_state [OF leaky_state0(1) l leaky0_live leaky0_value w1(1)]) (auto simp: mkResp_def)
  then have "\<not> IsExpired time0 i1" by (simp add: IsExpired_def leaky0_def mkResp_def)
  then show thesis using that [OF w1(1,3)] i1(1) w1(2) by simp
qed

theorem leaky_bookings_in_order_witness:
  "\<exists>rl1 w1 rl2 w2. leakyBucket time0 None booking0 rs0 (leaky_state0 (Fin 1)) = (Inr rl1, w1) \<and>
     rs_Status rl1 = SCHEDULED \<and> leakyBucket time0 None booking0 rs0 w1 = (Inr rl2, w2) \<and>
     (rs_Status rl2 = NEVER_FITS \<or>
      (rs_Status rl2 = SCHEDULED \<or> rs_Status rl2 = OVER_LIMIT) \<and> rs_RetryAfter rl1 \<le> rs_RetryAfter rl2)"
proof (rule booked0)
  fix w1 i1
  let ?rl1 = "(mkResp SCHEDULED 5 0 1207)\<lparr>rs_RetryAfter := 200\<rparr>"
  assume w1: "leakyBucket time0 None booking0 rs0 (leaky_state0 (Fin 1)) = (Inr ?rl1, w1)"
    "wok w1" "wlook w1 ''n_k'' = Some i1" "ci_Value i1 = LeakyValue (lbi (Fin (- 1)))" "\<not> IsExpired time0 i1"
  obtain rl2 b2 where "leakyStep time0 (withBurst booking0) rs0 (lbi (Fin (- 1))) 7 = Inr (rl2, b2)"
    by (simp add: sample_step fMin_def IsNaN_def less_f64_def) fastforce
  then have "fst (leakyBucket time0 None booking0 rs0 w1) = Inr rl2"
    using leakyBucket_step(1) [OF w1(2) _ w1(5,4)] w1(3) by simp
  then obtain w2 where w2: "leakyBucket time0 None booking0 rs0 w1 = (Inr rl2, w2)" by (metis prod.collapse)
  have S: "rs_Status ?rl1 = SCHEDULED" by (simp add: mkResp_def)
  have "wlook (leaky_state0 (Fin 1)) (HashKey booking0) = Some (leaky0 (Fin 1))" by simp
  from leaky_bookings_in_order [OF leaky_state0(1) this leaky0_live leaky0_value lb_wf_lbi booking0_sel(9) refl
      _ _ _ refl refl refl _ _ _ _ _ _ _ w1(1) S w2] w1(1) w2 S
  show ?thesis by (fastforce simp: HasBehavior_def in64_def minI64_def maxI64_def)
qed



subsection \<open>Two deviations\<close>

lemma full_maxI64: "f64_of_int maxI64 = Fin (2 ^ 63)"
  by code_simp

lemma wholeTokens_maxI64: "wholeTokens (Fin (2 ^ 63)) = minI64"
  by code_simp


text \<open>The witness: a bucket of the largest limit, just created.\<close>

definition maxBucket :: CacheItem where
  "maxBucket = (leaky0 (Fin 0))\<lparr>ci_Value := LeakyValue \<lparr>lb_Limit = maxI64, lb_Duration = 1000,
     lb_Remaining = f64_of_int maxI64, lb_UpdatedAt = 7, lb_Burst = maxI64\<rparr>\<rparr>"


lemma gregorian_rate:
  assumes "0 < d" "d < l" "d \<le> 5" "in64 l"
  shows "int64_of (rateOf d l) = 0"
proof -
  have nz: "d \<noteq> 0" "l \<noteq> 0" "in64 d" using assms by (auto simp: in64_def minI64_def maxI64_def)
  note V = rateOf_val [OF nz(3) assms(4) nz(1,2)]
  have d: "val (f64_of_int d) = of_int d" using assms by (simp add: f64_of_int_exact)
  have "(of_int (d + 1) :: rat) \<le> round64 (of_int l)"
    by (rule round64_ge [OF _ repr64_int]) (use assms in simp_all)
  then have l: "of_int d + 1 \<le> val (f64_of_int l)" using assms(4) by (simp add: f64_of_int_fin)
  have "val (f64_of_int d) / val (f64_of_int l) \<le> of_int d / (of_int d + 1)"
    unfolding d by (rule frac_le) (use l assms in simp_all)
  also have "\<dots> \<le> 7 / 8"
  proof -
    have "(of_int d :: rat) \<le> 5" using assms(3) by simp
    then show ?thesis using assms(1) by (simp add: divide_le_eq)
  qed
  finally have q: "val (f64_of_int d) / val (f64_of_int l) \<le> 7 / 8" .
  have "repr64 (7 / 8)" unfolding repr64_def by (rule exI [of _ 7], rule exI [of _ "- 3"]) (simp add: power_int_minus)
  then have "val (rateOf d l) \<le> 7 / 8" unfolding V(2) by (rule round64_le [OF q])
  moreover have "0 \<le> val (rateOf d l)" unfolding V(2) using l assms(1) d by (intro round64_nonneg) simp
  ultimately have "\<lfloor>val (rateOf d l)\<rfloor> = 0" by linarith
  then show ?thesis using V(1) \<open>0 \<le> val (rateOf d l)\<close> by (cases "rateOf d l") (auto simp: truncate_rat_def in64_def minI64_def maxI64_def)
qed



end
