(* ===== verification/GoStrings.thy ===== *)
theory GoStrings
  imports HashRing
begin

text \<open>
  The part of Go's packages \<^verbatim>\<open>strings\<close>, \<^verbatim>\<open>strconv\<close>, \<^verbatim>\<open>time\<close> and \<^verbatim>\<open>net\<close> that the configuration and
  the discovery of peers use: splitting and trimming, numbers, durations and \<^verbatim>\<open>host:port\<close> addresses.
  A string is a list of bytes. Where the program only logs an error, the parser returns an option.
\<close>

subsection \<open>Errors as a monad\<close>

definition bindE :: "'e + 'a \<Rightarrow> ('a \<Rightarrow> 'e + 'b) \<Rightarrow> 'e + 'b" where
  "bindE m f = (case m of Inl e \<Rightarrow> Inl e | Inr x \<Rightarrow> f x)"

lemma bindE_simps [simp]: "bindE (Inl e) f = Inl e" "bindE (Inr x) f = f x"
  by (simp_all add: bindE_def)

lemma bindE_Inr_iff: "bindE m f = Inr y \<longleftrightarrow> (\<exists>x. m = Inr x \<and> f x = Inr y)"
  by (cases m) simp_all

definition wrapE :: "string \<Rightarrow> goerr + 'a \<Rightarrow> goerr + 'a" where
  "wrapE msg m = (case m of Inl e \<Rightarrow> Inl (WrapErr msg e) | Inr x \<Rightarrow> Inr x)"

lemma wrapE_Inr_iff [simp]: "wrapE msg m = Inr x \<longleftrightarrow> m = Inr x"
  by (cases m) (simp_all add: wrapE_def)

definition guardE :: "bool \<Rightarrow> goerr \<Rightarrow> goerr + unit" where
  "guardE ok e = (if ok then Inr () else Inl e)"

lemma guardE_Inr_iff [simp]: "guardE ok e = Inr u \<longleftrightarrow> ok"
  by (simp add: guardE_def)

subsection \<open>Splitting and trimming\<close>

definition quoted :: "string \<Rightarrow> string" where
  "quoted s = [CHR 0x27] @ s @ [CHR 0x27]"

definition HasPrefix :: "string \<Rightarrow> string \<Rightarrow> bool" where
  "HasPrefix s p \<longleftrightarrow> take (length p) s = p"

lemma HasPrefix_Nil [simp]: "HasPrefix s []"
  and HasPrefix_Cons [simp]: "HasPrefix (c # s) (d # p) \<longleftrightarrow> c = d \<and> HasPrefix s p"
  and HasPrefix_Nil_Cons [simp]: "\<not> HasPrefix [] (d # p)"
  by (auto simp: HasPrefix_def)

lemma HasPrefix_append [simp]: "HasPrefix (p @ s) p"
  by (simp add: HasPrefix_def)

lemma HasPrefix_shorter: "HasPrefix s p \<Longrightarrow> p \<noteq> [] \<Longrightarrow> length s - length p < length s"
  by (cases p; cases s) auto

text \<open>\<^verbatim>\<open>strings.Split\<close> by one character; the result is never empty.\<close>

fun Split :: "char \<Rightarrow> string \<Rightarrow> string list" where
  "Split sep [] = [[]]"
| "Split sep (c # s) =
     (if c = sep then [] # Split sep s
      else (case Split sep s of [] \<Rightarrow> [[c]] | p # ps \<Rightarrow> (c # p) # ps))"

text \<open>\<^verbatim>\<open>strings.Join\<close>.\<close>

fun Join :: "string \<Rightarrow> string list \<Rightarrow> string" where
  "Join sep [] = []"
| "Join sep [s] = s"
| "Join sep (s # t # ss) = s @ sep @ Join sep (t # ss)"

lemma Split_not_Nil [simp]: "Split sep s \<noteq> []"
  by (induction s) (auto split: list.splits)

lemma Split_append_sep: "sep \<notin> set p \<Longrightarrow> Split sep (p @ sep # s) = p # Split sep s"
  by (induction p) auto

lemma Split_no_sep: "sep \<notin> set p \<Longrightarrow> Split sep p = [p]"
  by (induction p) auto

lemma Split_Join:
  "ss \<noteq> [] \<Longrightarrow> (\<And>s. s \<in> set ss \<Longrightarrow> sep \<notin> set s) \<Longrightarrow> Split sep (Join [sep] ss) = ss"
  by (induction "[sep]" ss rule: Join.induct) (simp_all add: Split_append_sep Split_no_sep)

lemma Split_pieces: "p \<in> set (Split sep s) \<Longrightarrow> sep \<notin> set p"
  by (induction s arbitrary: p) (auto split: list.splits if_splits)

text \<open>\<^verbatim>\<open>strings.SplitN(s, sep, 2)\<close>: one piece, or the text before and after the first separator.\<close>

fun SplitN2 :: "char \<Rightarrow> string \<Rightarrow> string \<times> string option" where
  "SplitN2 sep [] = ([], None)"
| "SplitN2 sep (c # s) =
     (if c = sep then ([], Some s) else (case SplitN2 sep s of (p, r) \<Rightarrow> (c # p, r)))"

lemma SplitN2_append: "sep \<notin> set p \<Longrightarrow> SplitN2 sep (p @ sep # s) = (p, Some s)"
  by (induction p) auto

text \<open>
  \<^verbatim>\<open>strings.TrimSpace\<close> removes Unicode white space: the ASCII characters, and the UTF-8 encodings of
  U+0085, U+00A0, U+1680, U+2000 to U+200A, U+2028, U+2029, U+202F, U+205F and U+3000.
\<close>

definition spaceSeqs :: "string list" where
  "spaceSeqs =
     [[CHR '' ''], [CHR 0x09], [CHR 0x0A], [CHR 0x0B], [CHR 0x0C], [CHR 0x0D],
      [CHR 0xC2, CHR 0x85], [CHR 0xC2, CHR 0xA0], [CHR 0xE1, CHR 0x9A, CHR 0x80],
      [CHR 0xE2, CHR 0x80, CHR 0x80], [CHR 0xE2, CHR 0x80, CHR 0x81], [CHR 0xE2, CHR 0x80, CHR 0x82],
      [CHR 0xE2, CHR 0x80, CHR 0x83], [CHR 0xE2, CHR 0x80, CHR 0x84], [CHR 0xE2, CHR 0x80, CHR 0x85],
      [CHR 0xE2, CHR 0x80, CHR 0x86], [CHR 0xE2, CHR 0x80, CHR 0x87], [CHR 0xE2, CHR 0x80, CHR 0x88],
      [CHR 0xE2, CHR 0x80, CHR 0x89], [CHR 0xE2, CHR 0x80, CHR 0x8A], [CHR 0xE2, CHR 0x80, CHR 0xA8],
      [CHR 0xE2, CHR 0x80, CHR 0xA9], [CHR 0xE2, CHR 0x80, CHR 0xAF], [CHR 0xE2, CHR 0x81, CHR 0x9F],
      [CHR 0xE3, CHR 0x80, CHR 0x80]]"

function trimStart :: "string list \<Rightarrow> string \<Rightarrow> string" where
  "trimStart seqs s =
     (case find (\<lambda>p. p \<noteq> [] \<and> HasPrefix s p) seqs of
        None \<Rightarrow> s
      | Some p \<Rightarrow> trimStart seqs (drop (length p) s))"
  by pat_completeness auto
termination
  by (relation "measure (length \<circ> snd)")
     (auto simp: HasPrefix_shorter dest!: find_Some_mem)

declare trimStart.simps [simp del]

definition TrimSpace :: "string \<Rightarrow> string" where
  "TrimSpace s = rev (trimStart (map rev spaceSeqs) (rev (trimStart spaceSeqs s)))"

text \<open>A string without a white space at either end is left as it is.\<close>

definition trimmed :: "string \<Rightarrow> bool" where
  "trimmed s \<longleftrightarrow> (\<forall>p \<in> set spaceSeqs. \<not> HasPrefix s p \<and> \<not> HasPrefix (rev s) (rev p))"

lemma spaceSeqs_not_Nil: "[] \<notin> set spaceSeqs"
  by (simp add: spaceSeqs_def)

lemma trimStart_id: "(\<And>p. p \<in> set seqs \<Longrightarrow> p \<noteq> [] \<Longrightarrow> \<not> HasPrefix s p) \<Longrightarrow> trimStart seqs s = s"
  by (subst trimStart.simps) (auto split: option.split dest!: find_Some_mem)

lemma TrimSpace_trimmed: "trimmed s \<Longrightarrow> TrimSpace s = s"
  unfolding TrimSpace_def trimmed_def by (subst trimStart_id, simp, subst trimStart_id, auto)

subsection \<open>Numbers\<close>

definition isDigit :: "char \<Rightarrow> bool" where
  "isDigit c \<longleftrightarrow> 48 \<le> (of_char c :: nat) \<and> (of_char c :: nat) \<le> 57"

definition digitVal :: "char \<Rightarrow> nat" where
  "digitVal c = of_char c - 48"

definition digitsVal :: "string \<Rightarrow> nat" where
  "digitsVal ds = foldl (\<lambda>n c. 10 * n + digitVal c) 0 ds"

text \<open>\<^verbatim>\<open>strconv.ParseInt(s, 10, 64)\<close>: an optional sign and at least one digit, within 64 bits.\<close>

definition parseUnsigned :: "string \<Rightarrow> nat option" where
  "parseUnsigned ds = (if ds = [] \<or> \<not> list_all isDigit ds then None else Some (digitsVal ds))"

definition ParseInt :: "string \<Rightarrow> i64 option" where
  "ParseInt s =
     (let (neg, ds) = (case s of c # r \<Rightarrow> if c = CHR ''+'' then (False, r) else if c = CHR ''-'' then (True, r) else (False, s)
                               | [] \<Rightarrow> (False, []))
      in case parseUnsigned ds of
           None \<Rightarrow> None
         | Some n \<Rightarrow>
             if \<not> neg \<and> int n \<le> maxI64 then Some (int n)
             else if neg \<and> int n \<le> maxI64 + 1 then Some (- int n)
             else None)"

definition numError :: "string \<Rightarrow> goerr" where
  "numError s = Errorf (''strconv.Atoi: parsing '' @ [CHR 0x22] @ s @ [CHR 0x22])"

definition Atoi :: "string \<Rightarrow> goerr + int" where
  "Atoi s = (case ParseInt s of None \<Rightarrow> Inl (numError s) | Some n \<Rightarrow> Inr n)"

definition ParseBool :: "string \<Rightarrow> bool option" where
  "ParseBool s =
     (if s \<in> {''1'', ''t'', ''T'', ''true'', ''TRUE'', ''True''} then Some True
      else if s \<in> {''0'', ''f'', ''F'', ''false'', ''FALSE'', ''False''} then Some False
      else None)"

definition Itoa :: "int \<Rightarrow> string" where
  "Itoa n = (if n < 0 then CHR ''-'' # itoa (nat (- n)) else itoa (nat n))"

lemma isDigit_char_of [simp]: "n < 10 \<Longrightarrow> isDigit (char_of (48 + n))"
  and digitVal_char_of [simp]: "n < 10 \<Longrightarrow> digitVal (char_of (48 + n)) = n"
  by (simp_all add: isDigit_def digitVal_def)

lemma itoa_digits: "list_all isDigit (itoa n) \<and> itoa n \<noteq> [] \<and> digitsVal (itoa n) = n"
proof (induction n rule: itoa.induct)
  case (1 n)
  show ?case
  proof (cases "n < 10")
    case True
    then show ?thesis by (simp add: itoa.simps [of n] digitsVal_def)
  next
    case False
    then show ?thesis using 1 by (simp add: itoa.simps [of n] digitsVal_def)
  qed
qed

lemma isDigit_not_sign: "isDigit c \<Longrightarrow> c \<noteq> CHR ''+'' \<and> c \<noteq> CHR ''-''"
  by (auto simp: isDigit_def)

lemma parseUnsigned_itoa [simp]: "parseUnsigned (itoa n) = Some n"
  using itoa_digits [of n] by (simp add: parseUnsigned_def)

text \<open>Printing a 64-bit integer and parsing it gives it back.\<close>

lemma ParseInt_Itoa:
  assumes "in64 n"
  shows "ParseInt (Itoa n) = Some n"
proof -
  obtain c ds where it: "itoa (nat n) = c # ds" and d: "isDigit c"
    using itoa_digits [of "nat n"] by (cases "itoa (nat n)") auto
  show ?thesis
  proof (cases "n < 0")
    case True
    with assms show ?thesis by (simp add: Itoa_def ParseInt_def in64_def minI64_def maxI64_def)
  next
    case False
    with assms it isDigit_not_sign [OF d] show ?thesis
      using parseUnsigned_itoa [of "nat n"] by (simp add: Itoa_def ParseInt_def in64_def)
  qed
qed

subsection \<open>Durations\<close>

text \<open>
  \<^verbatim>\<open>time.ParseDuration\<close>: a sign and a sequence of decimal numbers with a unit, summed in unsigned 64-bit
  arithmetic with the overflow checks of the library; fractions are scaled in \<^verbatim>\<open>float64\<close>.
\<close>

fun leadingInt :: "int \<Rightarrow> string \<Rightarrow> (int \<times> string) option" where
  "leadingInt x [] = Some (x, [])"
| "leadingInt x (c # s) =
     (if \<not> isDigit c then Some (x, c # s)
      else if x > 2 ^ 63 div 10 then None
      else (let x' = 10 * x + int (digitVal c) in if x' > 2 ^ 63 then None else leadingInt x' s))"

fun leadingFraction :: "int \<Rightarrow> f64 \<Rightarrow> bool \<Rightarrow> string \<Rightarrow> int \<times> f64 \<times> string" where
  "leadingFraction x scale over [] = (x, scale, [])"
| "leadingFraction x scale over (c # s) =
     (if \<not> isDigit c then (x, scale, c # s)
      else if over \<or> x > (2 ^ 63 - 1) div 10 then leadingFraction x scale True s
      else (let y = 10 * x + int (digitVal c)
            in if y > 2 ^ 63 then leadingFraction x scale True s
               else leadingFraction y (scale * Fin 10) False s))"

definition unitMap :: "(string \<times> int) list" where
  "unitMap =
     [(''ns'', 1), (''us'', 1000), ([CHR 0xC2, CHR 0xB5, CHR ''s''], 1000), ([CHR 0xCE, CHR 0xBC, CHR ''s''], 1000),
      (''ms'', ns_per_ms), (''s'', ns_per_s), (''m'', ns_per_min), (''h'', ns_per_hour)]"

text \<open>The part from a period on: the digits of the fraction, their scale, the rest, and whether there were digits.\<close>

fun durationFraction :: "string \<Rightarrow> int \<times> f64 \<times> string \<times> bool" where
  "durationFraction [] = (0, Fin 1, [], False)"
| "durationFraction (c # r) =
     (if c = CHR ''.''
      then (case leadingFraction 0 (Fin 1) False r of (f, scale, r') \<Rightarrow> (f, scale, r', length r' \<noteq> length r))
      else (0, Fin 1, c # r, False))"

definition scaledFraction :: "int \<Rightarrow> f64 \<Rightarrow> int \<Rightarrow> int" where
  "scaledFraction f scale unit = (if f > 0 then int64_of (f64_of_int f * (f64_of_int unit div scale)) else 0)"

text \<open>One number with its unit: its value in nanoseconds, and the rest of the string.\<close>

definition durationPart :: "string \<Rightarrow> (int \<times> string) option" where
  "durationPart s =
     (case leadingInt 0 s of
        None \<Rightarrow> None
      | Some (v, s1) \<Rightarrow>
          (case durationFraction s1 of
             (f, scale, s2, post) \<Rightarrow>
               (let u = takeWhile (\<lambda>c. \<not> (c = CHR ''.'' \<or> isDigit c)) s2
                in if length s1 = length s \<and> \<not> post then None
                   else if u = [] then None
                   else (case map_of unitMap u of
                           None \<Rightarrow> None
                         | Some unit \<Rightarrow>
                             if v > 2 ^ 63 div unit then None
                             else if v * unit + scaledFraction f scale unit > 2 ^ 63 then None
                             else Some (v * unit + scaledFraction f scale unit, drop (length u) s2)))))"

lemma leadingInt_length: "leadingInt x s = Some (v, r) \<Longrightarrow> length r \<le> length s"
  by (induction x s rule: leadingInt.induct) (auto simp: Let_def split: if_splits)

lemma leadingFraction_length: "leadingFraction x sc over s = (f, sc', r) \<Longrightarrow> length r \<le> length s"
  by (induction x sc over s rule: leadingFraction.induct) (auto simp: Let_def split: if_splits)

lemma durationFraction_length: "durationFraction s = (f, sc, r, post) \<Longrightarrow> length r \<le> length s"
  by (induction s rule: durationFraction.induct)
     (auto split: if_splits prod.splits dest: leadingFraction_length)

lemma durationPart_length:
  assumes "durationPart s = Some (w, r)"
  shows "length r < length s"
proof -
  obtain v s1 where v: "leadingInt 0 s = Some (v, s1)"
    using assms by (cases "leadingInt 0 s") (auto simp: durationPart_def)
  obtain f scale s2 post where m: "durationFraction s1 = (f, scale, s2, post)"
    by (rule prod_cases4)
  let ?u = "takeWhile (\<lambda>c. \<not> (c = CHR ''.'' \<or> isDigit c)) s2"
  have "?u \<noteq> [] \<and> r = drop (length ?u) s2"
    using assms unfolding durationPart_def v m Let_def option.case prod.case
    by (simp only: option.simps split: if_split_asm option.split_asm) simp
  then have "length r < length s2" by (cases s2) auto
  with leadingInt_length [OF v] durationFraction_length [OF m] show ?thesis by linarith
qed

function durationSum :: "int \<Rightarrow> string \<Rightarrow> int option" where
  "durationSum d s =
     (if s = [] then Some d
      else if \<not> (hd s = CHR ''.'' \<or> isDigit (hd s)) then None
      else (case durationPart s of
              None \<Rightarrow> None
            | Some (w, r) \<Rightarrow>
                (let d' = (d + w) mod 2 ^ 64 in if d' > 2 ^ 63 then None else durationSum d' r)))"
  by pat_completeness auto
termination
  by (relation "measure (\<lambda>(d, s). length s)") (auto dest: durationPart_length)

declare durationSum.simps [simp del]

definition ParseDuration :: "string \<Rightarrow> i64 option" where
  "ParseDuration s =
     (let (neg, r) = (case s of c # r \<Rightarrow> if c = CHR ''-'' then (True, r) else if c = CHR ''+'' then (False, r) else (False, s)
                              | [] \<Rightarrow> (False, []))
      in if r = ''0'' then Some 0
         else if r = [] then None
         else (case durationSum 0 r of
                 None \<Rightarrow> None
               | Some d \<Rightarrow> if neg then Some (wrap64 (- wrap64 d)) else if d > 2 ^ 63 - 1 then None else Some d))"

subsection \<open>Addresses\<close>

definition addrErr :: "string \<Rightarrow> string \<Rightarrow> goerr" where
  "addrErr hostport why = Errorf (''address '' @ hostport @ '': '' @ why)"

text \<open>The text before and after the last occurrence of a character.\<close>

fun splitLast :: "char \<Rightarrow> string \<Rightarrow> (string \<times> string) option" where
  "splitLast sep [] = None"
| "splitLast sep (c # s) =
     (case splitLast sep s of
        Some (p, q) \<Rightarrow> Some (c # p, q)
      | None \<Rightarrow> if c = sep then Some ([], s) else None)"

lemma splitLast_append: "sep \<notin> set q \<Longrightarrow> splitLast sep (p @ sep # q) = Some (p, q)"
proof (induction p)
  case Nil
  then have "splitLast sep q = None" by (induction q) auto
  then show ?case by simp
qed simp

lemma splitLast_None: "splitLast sep s = None \<Longrightarrow> sep \<notin> set s"
  by (induction s) (auto split: option.splits if_splits)

lemma splitLast_Some: "splitLast sep s = Some (p, q) \<Longrightarrow> s = p @ sep # q \<and> sep \<notin> set q"
  by (induction s arbitrary: p) (auto split: option.splits if_splits dest: splitLast_None)

text \<open>\<^verbatim>\<open>net.SplitHostPort\<close>, with the checks for brackets and colons of the library.\<close>

definition bracketHost :: "string \<Rightarrow> string \<Rightarrow> string \<Rightarrow> goerr + string" where
  "bracketHost hostport before rest =
     (if CHR '']'' \<notin> set rest then Inl (addrErr hostport (''missing '' @ quoted '']'' @ '' in address''))
      else
        (let host = takeWhile (\<lambda>c. c \<noteq> CHR '']'') rest; after = drop (Suc (length host)) rest
         in if after = [] then Inl (addrErr hostport ''missing port in address'')
            else if before = CHR ''['' # host @ '']'' then Inr host
            else if hd after = CHR '':'' then Inl (addrErr hostport ''too many colons in address'')
            else Inl (addrErr hostport ''missing port in address'')))"

definition SplitHostPort :: "string \<Rightarrow> goerr + string \<times> string" where
  "SplitHostPort hostport =
     (case splitLast (CHR '':'') hostport of
        None \<Rightarrow> Inl (addrErr hostport ''missing port in address'')
      | Some (before, port) \<Rightarrow>
          if hd hostport = CHR ''[''
          then bindE (bracketHost hostport before (tl hostport)) (\<lambda>host.
                 if CHR ''['' \<in> set (tl hostport)
                 then Inl (addrErr hostport (''unexpected '' @ quoted ''['' @ '' in address''))
                 else if CHR '']'' \<in> set (drop (length host + 2) hostport)
                 then Inl (addrErr hostport (''unexpected '' @ quoted '']'' @ '' in address''))
                 else Inr (host, port))
          else if CHR '':'' \<in> set before then Inl (addrErr hostport ''too many colons in address'')
          else if CHR ''['' \<in> set hostport
          then Inl (addrErr hostport (''unexpected '' @ quoted ''['' @ '' in address''))
          else if CHR '']'' \<in> set hostport
          then Inl (addrErr hostport (''unexpected '' @ quoted '']'' @ '' in address''))
          else Inr (before, port))"

definition JoinHostPort :: "string \<Rightarrow> string \<Rightarrow> string" where
  "JoinHostPort host port =
     (if CHR '':'' \<in> set host then ''['' @ host @ '']:'' @ port else host @ '':'' @ port)"

text \<open>What a host and a port may contain so that joining and splitting them gives them back.\<close>

definition hostOk :: "string \<Rightarrow> bool" where
  "hostOk h \<longleftrightarrow> CHR ''['' \<notin> set h \<and> CHR '']'' \<notin> set h"

definition portOk :: "string \<Rightarrow> bool" where
  "portOk p \<longleftrightarrow> CHR '':'' \<notin> set p \<and> CHR ''['' \<notin> set p \<and> CHR '']'' \<notin> set p"

lemma takeWhile_bracket: "CHR '']'' \<notin> set h \<Longrightarrow> takeWhile (\<lambda>c. c \<noteq> CHR '']'') (h @ CHR '']'' # r) = h"
  by (induction h) auto

lemma SplitHostPort_JoinHostPort:
  assumes "hostOk h" "portOk p"
  shows "SplitHostPort (JoinHostPort h p) = Inr (h, p)"
proof (cases "CHR '':'' \<in> set h")
  case True
  let ?b = "CHR ''['' # h @ '']''"
  have last: "splitLast (CHR '':'') (?b @ CHR '':'' # p) = Some (?b, p)"
    using assms by (intro splitLast_append) (simp add: portOk_def)
  have "bracketHost (?b @ CHR '':'' # p) ?b (h @ CHR '']'' # CHR '':'' # p) = Inr h"
    using assms takeWhile_bracket [of h] by (simp add: bracketHost_def Let_def hostOk_def)
  with last assms show ?thesis
    by (simp add: True JoinHostPort_def SplitHostPort_def hostOk_def portOk_def)
next
  case False
  have last: "splitLast (CHR '':'') (h @ CHR '':'' # p) = Some (h, p)"
    using assms by (intro splitLast_append) (simp add: portOk_def)
  have "hd (h @ CHR '':'' # p) \<noteq> CHR ''[''"
    using assms by (cases h) (auto simp: hostOk_def)
  with last False assms show ?thesis
    by (simp add: JoinHostPort_def SplitHostPort_def hostOk_def portOk_def)
qed

text \<open>The two parts of an address that can be split may be joined and split again.\<close>

lemma SplitHostPort_ok:
  assumes "SplitHostPort s = Inr (h, p)"
  shows "hostOk h \<and> portOk p"
proof -
  obtain before where sl: "splitLast (CHR '':'') s = Some (before, p)"
    using assms by (auto simp: SplitHostPort_def bindE_def split: option.splits if_splits sum.splits)
  note s = splitLast_Some [OF sl]
  show ?thesis
  proof (cases "hd s = CHR ''[''")
    case True
    have b: "bracketHost s before (tl s) = Inr h" and o: "CHR ''['' \<notin> set (tl s)"
      and c: "CHR '']'' \<notin> set (drop (length h + 2) s)"
      using assms True by (auto simp: SplitHostPort_def sl bindE_def split: sum.splits if_splits)
    from b have h: "h = takeWhile (\<lambda>c. c \<noteq> CHR '']'') (tl s)" and be: "before = CHR ''['' # h @ '']''"
      by (auto simp: bracketHost_def Let_def split: if_splits)
    have "set h \<subseteq> set (tl s)" "CHR '']'' \<notin> set h"
      unfolding h by (auto dest: set_takeWhileD)
    moreover from s be have "s = CHR ''['' # h @ CHR '']'' # CHR '':'' # p" by simp
    ultimately show ?thesis using o c s by (auto simp: hostOk_def portOk_def)
  next
    case False
    then have "CHR ''['' \<notin> set s" "CHR '']'' \<notin> set s" "h = before"
      using assms by (auto simp: SplitHostPort_def sl split: if_splits)
    with s show ?thesis by (auto simp: hostOk_def portOk_def)
  qed
qed

lemma JoinHostPort_inj: "JoinHostPort h p = JoinHostPort h' p \<Longrightarrow> hostOk h \<Longrightarrow> hostOk h' \<Longrightarrow> portOk p \<Longrightarrow> h = h'"
  using SplitHostPort_JoinHostPort by (metis Pair_inject sum.inject(2))

end
