(* ===== verification/Workers.thy ===== *)
theory Workers
  imports Config LeakyProps GoStrings
begin

text \<open>
  The worker pool of \<^verbatim>\<open>workers.go\<close>: every worker owns a cache and serves the keys whose 63-bit hash
  falls in its slice. A request is handed to the goroutine of its worker and the caller waits for the
  answer or for the end of its context; the three outcomes of the two \<^verbatim>\<open>select\<close> statements are a
  parameter of the call. The caches of all workers, the shared counters and the store are one state.
\<close>

subsection \<open>State\<close>

record 's WorkerPool =
  wp_hasher :: "string \<Rightarrow> 64 word"
  wp_caches :: "LRUCache list"
  wp_workerCacheSize :: int
  wp_hashRingStep :: "64 word"
  wp_conf :: Config
  wp_isClosed :: bool
  wp_Store :: "'s StoreOps option"
  wp_store :: 's
  wp_metrics :: metrics
  wp_commands :: "nat \<Rightarrow> string \<Rightarrow> nat"
  wp_errors :: "string \<Rightarrow> nat"

definition ComputeHash63 :: "(string \<Rightarrow> 64 word) \<Rightarrow> string \<Rightarrow> 64 word" where
  "ComputeHash63 xxhash input = drop_bit 1 (xxhash input)"

definition divideByZero :: goerr where
  "divideByZero = Panic ''runtime error: integer divide by zero''"

definition indexOutOfRange :: goerr where
  "indexOutOfRange = Panic ''runtime error: index out of range''"

text \<open>The cache of a new worker: the factory of the configuration, called with the size per worker.\<close>

definition newWorker :: "Config \<Rightarrow> int \<Rightarrow> goerr + LRUCache" where
  "newWorker conf workerCacheSize =
     (case c_CacheFactory conf of
        None \<Rightarrow> Inl (Panic ''runtime error: invalid memory address or nil pointer dereference'')
      | Some factory \<Rightarrow> Inr (factory workerCacheSize))"

definition NewWorkerPool ::
  "Setter \<Rightarrow> (string \<Rightarrow> 64 word) \<Rightarrow> 's StoreOps option \<Rightarrow> 's \<Rightarrow> Config \<Rightarrow> goerr + 's WorkerPool" where
  "NewWorkerPool st xxhash ops s0 conf0 =
     (let conf = conf0\<lparr>c_CacheSize := sd_int st (c_CacheSize conf0) [50000]\<rparr>;
          n = c_Workers conf
      in if n < 0 then Inl (Panic ''runtime error: makeslice: len out of range'')
         else if n = 0 then Inl divideByZero
         else
           (let size = quot (c_CacheSize conf) n
            in case newWorker conf size of
                 Inl e \<Rightarrow> Inl e
               | Inr c \<Rightarrow>
                   Inr \<lparr>wp_hasher = ComputeHash63 xxhash, wp_caches = replicate (nat n) c,
                        wp_workerCacheSize = size, wp_hashRingStep = 2 ^ 63 div of_int n, wp_conf = conf,
                        wp_isClosed = False, wp_Store = ops, wp_store = s0, wp_metrics = zero_metrics,
                        wp_commands = (\<lambda>_ _. 0), wp_errors = (\<lambda>_. 0)\<rparr>))"

definition ClosePool :: "'s WorkerPool \<Rightarrow> 's WorkerPool" where
  "ClosePool p = (if wp_isClosed p then p else p\<lparr>wp_isClosed := True\<rparr>)"

definition getWorker :: "'s WorkerPool \<Rightarrow> string \<Rightarrow> goerr + nat" where
  "getWorker p key =
     (if wp_hashRingStep p = 0 then Inl divideByZero
      else
        (let idx = unat (wp_hasher p key div wp_hashRingStep p)
         in if idx < length (wp_caches p) then Inr idx else Inl indexOutOfRange))"

text \<open>The state a worker's handler runs on, and its return to the pool.\<close>

definition workerState :: "nat \<Rightarrow> 's WorkerPool \<Rightarrow> 's wstate" where
  "workerState i p = \<lparr>w_cache = wp_caches p ! i, w_metrics = wp_metrics p, w_store = wp_store p\<rparr>"

definition putWorker :: "nat \<Rightarrow> 's wstate \<Rightarrow> 's WorkerPool \<Rightarrow> 's WorkerPool" where
  "putWorker i w p = p\<lparr>wp_caches := (wp_caches p)[i := w_cache w], wp_metrics := w_metrics w, wp_store := w_store w\<rparr>"

definition countCommand :: "nat \<Rightarrow> string \<Rightarrow> 's WorkerPool \<Rightarrow> 's WorkerPool" where
  "countCommand i method p =
     p\<lparr>wp_commands := (wp_commands p)(i := (wp_commands p i)(method := Suc (wp_commands p i method)))\<rparr>"

subsection \<open>Requests\<close>

text \<open>\<^verbatim>\<open>countError\<close> walks the chain of wrapped errors; a deadline counts as a timeout.\<close>

fun errorLabel :: "goerr \<Rightarrow> string \<Rightarrow> string" where
  "errorLabel e defaultType =
     (if err_is e DeadlineExceeded then ''Timeout''
      else (case e of WrapErr s e' \<Rightarrow> errorLabel e' defaultType | _ \<Rightarrow> defaultType))"

declare errorLabel.simps [simp del]

definition countErr :: "string \<Rightarrow> (string \<Rightarrow> nat) \<Rightarrow> string \<Rightarrow> nat" where
  "countErr label errs = errs(label := Suc (errs label))"

definition countError :: "goerr \<Rightarrow> string \<Rightarrow> (string \<Rightarrow> nat) \<Rightarrow> string \<Rightarrow> nat" where
  "countError e defaultType errs = countErr (errorLabel e defaultType) errs"

fun algorithmNumber :: "Algorithm \<Rightarrow> int" where
  "algorithmNumber TOKEN_BUCKET = 0"
| "algorithmNumber LEAKY_BUCKET = 1"
| "algorithmNumber (OTHER_ALGORITHM n) = n"

definition handleGetRateLimit ::
  "Time \<Rightarrow> 's StoreOps option \<Rightarrow> i64 \<Rightarrow> RateLimitReq \<Rightarrow> RateLimitReqState \<Rightarrow> 's wstate \<times> (string \<Rightarrow> nat)
   \<Rightarrow> (goerr + RateLimitResp) \<times> 's wstate \<times> (string \<Rightarrow> nat)" where
  "handleGetRateLimit now ops scheduleMaxWait req reqState = (\<lambda>(w, errs).
     (case rq_Algorithm req of
        TOKEN_BUCKET \<Rightarrow>
          (case tokenBucket now ops req reqState w of
             (Inr rl, w') \<Rightarrow> (Inr rl, w', errs)
           | (Inl e, w') \<Rightarrow>
               (Inl (WrapErr ''Error in tokenBucket'' e), w', countError e ''Error in tokenBucket'' errs))
      | LEAKY_BUCKET \<Rightarrow>
          (case leakyBucket now ops req (reqState\<lparr>WaitCeiling := scheduleMaxWait\<rparr>) w of
             (Inr rl, w') \<Rightarrow> (Inr rl, w', errs)
           | (Inl e, w') \<Rightarrow>
               (Inl (WrapErr ''Error in leakyBucket'' e), w', countError e ''Error in leakyBucket'' errs))
      | OTHER_ALGORITHM n \<Rightarrow>
          (Inl (Errorf (''Invalid rate limit algorithm '' @ quoted (Itoa n))), w,
           countErr ''Invalid algorithm'' errs)))"

subsection \<open>The goroutine of a worker\<close>

definition handleLoad :: "Time \<Rightarrow> CacheItem list \<Rightarrow> 's wstate \<Rightarrow> 's wstate" where
  "handleLoad now its w = fold (wAdd now) its w"

text \<open>The number of items a worker could send before the context was done, if it was.\<close>

definition handleStore :: "nat option \<Rightarrow> LRUCache \<Rightarrow> CacheItem list" where
  "handleStore stop c = (case stop of None \<Rightarrow> Each c | Some k \<Rightarrow> take k (Each c))"

definition handleAddCacheItem :: "Time \<Rightarrow> CacheItem \<Rightarrow> 's wstate \<Rightarrow> bool \<times> 's wstate" where
  "handleAddCacheItem now item w = (fst (Add now item (wcache w)), wAdd now item w)"

definition handleGetCacheItem :: "Time \<Rightarrow> key \<Rightarrow> 's wstate \<Rightarrow> CacheItem option \<times> 's wstate" where
  "handleGetCacheItem now key w = wGet now key w"

text \<open>
  What the loop of a worker receives: a request on one of its five channels, the closing of one of
  them, or the end of the pool. \<^term>\<open>Stopped\<close> ends the loop.
\<close>

datatype command =
    GetRateLimitCmd RateLimitReq RateLimitReqState
  | StoreCmd "nat option"
  | LoadCmd "CacheItem list"
  | AddCacheItemCmd CacheItem
  | GetCacheItemCmd key
  | ChannelClosed
  | PoolDone

datatype reply =
    RateLimitReply "goerr + RateLimitResp"
  | StoreReply "CacheItem list"
  | LoadReply
  | AddCacheItemReply bool
  | GetCacheItemReply "CacheItem option"
  | Stopped

definition serve :: "nat \<Rightarrow> Time \<Rightarrow> RateLimitReq \<Rightarrow> RateLimitReqState \<Rightarrow> 's WorkerPool
    \<Rightarrow> (goerr + RateLimitResp) \<times> 's WorkerPool" where
  "serve i now req reqState p =
     (let (res, w, errs) = handleGetRateLimit now (wp_Store p) (bc_ScheduleMaxWait (c_Behaviors (wp_conf p)))
                             req reqState (workerState i p, wp_errors p)
      in (res, countCommand i ''GetRateLimit'' ((putWorker i w p)\<lparr>wp_errors := errs\<rparr>)))"

fun dispatch :: "nat \<Rightarrow> Time \<Rightarrow> command \<Rightarrow> 's WorkerPool \<Rightarrow> reply \<times> 's WorkerPool" where
  "dispatch i now (GetRateLimitCmd req reqState) p =
     (let (res, p') = serve i now req reqState p in (RateLimitReply res, p'))"
| "dispatch i now (StoreCmd stop) p = (StoreReply (handleStore stop (wp_caches p ! i)), countCommand i ''Store'' p)"
| "dispatch i now (LoadCmd its) p =
     (LoadReply, countCommand i ''Load'' (putWorker i (handleLoad now its (workerState i p)) p))"
| "dispatch i now (AddCacheItemCmd item) p =
     (let (existed, w) = handleAddCacheItem now item (workerState i p)
      in (AddCacheItemReply existed, countCommand i ''AddCacheItem'' (putWorker i w p)))"
| "dispatch i now (GetCacheItemCmd key) p =
     (let (item, w) = handleGetCacheItem now key (workerState i p)
      in (GetCacheItemReply item, countCommand i ''GetCacheItem'' (putWorker i w p)))"
| "dispatch i now ChannelClosed p = (Stopped, p)"
| "dispatch i now PoolDone p = (Stopped, p)"

subsection \<open>Calls\<close>

text \<open>
  How a hand-over to a worker ends: the worker took the request and its answer was read, the context
  of the caller was done before the worker took the request, or after that and before the answer was
  read; the worker serves the request all the same.
\<close>

datatype handover = Served | DoneBeforeSend goerr | DoneWhileServed goerr
definition call :: "handover \<Rightarrow> nat \<Rightarrow> Time \<Rightarrow> command \<Rightarrow> 's WorkerPool \<Rightarrow> (goerr + reply) \<times> 's WorkerPool" where
  "call ho i now cmd p =
     (case ho of
        DoneBeforeSend e \<Rightarrow> (Inl e, p)
      | Served \<Rightarrow> (let (r, p') = dispatch i now cmd p in (Inr r, p'))
      | DoneWhileServed e \<Rightarrow> (Inl e, snd (dispatch i now cmd p)))"

text \<open>
  A command is always answered by the reply of its kind (\<^verbatim>\<open>PoolGetRateLimit_serve\<close> below); the channels
  of the source are typed.
\<close>

definition PoolGetRateLimit ::
  "handover \<Rightarrow> Time \<Rightarrow> RateLimitReq \<Rightarrow> RateLimitReqState \<Rightarrow> 's WorkerPool
   \<Rightarrow> (goerr + RateLimitResp) \<times> 's WorkerPool" where
  "PoolGetRateLimit ho now req reqState p =
     (case getWorker p (HashKey req) of
        Inl e \<Rightarrow> (Inl e, p)
      | Inr i \<Rightarrow>
          (case call ho i now (GetRateLimitCmd req reqState) p of
             (Inr (RateLimitReply res), p') \<Rightarrow> (res, p')
           | (Inl e, p') \<Rightarrow> (Inl e, p')
           | (_, p') \<Rightarrow> (Inl (Errorf ''unreachable''), p')))"

definition PoolAddCacheItem ::
  "handover \<Rightarrow> Time \<Rightarrow> key \<Rightarrow> CacheItem \<Rightarrow> 's WorkerPool \<Rightarrow> (goerr + unit) \<times> 's WorkerPool" where
  "PoolAddCacheItem ho now key item p =
     (case getWorker p key of
        Inl e \<Rightarrow> (Inl e, p)
      | Inr i \<Rightarrow>
          (case call ho i now (AddCacheItemCmd item) p of
             (Inr _, p') \<Rightarrow> (Inr (), p')
           | (Inl e, p') \<Rightarrow> (Inl e, p')))"

definition PoolGetCacheItem ::
  "handover \<Rightarrow> Time \<Rightarrow> key \<Rightarrow> 's WorkerPool \<Rightarrow> (goerr + CacheItem option) \<times> 's WorkerPool" where
  "PoolGetCacheItem ho now key p =
     (case getWorker p key of
        Inl e \<Rightarrow> (Inl e, p)
      | Inr i \<Rightarrow>
          (case call ho i now (GetCacheItemCmd key) p of
             (Inr (GetCacheItemReply item), p') \<Rightarrow> (Inr item, p')
           | (Inl e, p') \<Rightarrow> (Inl e, p')
           | (_, p') \<Rightarrow> (Inl (Errorf ''unreachable''), p')))"

subsection \<open>Loading and saving\<close>

text \<open>
  \<^verbatim>\<open>Load\<close> sends every item of the loader to the worker of its key, which is tied up until the load
  ends, so the items may be added in the order they come; each worker that got items counts one
  command. A context that is done after \<open>k\<close> items ends the load there, perhaps with the worker of the
  next item already tied up.
\<close>

fun loadItems :: "Time \<Rightarrow> CacheItem list \<Rightarrow> 's WorkerPool \<Rightarrow> (goerr + unit) \<times> 's WorkerPool" where
  "loadItems now [] p = (Inr (), p)"
| "loadItems now (item # rest) p =
     (case getWorker p (ci_Key item) of
        Inl e \<Rightarrow> (Inl e, p)
      | Inr i \<Rightarrow> loadItems now rest (putWorker i (handleLoad now [item] (workerState i p)) p))"

definition tiedWorkers :: "CacheItem list \<Rightarrow> 's WorkerPool \<Rightarrow> nat list" where
  "tiedWorkers its p =
     remdups (List.map_filter (\<lambda>it. case getWorker p (ci_Key it) of Inr i \<Rightarrow> Some i | Inl _ \<Rightarrow> None) its)"

definition countLoads :: "CacheItem list \<Rightarrow> 's WorkerPool \<Rightarrow> 's WorkerPool" where
  "countLoads its p = fold (\<lambda>i. countCommand i ''Load'') (tiedWorkers its p) p"

definition PoolLoad ::
  "Time \<Rightarrow> goerr + CacheItem list \<Rightarrow> (nat \<times> bool \<times> goerr) option \<Rightarrow> 's WorkerPool
   \<Rightarrow> (goerr + unit) \<times> 's WorkerPool" where
  "PoolLoad now loaded stop p =
     (case loaded of
        Inl e \<Rightarrow> (Inl (WrapErr ''Error in loader.Load'' e), p)
      | Inr its \<Rightarrow>
          (case stop of
             None \<Rightarrow> (let (res, p') = loadItems now its p in (res, countLoads its p'))
           | Some (k, tied, e) \<Rightarrow>
               (case loadItems now (take k its) p of
                  (Inl e', p') \<Rightarrow> (Inl e', p')
                | (Inr _, p') \<Rightarrow> (Inl e, countLoads (take (if tied then Suc k else k) its) p'))))"

text \<open>
  \<^verbatim>\<open>Store\<close> asks every worker for its items and hands them to the loader. The workers send on one
  channel; the model takes them one worker after the other. \<open>sent\<close> tells for every worker whether it
  took the request before the context was done, and after how many items the context stopped it. The
  loader's \<^verbatim>\<open>Save\<close> is a parameter.
\<close>

fun storeWorkers :: "Time \<Rightarrow> (nat \<Rightarrow> nat option option) \<Rightarrow> nat list \<Rightarrow> 's WorkerPool
    \<Rightarrow> CacheItem list \<times> 's WorkerPool" where
  "storeWorkers now sent [] p = ([], p)"
| "storeWorkers now sent (i # is) p =
     (case sent i of
        None \<Rightarrow> storeWorkers now sent is p
      | Some stop \<Rightarrow>
          (case dispatch i now (StoreCmd stop) p of
             (StoreReply out, p1) \<Rightarrow> (let (rest, p2) = storeWorkers now sent is p1 in (out @ rest, p2))
           | (_, p1) \<Rightarrow> storeWorkers now sent is p1))"

definition PoolStore ::
  "(CacheItem list \<Rightarrow> 'l \<Rightarrow> (goerr + unit) \<times> 'l) \<Rightarrow> goerr option \<Rightarrow> (nat \<Rightarrow> nat option option) \<Rightarrow> Time
   \<Rightarrow> 's WorkerPool \<times> 'l \<Rightarrow> (goerr + unit) \<times> 's WorkerPool \<times> 'l" where
  "PoolStore save ctxErr sent now = (\<lambda>(p, l).
     (case storeWorkers now sent [0..<length (wp_caches p)] p of
        (out, p') \<Rightarrow>
          (case ctxErr of
             Some e \<Rightarrow> (Inl e, p', l)
           | None \<Rightarrow>
               (case save out l of
                  (Inl e, l') \<Rightarrow> (Inl (WrapErr ''while calling p.conf.Loader.Save()'' e), p', l')
                | (Inr _, l') \<Rightarrow> (Inr (), p', l')))))"

text \<open>The items of all workers.\<close>

definition PoolItems :: "'s WorkerPool \<Rightarrow> CacheItem list" where
  "PoolItems p = concat (map (handleStore None) (wp_caches p))"

lemma PoolGetRateLimit_serve:
  assumes "getWorker p (HashKey req) = Inr i"
  shows "PoolGetRateLimit ho now req reqState p =
    (case ho of DoneBeforeSend e \<Rightarrow> (Inl e, p) | Served \<Rightarrow> serve i now req reqState p
     | DoneWhileServed e \<Rightarrow> (Inl e, snd (serve i now req reqState p)))"
  using assms by (cases ho; cases "serve i now req reqState p") (simp_all add: PoolGetRateLimit_def call_def)

lemma storeWorkers_all:
  "\<exists>p'. storeWorkers now (\<lambda>_. Some None) is p = (concat (map (\<lambda>i. handleStore None (wp_caches p ! i)) is), p')
     \<and> wp_caches p' = wp_caches p"
proof (induction "is" arbitrary: p)
  case (Cons i "is")
  have "wp_caches (countCommand i ''Store'' p) = wp_caches p" by (simp add: countCommand_def)
  then show ?case using Cons.IH [of "countCommand i ''Store'' p"] by auto
qed simp

subsection \<open>A handler touches one key\<close>

lemma leakyBucketNewItem_others:
  assumes "wok w"
  shows "others_kept (HashKey r) w (snd (leakyBucketNewItem now st r reqState w))"
    and "wok (snd (leakyBucketNewItem now st r reqState w))"
  using assms
  by (simp_all add: leakyBucketNewItem_def Let_def others_kept_same others_kept_wAdd split: option.split sum.split)

lemma leakyBucket_others:
  assumes "wok w"
  shows "others_kept (HashKey r) w (snd (leakyBucket now None r reqState w)) \<and>
    wok (snd (leakyBucket now None r reqState w))"
proof (cases "rq_CreatedAt r")
  case None
  then show ?thesis using assms by (simp add: leakyBucket_def)
next
  case (Some c)
  let ?r = "withBurst r" and ?k = "HashKey r"
  obtain found w1 where g: "wGet now ?k w = (found, w1)" by fastforce
  have f: "fetchItem now None ?r w = (found, w1)" using fetchItem_None_store [OF assms, of now ?r] g by simp
  have w1: "wok w1" "others_kept ?k w w1"
    using wok_ops(1) [OF assms, of now ?k] others_kept_ops(1) [OF assms, of ?k now] by (simp_all add: g)
  note new = leakyBucketNewItem_others [where r = ?r and now = now and st = None and reqState = reqState, unfolded withBurst_sel]
  show ?thesis
  proof (cases "saneItem ?k found")
    case None
    then show ?thesis using new [OF w1(1)] others_kept_trans [OF w1(2)] Some by (simp add: leakyBucket_def f)
  next
    case sane: (Some item)
    then have found: "found = Some item" by (auto simp: saneItem_def split: option.splits if_splits)
    show ?thesis
    proof (cases "\<exists>b. ci_Value item = LeakyValue b")
      case False
      have w2: "wok (wRemove ?k w1)" "others_kept ?k w (wRemove ?k w1)"
        using w1 others_kept_trans [OF w1(2) others_kept_ops(3) [OF w1(1)]] by simp_all
      have "leakyBucket now None r reqState w = leakyBucketNewItem now None ?r reqState (wRemove ?k w1)"
        using False sane Some by (cases "ci_Value item") (auto simp: leakyBucket_def f storeRemove_def)
      then show ?thesis using new [OF w2(1)] others_kept_trans [OF w2(2)] by simp
    next
      case True
      then obtain b where b: "ci_Value item = LeakyValue b" by blast
      let ?t = "lbClock now ?r b c"
      have look: "wlook w ?k = Some item" "\<not> IsExpired now item" using wGet_Some [OF assms, of now ?k item] g found by simp_all
      show ?thesis
      proof (cases "lbConfig now ?r b ?t")
        case (Inl e)
        then show ?thesis using sane Some b w1 by (simp add: leakyBucket_def f leakyBucketExisting_def)
      next
        case (Inr cfg)
        obtain b1 rate fg where cr: "lbCredit cfg ?r ?t b = (b1, rate, fg)" by (metis prod_cases3)
        obtain rl b2 where de: "decision b1 ?r reqState ?t rate = (rl, b2)" by fastforce
        obtain out w' where o: "leakyBucket now None r reqState w = (out, w')" by fastforce
        show ?thesis
          by (rule leakyBucket_live [OF assms look b Some Inr cr de o]) (simp add: o others_kept_def)
      qed
    qed
  qed
qed

lemma handleGetRateLimit_others:
  assumes "wok w" "handleGetRateLimit now None mw req reqState (w, errs) = (res, w', errs')"
  shows "others_kept (HashKey req) w w' \<and> wok w'"
proof (cases "rq_Algorithm req")
  case TOKEN_BUCKET
  obtain out w1 where t: "tokenBucket now None req reqState w = (out, w1)" by fastforce
  then have "others_kept (HashKey req) w w1 \<and> wok w1"
    using tokenBucket_others [OF assms(1), of req now reqState] by simp
  then show ?thesis using assms(2) TOKEN_BUCKET t by (cases out) (auto simp: handleGetRateLimit_def)
next
  case LEAKY_BUCKET
  let ?rs = "reqState\<lparr>WaitCeiling := mw\<rparr>"
  obtain out w1 where t: "leakyBucket now None req ?rs w = (out, w1)" by fastforce
  then have "others_kept (HashKey req) w w1 \<and> wok w1"
    using leakyBucket_others [OF assms(1), of req now ?rs] by simp
  then show ?thesis using assms(2) LEAKY_BUCKET t by (cases out) (auto simp: handleGetRateLimit_def)
next
  case (OTHER_ALGORITHM n)
  then show ?thesis using assms by (auto simp: handleGetRateLimit_def)
qed

subsection \<open>Slices of the hash space\<close>

lemma getWorker_sel [simp]:
  "getWorker (countCommand i m p) = getWorker p"
  "i < length (wp_caches p) \<Longrightarrow> getWorker (putWorker i w p) = getWorker p"
  "getWorker (p\<lparr>wp_errors := e\<rparr>) = getWorker p"
  by (auto simp: getWorker_def countCommand_def putWorker_def fun_eq_iff)

lemma getWorker_bound: "getWorker p k = Inr i \<Longrightarrow> i < length (wp_caches p)"
  by (auto simp: getWorker_def Let_def split: if_splits)

text \<open>
  A pool is sound when every cache is, and every cached key is in the cache of the worker that the
  hash of the key selects: no key can be in two caches.
\<close>

definition pool_ok :: "'s WorkerPool \<Rightarrow> bool" where
  "pool_ok p \<longleftrightarrow> (\<forall>i < length (wp_caches p). wok (workerState i p) \<and>
     (\<forall>k. wlook (workerState i p) k \<noteq> None \<longrightarrow> getWorker p k = Inr i))"

definition poolLook :: "'s WorkerPool \<Rightarrow> key \<Rightarrow> CacheItem option" where
  "poolLook p k = (case getWorker p k of Inl e \<Rightarrow> None | Inr i \<Rightarrow> lookup (wp_caches p ! i) k)"

lemma pool_okD:
  assumes "pool_ok p" "i < length (wp_caches p)"
  shows "wok (workerState i p)" "wlook (workerState i p) k \<noteq> None \<Longrightarrow> getWorker p k = Inr i"
  using assms unfolding pool_ok_def by blast+

lemma workerState_put:
  assumes "i < length (wp_caches p)"
  shows "wlook (workerState j (putWorker i w p)) = (if j = i then wlook w else wlook (workerState j p))"
    "wok (workerState j (putWorker i w p)) = (if j = i then wok w else wok (workerState j p))"
    "wlook (workerState j (countCommand i' m p)) = wlook (workerState j p)"
    "wok (workerState j (countCommand i' m p)) = wok (workerState j p)"
    "wlook (workerState j (p\<lparr>wp_errors := e\<rparr>)) = wlook (workerState j p)"
    "wok (workerState j (p\<lparr>wp_errors := e\<rparr>)) = wok (workerState j p)"
  using assms
  by (auto simp: workerState_def putWorker_def countCommand_def wlook_def wok_def wcache_def lru_ok_def fun_eq_iff)

lemma pool_ok_put:
  assumes "pool_ok p" "i < length (wp_caches p)" "wok w"
    and "\<And>k. wlook w k \<noteq> None \<Longrightarrow> getWorker p k = Inr i"
  shows "pool_ok (putWorker i w p)"
  unfolding pool_ok_def
proof (intro allI impI)
  fix j assume "j < length (wp_caches (putWorker i w p))"
  then have j: "j < length (wp_caches p)" by (simp add: putWorker_def)
  show "wok (workerState j (putWorker i w p)) \<and>
      (\<forall>k. wlook (workerState j (putWorker i w p)) k \<noteq> None \<longrightarrow> getWorker (putWorker i w p) k = Inr j)"
  proof (cases "j = i")
    case True
    then show ?thesis using assms by (simp add: workerState_put getWorker_sel(2))
  next
    case False
    then show ?thesis using pool_okD [OF assms(1) j] assms(2) by (simp add: workerState_put getWorker_sel(2))
  qed
qed

lemma pool_ok_sel [simp]:
  "pool_ok (countCommand i m p) = pool_ok p" "pool_ok (p\<lparr>wp_errors := e\<rparr>) = pool_ok p"
  "poolLook (countCommand i m p) = poolLook p" "poolLook (p\<lparr>wp_errors := e\<rparr>) = poolLook p"
proof -
  show "pool_ok (countCommand i m p) = pool_ok p" "pool_ok (p\<lparr>wp_errors := e\<rparr>) = pool_ok p"
    by (simp_all add: pool_ok_def workerState_def countCommand_def getWorker_def)
  show "poolLook (countCommand i m p) = poolLook p" "poolLook (p\<lparr>wp_errors := e\<rparr>) = poolLook p"
    by (simp_all add: poolLook_def fun_eq_iff countCommand_def getWorker_def split: sum.split)
qed

lemma serve_state:
  assumes "wp_Store p = None" "serve i now req reqState p = (res, p')" "wok (workerState i p)"
  obtains w errs where "p' = countCommand i ''GetRateLimit'' ((putWorker i w p)\<lparr>wp_errors := errs\<rparr>)"
    "others_kept (HashKey req) (workerState i p) w" "wok w"
proof -
  obtain out w errs where h: "handleGetRateLimit now None (bc_ScheduleMaxWait (c_Behaviors (wp_conf p))) req reqState
      (workerState i p, wp_errors p) = (out, w, errs)" by (metis prod_cases3)
  then have "p' = countCommand i ''GetRateLimit'' ((putWorker i w p)\<lparr>wp_errors := errs\<rparr>)"
    using assms(1,2) by (auto simp: serve_def)
  then show thesis using that handleGetRateLimit_others [OF assms(3) h] by blast
qed

lemma others_kept_routed:
  assumes "others_kept k w w'" "\<And>k'. wlook w k' \<noteq> None \<Longrightarrow> getWorker p k' = Inr i" "getWorker p k = Inr i"
    and "wlook w' k' \<noteq> None"
  shows "getWorker p k' = Inr i"
  using assms by (cases "k' = k") (auto simp: others_kept_def)

lemma pool_serve:
  assumes "pool_ok p" "wp_Store p = None" "getWorker p (HashKey req) = Inr i"
    and "serve i now req reqState p = (res, p')"
  shows "pool_ok p'" "\<And>k. k \<noteq> HashKey req \<Longrightarrow> poolLook p' k = poolLook p k \<or> poolLook p' k = None \<and> getWorker p k = Inr i"
proof -
  have i: "i < length (wp_caches p)" using getWorker_bound [OF assms(3)] .
  note ok = pool_okD [OF assms(1) i]
  obtain w errs where p': "p' = countCommand i ''GetRateLimit'' ((putWorker i w p)\<lparr>wp_errors := errs\<rparr>)"
    and w: "others_kept (HashKey req) (workerState i p) w" "wok w"
    by (rule serve_state [OF assms(2,4) ok(1)])
  have "getWorker p k = Inr i" if "wlook w k \<noteq> None" for k
    by (rule others_kept_routed [OF w(1) ok(2) assms(3) that])
  then show "pool_ok p'" using pool_ok_put [OF assms(1) i w(2)] by (simp add: p')
  show "poolLook p' k = poolLook p k \<or> poolLook p' k = None \<and> getWorker p k = Inr i" if k: "k \<noteq> HashKey req" for k
  proof (cases "getWorker p k")
    case (Inl e)
    then show ?thesis using i by (simp add: p' poolLook_def getWorker_sel(2))
  next
    case (Inr j)
    show ?thesis
    proof (cases "j = i")
      case True
      have "poolLook p' k = wlook w k" "poolLook p k = wlook (workerState i p) k"
        using Inr True i by (simp_all add: p' poolLook_def getWorker_sel(2)) (simp_all add: putWorker_def wlook_def workerState_def)
      then show ?thesis using w(1) k Inr True by (auto simp: others_kept_def)
    next
      case False
      then have "poolLook p' k = poolLook p k"
        using Inr i by (simp add: p' poolLook_def getWorker_sel(2)) (simp add: putWorker_def)
      then show ?thesis by simp
    qed
  qed
qed

text \<open>
  C31. Isolation and routing: in a sound pool without a store, serving a request of either algorithm,
  whatever becomes of its caller, keeps the pool sound (every key is cached only by the worker its
  hash selects) and leaves every other key as it was, or evicted from the same worker's cache.
\<close>

theorem pool_request_isolation:
  assumes "pool_ok p" "wp_Store p = None" "PoolGetRateLimit ho now req reqState p = (res, p')"
  shows "pool_ok p' \<and> (\<forall>k. k \<noteq> HashKey req \<longrightarrow>
    poolLook p' k = poolLook p k \<or> poolLook p' k = None \<and> getWorker p k = getWorker p (HashKey req))"
proof (cases "getWorker p (HashKey req)")
  case (Inl e)
  then show ?thesis using assms by (simp add: PoolGetRateLimit_def)
next
  case (Inr i)
  obtain out p1 where s: "serve i now req reqState p = (out, p1)" by fastforce
  have "p' = p \<or> p' = p1" using assms(3) Inr s by (auto simp: PoolGetRateLimit_serve split: handover.splits)
  then show ?thesis using pool_serve [OF assms(1,2) Inr s] assms(1) Inr by auto
qed

subsection \<open>Saving and loading the caches\<close>

lemma cacheSize_Add [simp]: "cacheSize (fst (snd (Add now item (c, m)))) = cacheSize c"
  by (auto simp: Add_def removeOldest_def removeElement_def Let_def split: option.splits prod.splits)

lemma wAdd_room:
  assumes "wok w" "wlook w (ci_Key item) = None" "int (length (items (w_cache w))) < cacheSize (w_cache w)"
  shows "items (w_cache (wAdd now item w)) = item # items (w_cache w)"
    "cacheSize (w_cache (wAdd now item w)) = cacheSize (w_cache w)"
proof -
  let ?c = "w_cache w"
  have inv: "lru_inv ?c" using assms(1) by (simp add: wok_def wcache_def lru_ok_iff)
  have c: "w_cache (wAdd now item w) = fst (snd (Add now item (?c, w_metrics w)))"
    by (simp add: wAdd_def with_cache_def wcache_def case_prod_beta)
  have "spec_remove (ci_Key item) (items ?c) = items ?c" using assms(2) by (intro spec_remove_absent) (simp add: wlook_def)
  then show "items (w_cache (wAdd now item w)) = item # items ?c"
    using items_Add [OF inv, of now item "w_metrics w"] assms(3) by (simp add: c spec_add_def)
  show "cacheSize (w_cache (wAdd now item w)) = cacheSize ?c" by (simp add: c)
qed

text \<open>The items of a list that belong to a worker, and room for them.\<close>

definition routed :: "'s WorkerPool \<Rightarrow> nat \<Rightarrow> CacheItem list \<Rightarrow> CacheItem list" where
  "routed p i its = filter (\<lambda>it. getWorker p (ci_Key it) = Inr i) its"

definition has_room :: "'s WorkerPool \<Rightarrow> CacheItem list \<Rightarrow> bool" where
  "has_room p its \<longleftrightarrow> (\<forall>i < length (wp_caches p).
     int (length (items (wp_caches p ! i)) + length (routed p i its)) \<le> cacheSize (wp_caches p ! i))"

lemma caches_put [simp]: "wp_caches (putWorker i w p) = (wp_caches p)[i := w_cache w]"
  by (simp add: putWorker_def)

lemma poolLook_put:
  assumes "getWorker p k = Inr i" "i < length (wp_caches p)"
  shows "poolLook (putWorker i w p) k = lookup (w_cache w) k"
  using assms by (simp add: poolLook_def getWorker_sel(2))

lemma poolLook_put_other:
  assumes "getWorker p k \<noteq> Inr i" "i < length (wp_caches p)"
  shows "poolLook (putWorker i w p) k = poolLook p k"
  using assms by (cases "getWorker p k") (auto simp: poolLook_def getWorker_sel(2))

lemma loadItems_restores:
  assumes "\<forall>i < length (wp_caches q). wok (workerState i q)" "has_room q its" "distinct (map ci_Key its)"
    and "\<forall>it \<in> set its. poolLook q (ci_Key it) = None \<and> (\<exists>i. getWorker q (ci_Key it) = Inr i)"
  shows "\<exists>q'. loadItems now its q = (Inr (), q') \<and> (\<forall>k. poolLook q' k =
    (case find (\<lambda>it. ci_Key it = k) its of Some it \<Rightarrow> Some it | None \<Rightarrow> poolLook q k))"
  using assms
proof (induction its arbitrary: q)
  case (Cons item its)
  obtain i where i: "getWorker q (ci_Key item) = Inr i" using Cons.prems(4) by auto
  have il: "i < length (wp_caches q)" using getWorker_bound [OF i] .
  let ?w = "workerState i q"
  let ?w1 = "wAdd now item ?w" and ?q1 = "putWorker i (wAdd now item ?w) q"
  have c: "w_cache ?w = wp_caches q ! i" by (simp add: workerState_def)
  have ok: "wok ?w" using Cons.prems(1) il by blast
  have fresh: "wlook ?w (ci_Key item) = None" using Cons.prems(4) i by (simp add: poolLook_def wlook_def c)
  have r: "routed q j (item # its) = (if j = i then item # routed q j its else routed q j its)" for j
    using i by (simp add: routed_def)
  have room: "int (length (items (w_cache ?w))) < cacheSize (w_cache ?w)"
    using Cons.prems(2) il by (auto simp: has_room_def c r dest!: spec [of _ i])
  note A = wAdd_room [OF ok fresh room, of now]
  have gw: "getWorker ?q1 = getWorker q" using il by (rule getWorker_sel(2))
  have look: "poolLook ?q1 k = (if k = ci_Key item then Some item else poolLook q k)" for k
  proof (cases "getWorker q k = Inr i")
    case True
    then show ?thesis using poolLook_put [OF True il] A(1) by (auto simp: lookup_def poolLook_def c)
  next
    case False
    then have "k \<noteq> ci_Key item" using i by auto
    then show ?thesis using poolLook_put_other [OF False il] by simp
  qed
  have "\<exists>q'. loadItems now its ?q1 = (Inr (), q') \<and> (\<forall>k. poolLook q' k =
      (case find (\<lambda>it. ci_Key it = k) its of Some it \<Rightarrow> Some it | None \<Rightarrow> poolLook ?q1 k))"
  proof (rule Cons.IH)
    show "\<forall>j < length (wp_caches ?q1). wok (workerState j ?q1)"
      using Cons.prems(1) wok_ops(2) [OF ok, of now item] by (simp add: workerState_put [OF il])
    show "has_room ?q1 its"
      unfolding has_room_def
    proof (intro allI impI)
      fix j assume "j < length (wp_caches ?q1)"
      then have j: "j < length (wp_caches q)" by simp
      have "routed ?q1 j its = routed q j its" by (simp add: routed_def gw)
      then show "int (length (items (wp_caches ?q1 ! j)) + length (routed ?q1 j its)) \<le> cacheSize (wp_caches ?q1 ! j)"
        using Cons.prems(2) j A il by (cases "j = i") (auto simp: has_room_def r c dest!: spec [of _ j])
    qed
    show "distinct (map ci_Key its)" using Cons.prems(3) by simp
    show "\<forall>it \<in> set its. poolLook ?q1 (ci_Key it) = None \<and> (\<exists>i. getWorker ?q1 (ci_Key it) = Inr i)"
      using Cons.prems(3,4) by (auto simp: look gw image_iff)
  qed
  then obtain q' where q': "loadItems now its ?q1 = (Inr (), q')" "\<And>k. poolLook q' k =
      (case find (\<lambda>it. ci_Key it = k) its of Some it \<Rightarrow> Some it | None \<Rightarrow> poolLook ?q1 k)" by blast
  have nf: "find (\<lambda>it. ci_Key it = ci_Key item) its = None"
    using Cons.prems(3) by (auto simp: find_None_iff image_iff)
  have "loadItems now (item # its) q = (Inr (), q')" using q'(1) i by (simp add: handleLoad_def)
  moreover have "poolLook q' k = (case find (\<lambda>it. ci_Key it = k) (item # its) of Some it \<Rightarrow> Some it | None \<Rightarrow> poolLook q k)" for k
    using q'(2) [of k] nf by (cases "k = ci_Key item") (auto simp: look split: option.splits)
  ultimately show ?case by blast
qed simp

lemma find_concat:
  assumes "\<And>j. j < length xss \<Longrightarrow> j \<noteq> i \<Longrightarrow> find P (xss ! j) = None" "i < length xss"
  shows "find P (concat xss) = find P (xss ! i)"
  using assms
proof (induction xss arbitrary: i)
  case (Cons xs xss)
  have app: "find P (xs @ ys) = (case find P xs of Some x \<Rightarrow> Some x | None \<Rightarrow> find P ys)" for ys
    by (induction xs) auto
  show ?case
  proof (cases i)
    case 0
    have "\<forall>ys\<in>set xss. find P ys = None" using Cons.prems(1) [of "Suc _"] 0 by (auto simp: in_set_conv_nth)
    then have "find P (concat xss) = None" by (auto simp: find_None_iff)
    then show ?thesis by (simp add: app 0 split: option.splits)
  next
    case (Suc n)
    have "find P xs = None" using Cons.prems(1) [of 0] Suc by simp
    moreover have "find P (concat xss) = find P (xss ! n)"
    proof (rule Cons.IH)
      show "find P (xss ! j) = None" if "j < length xss" "j \<noteq> n" for j using Cons.prems(1) [of "Suc j"] that Suc by simp
    qed (use Cons.prems(2) Suc in simp)
    ultimately show ?thesis by (simp add: app Suc)
  qed
qed simp

lemma storeWorkers_PoolItems:
  "\<exists>p'. storeWorkers now (\<lambda>_. Some None) [0..<length (wp_caches p)] p = (PoolItems p, p')"
proof -
  have "map (\<lambda>i. handleStore None (wp_caches p ! i)) [0..<length (wp_caches p)] = map (handleStore None) (wp_caches p)"
    by (rule nth_equalityI) simp_all
  then show ?thesis using storeWorkers_all [of now "[0..<length (wp_caches p)]" p] by (auto simp: PoolItems_def)
qed

lemma countLoads_look [simp]: "poolLook (countLoads its p) = poolLook p"
proof -
  have "poolLook (fold (\<lambda>i. countCommand i ''Load'') is p) = poolLook p" for "is"
    by (induction "is" arbitrary: p) simp_all
  then show ?thesis by (simp add: countLoads_def)
qed

lemma pool_items_find:
  assumes "pool_ok p"
  shows "find (\<lambda>it. ci_Key it = k) (PoolItems p) = poolLook p k"
proof -
  let ?P = "\<lambda>it. ci_Key it = k" and ?xss = "map (handleStore None) (wp_caches p)"
  have at: "find ?P (?xss ! j) = wlook (workerState j p) k" if "j < length (wp_caches p)" for j
    using that by (simp add: handleStore_def Each_def wlook_def workerState_def lookup_def items_def)
  have other: "find ?P (?xss ! j) = None" if "j < length (wp_caches p)" "getWorker p k \<noteq> Inr j" for j
    unfolding at [OF that(1)] using pool_okD(2) [OF assms that(1), of k] that(2) by blast
  show ?thesis
  proof (cases "getWorker p k")
    case (Inl e)
    have "find ?P xs = None" if "xs \<in> set ?xss" for xs
      using that other Inl by (auto simp: in_set_conv_nth)
    then show ?thesis using Inl by (auto simp: PoolItems_def poolLook_def find_None_iff)
  next
    case (Inr i)
    have i: "i < length (wp_caches p)" using getWorker_bound [OF Inr] .
    have "find ?P (concat ?xss) = find ?P (?xss ! i)"
      by (rule find_concat) (use other Inr i in auto)
    then show ?thesis using at [OF i] Inr by (simp add: PoolItems_def poolLook_def wlook_def workerState_def)
  qed
qed

lemma pool_items_distinct:
  assumes "pool_ok p"
  shows "distinct (map ci_Key (PoolItems p))"
proof -
  have part: "distinct (map ci_Key (concat (map (handleStore None) cs)))"
    if "\<forall>i < length cs. lru_core (cs ! i)"
      "\<forall>i < length cs. \<forall>j < length cs. \<forall>x \<in> set (items (cs ! i)). \<forall>y \<in> set (items (cs ! j)). ci_Key x = ci_Key y \<longrightarrow> i = j"
    for cs
    using that
  proof (induction cs)
    case (Cons c cs)
    have "distinct (map ci_Key (handleStore None c))"
      using items_distinct [of c] Cons.prems(1) [rule_format, of 0] by (simp add: handleStore_def Each_def items_def)
    moreover have "distinct (map ci_Key (concat (map (handleStore None) cs)))"
      using Cons.prems(1) [rule_format, of "Suc _"] Cons.prems(2) [rule_format, of "Suc _" "Suc _"] by (intro Cons.IH) auto
    moreover have "ci_Key x \<noteq> ci_Key y" if x: "x \<in> set (handleStore None c)" and y: "y \<in> set (concat (map (handleStore None) cs))" for x y
    proof -
      obtain d where d: "d \<in> set cs" "y \<in> set (handleStore None d)" using y by auto
      then obtain j where j: "j < length cs" "cs ! j = d" by (auto simp: in_set_conv_nth)
      show ?thesis
        using Cons.prems(2) [rule_format, of 0 "Suc j" x y] x d(2) j by (auto simp: handleStore_def Each_def items_def)
    qed
    ultimately show ?case by (force simp: image_iff)
  qed simp
  show ?thesis
    unfolding PoolItems_def
  proof (rule part)
    have w: "lru_core (wp_caches p ! i)" if "i < length (wp_caches p)" for i
      using pool_okD(1) [OF assms that] by (simp add: wok_def wcache_def workerState_def lru_ok_iff lru_inv_core)
    then show "\<forall>i < length (wp_caches p). lru_core (wp_caches p ! i)" by blast
    have r: "getWorker p (ci_Key x) = Inr i" if "i < length (wp_caches p)" "x \<in> set (items (wp_caches p ! i))" for i x
    proof (rule pool_okD(2) [OF assms that(1)])
      show "wlook (workerState i p) (ci_Key x) \<noteq> None"
        using that(2) by (auto simp: wlook_def workerState_def lookup_def find_None_iff)
    qed
    show "\<forall>i < length (wp_caches p). \<forall>j < length (wp_caches p). \<forall>x \<in> set (items (wp_caches p ! i)).
        \<forall>y \<in> set (items (wp_caches p ! j)). ci_Key x = ci_Key y \<longrightarrow> i = j"
      using r by (metis sum.inject(2))
  qed
qed

text \<open>
  C32. What an instance saves when it stops, it has again when it starts: saving the caches of a sound
  pool to a loader and loading them into the empty caches of a pool with the same hash and the same
  number of workers, each large enough, succeeds and gives back the item of every key, and no other.
\<close>

theorem pool_save_load_roundtrip:
  assumes "pool_ok p" "PoolStore (\<lambda>its l. (Inr (), MockLoader_Save its l)) None (\<lambda>_. Some None) now (p, NewMockLoader) = (Inr (), p1, saved)"
    and "getWorker q = getWorker p" "\<forall>i < length (wp_caches q). wok (workerState i q) \<and> items (wp_caches q ! i) = []"
    and "has_room q (PoolItems p)"
  shows "\<exists>q'. PoolLoad now' (Inr (fst (MockLoader_Load saved))) None q = (Inr (), q') \<and> (\<forall>k. poolLook q' k = poolLook p k)"
proof -
  let ?its = "PoolItems p"
  have saved: "fst (MockLoader_Load saved) = ?its"
    using assms(2) storeWorkers_PoolItems [of now p] by (auto simp: PoolStore_def MockLoader_Load_def MockLoader_Save_def NewMockLoader_def)
  have empty: "poolLook q k = None" for k
    using assms(4) getWorker_bound [of q k] by (auto simp: poolLook_def lookup_def split: sum.splits)
  have "\<exists>q'. loadItems now' ?its q = (Inr (), q') \<and> (\<forall>k. poolLook q' k =
      (case find (\<lambda>it. ci_Key it = k) ?its of Some it \<Rightarrow> Some it | None \<Rightarrow> poolLook q k))"
  proof (rule loadItems_restores [OF _ assms(5) pool_items_distinct [OF assms(1)]])
    show "\<forall>i < length (wp_caches q). wok (workerState i q)" using assms(4) by blast
    have "\<exists>i. getWorker q (ci_Key it) = Inr i" if "it \<in> set ?its" for it
    proof -
      have "find (\<lambda>x. ci_Key x = ci_Key it) ?its \<noteq> None" using that by (auto simp: find_None_iff)
      then have "poolLook p (ci_Key it) \<noteq> None" using pool_items_find [OF assms(1)] by simp
      then show ?thesis by (cases "getWorker p (ci_Key it)") (auto simp: poolLook_def assms(3))
    qed
    then show "\<forall>it \<in> set ?its. poolLook q (ci_Key it) = None \<and> (\<exists>i. getWorker q (ci_Key it) = Inr i)" using empty by blast
  qed
  then obtain q' where q': "loadItems now' ?its q = (Inr (), q')" "\<And>k. poolLook q' k =
      (case find (\<lambda>it. ci_Key it = k) ?its of Some it \<Rightarrow> Some it | None \<Rightarrow> poolLook q k)" by blast
  have "poolLook q' k = poolLook p k" for k
    using q'(2) [of k] pool_items_find [OF assms(1)] empty by (cases "poolLook p k") auto
  then show ?thesis using q'(1) by (auto simp: PoolLoad_def saved)
qed

subsection \<open>New pools\<close>

lemma NewWorkerPool_Inr:
  assumes "NewWorkerPool st xxhash ops s0 conf = Inr p"
  obtains c where "0 < c_Workers conf" "wp_caches p = replicate (nat (c_Workers conf)) c"
    "wp_hashRingStep p = 2 ^ 63 div of_int (c_Workers conf)" "wp_hasher p = ComputeHash63 xxhash"
    "wp_Store p = ops" "newWorker conf (quot (sd_int st (c_CacheSize conf) [50000]) (c_Workers conf)) = Inr c"
  using assms
  by (auto simp: NewWorkerPool_def Let_def newWorker_def split: if_splits sum.splits option.splits)

lemma step_unat:
  assumes "0 < n" "n \<le> 2 ^ 63"
  shows "unat (2 ^ 63 div of_int n :: 64 word) = 2 ^ 63 div nat n"
proof -
  have "uint (of_int n :: 64 word) = n" using assms by (simp add: word_of_int_inverse uint_word_of_int_eq take_bit_int_eq_self)
  then have "unat (of_int n :: 64 word) = nat n" by (simp add: unat_eq_nat_uint)
  moreover have "unat (2 ^ 63 :: 64 word) = 2 ^ 63" by simp
  ultimately show ?thesis by (simp add: unat_div)
qed

lemma hash63_bound: "unat (ComputeHash63 xxhash key) < 2 ^ 63"
proof -
  have "unat (xxhash key) < 2 ^ 64" using unsigned_less [of "xxhash key", where 'a = nat] by simp
  moreover have "unat (drop_bit 1 (xxhash key)) = unat (xxhash key) div 2"
    by (simp add: drop_bit_eq_div unat_div)
  ultimately show ?thesis by (simp add: ComputeHash63_def)
qed

lemma getWorker_index:
  assumes "NewWorkerPool st xxhash ops s0 conf = Inr p" "c_Workers conf \<le> 2 ^ 63"
  shows "getWorker p key =
    (let idx = unat (ComputeHash63 xxhash key) div (2 ^ 63 div nat (c_Workers conf))
     in if idx < nat (c_Workers conf) then Inr idx else Inl indexOutOfRange)"
proof (rule NewWorkerPool_Inr [OF assms(1)])
  fix c
  let ?n = "c_Workers conf"
  assume p: "0 < ?n" "wp_caches p = replicate (nat ?n) c" "wp_hashRingStep p = 2 ^ 63 div of_int ?n"
    "wp_hasher p = ComputeHash63 xxhash"
  have u: "unat (wp_hashRingStep p) = 2 ^ 63 div nat ?n" using step_unat [OF p(1) assms(2)] by (simp add: p(3))
  have "nat ?n \<le> 2 ^ 63" using assms(2) by simp
  then have "0 < (2 ^ 63 :: nat) div nat ?n" using p(1) by (simp add: div_greater_zero_iff)
  then have "wp_hashRingStep p \<noteq> 0" using u by auto
  then show ?thesis by (simp add: getWorker_def unat_div u p(2,4))
qed

text \<open>
  Every key has a worker when the number of workers divides two to the 63rd, as every power of two
  up to that does: the index computed from the hash of the key is always in range.
\<close>

theorem worker_index_in_range:
  assumes "NewWorkerPool st xxhash ops s0 conf = Inr p" "c_Workers conf dvd 2 ^ 63"
  shows "\<exists>i < nat (c_Workers conf). getWorker p key = Inr i"
proof (rule NewWorkerPool_Inr [OF assms(1)])
  let ?n = "nat (c_Workers conf)" and ?h = "unat (ComputeHash63 xxhash key)"
  assume n: "0 < c_Workers conf"
  have le: "c_Workers conf \<le> 2 ^ 63" using assms(2) by (rule zdvd_imp_le) simp
  have "?n dvd 2 ^ 63" using assms(2) n by (simp add: nat_dvd_iff)
  then obtain m where m: "2 ^ 63 = ?n * m" by (auto simp: dvd_def)
  have pos: "0 < ?n" using n by simp
  have "?h < m * ?n" using hash63_bound [of xxhash key] m by (simp add: mult.commute)
  then have "?h div m < ?n" by (simp add: less_mult_imp_div_less mult.commute)
  moreover have "2 ^ 63 div ?n = m" using m pos by (metis nonzero_mult_div_cancel_left not_gr_zero)
  ultimately show ?thesis using getWorker_index [OF assms(1) le] by simp
qed

text \<open>
  C33. For any other number of workers the index can be out of range: a key with the largest 63-bit hash
  makes \<^verbatim>\<open>getWorker\<close> panic.
\<close>

theorem worker_index_panics:
  assumes "NewWorkerPool st xxhash ops s0 conf = Inr p" "c_Workers conf \<le> 2 ^ 62" "\<not> c_Workers conf dvd 2 ^ 63"
    and "xxhash key = - 1"
  shows "getWorker p key = Inl indexOutOfRange"
proof (rule NewWorkerPool_Inr [OF assms(1)])
  let ?n = "nat (c_Workers conf)"
  assume n: "0 < c_Workers conf"
  let ?m = "2 ^ 63 div ?n"
  have "\<not> ?n dvd 2 ^ 63" using assms(3) n by (simp add: nat_dvd_iff)
  then have "?n * ?m \<noteq> 2 ^ 63" by (metis dvd_triv_left)
  moreover have "?n * ?m \<le> 2 ^ 63" by (rule times_div_less_eq_dividend)
  ultimately have "?n * ?m \<le> 2 ^ 63 - 1" by linarith
  moreover have "0 < ?m" using n assms(2) by (simp add: div_greater_zero_iff)
  ultimately have "?n \<le> (2 ^ 63 - 1) div ?m" by (simp only: less_eq_div_iff_mult_less_eq)
  moreover have "unat (ComputeHash63 xxhash key) = 2 ^ 63 - 1"
    by (simp add: ComputeHash63_def assms(4) unat_drop_bit_eq drop_bit_eq_div)
  ultimately show ?thesis
    using getWorker_index [OF assms(1), of key] assms(2) by (simp add: Let_def)
qed

text \<open>A pool of three workers, as \<^verbatim>\<open>NewWorkerPool\<close> makes it.\<close>

definition sampleConf :: "int \<Rightarrow> int \<Rightarrow> Config" where
  "sampleConf workers sz =
     \<lparr>c_InstanceID = ''id'', c_GRPCServers = Some 1,
      c_Behaviors = \<lparr>bc_BatchTimeout = 0, bc_BatchWait = 0, bc_BatchLimit = 0, bc_DisableBatching = False,
        bc_GlobalSyncWait = 0, bc_GlobalTimeout = 0, bc_GlobalBatchLimit = 0, bc_ForceGlobal = False,
        bc_GlobalPeerRequestsConcurrency = 0, bc_ScheduleMaxWait = 0\<rparr>,
      c_CacheFactory = Some NewLRUCache, c_hasStore = False, c_hasLoader = False, c_LocalPicker = None,
      c_RegionPicker = None, c_DataCenter = '''', c_AdvertiseAddr = '''', c_PeerTraceGRPC = False,
      c_Workers = workers, c_CacheSize = sz, c_hasEventChannel = False\<rparr>"

definition poolOf :: "int \<Rightarrow> int \<Rightarrow> (string \<Rightarrow> 64 word) \<Rightarrow> unit WorkerPool" where
  "poolOf workers sz xxhash =
     (case NewWorkerPool stdSetter xxhash None () (sampleConf workers sz) of Inr p \<Rightarrow> p | Inl _ \<Rightarrow> undefined)"

lemma NewWorkerPool_sample:
  assumes "0 < workers"
  shows "NewWorkerPool stdSetter xxhash None () (sampleConf workers sz) = Inr (poolOf workers sz xxhash)"
  using assms by (simp add: poolOf_def NewWorkerPool_def sampleConf_def newWorker_def Let_def)

theorem worker_index_in_range_witness:
  "\<exists>i < nat (c_Workers (sampleConf 4 100)). getWorker (poolOf 4 100 (\<lambda>_. - 1)) ''key'' = Inr i"
proof (rule worker_index_in_range)
  show "NewWorkerPool stdSetter (\<lambda>_. - 1) None () (sampleConf 4 100) = Inr (poolOf 4 100 (\<lambda>_. - 1))"
    by (rule NewWorkerPool_sample) simp
  show "c_Workers (sampleConf 4 100) dvd 2 ^ 63" by (simp add: sampleConf_def)
qed

theorem worker_index_panics_witness:
  "getWorker (poolOf 3 100 (\<lambda>_. - 1)) ''key'' = Inl indexOutOfRange"
proof (rule worker_index_panics)
  show "NewWorkerPool stdSetter (\<lambda>_. - 1) None () (sampleConf 3 100) = Inr (poolOf 3 100 (\<lambda>_. - 1))"
    by (rule NewWorkerPool_sample) simp
  show "c_Workers (sampleConf 3 100) \<le> 2 ^ 62" "\<not> c_Workers (sampleConf 3 100) dvd 2 ^ 63"
    by (simp_all add: sampleConf_def)
qed simp

lemma new_pool_caches:
  assumes "NewWorkerPool st xxhash ops s0 conf = Inr p" "c_CacheFactory conf = Some NewLRUCache" "i < length (wp_caches p)"
  shows "wp_caches p ! i = NewLRUCache (quot (sd_int st (c_CacheSize conf) [50000]) (c_Workers conf))"
  using assms(2,3) by (rule_tac NewWorkerPool_Inr [OF assms(1)]) (simp add: newWorker_def)

lemma new_pool_size:
  assumes "NewWorkerPool st xxhash ops s0 conf = Inr p" "c_CacheFactory conf = Some NewLRUCache" "good_setter st"
    and "0 \<le> c_CacheSize conf" "i < length (wp_caches p)"
  shows "cacheSize (wp_caches p ! i) =
    (let total = if c_CacheSize conf = 0 then 50000 else c_CacheSize conf
     in if total < c_Workers conf then 50000 else total div c_Workers conf)"
proof (rule NewWorkerPool_Inr [OF assms(1)])
  assume n: "0 < c_Workers conf"
  let ?total = "if c_CacheSize conf = 0 then 50000 else c_CacheSize conf"
  have t: "sd_int st (c_CacheSize conf) [50000] = ?total" using assms(3) by (simp add: good_setterD)
  have pos: "0 < ?total" using assms(4) by simp
  have q: "quot ?total (c_Workers conf) = ?total div c_Workers conf" using pos n by (intro quot_nonneg) auto
  have z: "?total div c_Workers conf = 0 \<longleftrightarrow> ?total < c_Workers conf"
    using pos n by (simp add: div_int_pos_iff zdiv_eq_0_iff)
  show ?thesis
    unfolding new_pool_caches [OF assms(1,2,5)] t q cacheSize_New z Let_def by (rule refl)
qed

lemma new_pool_ok:
  assumes "NewWorkerPool st xxhash ops s0 conf = Inr p" "c_CacheFactory conf = Some NewLRUCache" "good_setter st"
    and "0 \<le> c_CacheSize conf"
  shows "\<forall>i < length (wp_caches p). wok (workerState i p) \<and> items (wp_caches p ! i) = []" "pool_ok p"
proof -
  have "wok (workerState i p) \<and> items (wp_caches p ! i) = []" if i: "i < length (wp_caches p)" for i
  proof -
    let ?total = "if c_CacheSize conf = 0 then 50000 else c_CacheSize conf"
    have n: "0 < c_Workers conf" by (rule NewWorkerPool_Inr [OF assms(1)])
    have "0 < ?total" using assms(4) by simp
    then have "0 < cacheSize (wp_caches p ! i)"
      unfolding new_pool_size [OF assms i] Let_def using n by (simp add: pos_imp_zdiv_pos_iff)
    then show ?thesis
      using new_pool_caches [OF assms(1,2) i] NewLRUCache_inv
      by (simp add: wok_def wcache_def workerState_def lru_ok_iff items_def NewLRUCache_def)
  qed
  then show "\<forall>i < length (wp_caches p). wok (workerState i p) \<and> items (wp_caches p ! i) = []" by blast
  then show "pool_ok p" by (simp add: pool_ok_def wlook_def workerState_def lookup_def)
qed

text \<open>
  C34. The size of the caches: when the configured total is at least the number of workers, the caches of
  the workers together hold at most that many items. Otherwise the share of a worker rounds to zero,
  which the cache takes for the default of 50,000, so every worker may hold that many.
\<close>

theorem pool_capacity:
  assumes "NewWorkerPool st xxhash ops s0 conf = Inr p" "c_CacheFactory conf = Some NewLRUCache" "good_setter st"
    and "0 < c_CacheSize conf"
  shows "sum_list (map cacheSize (wp_caches p)) =
      (if c_CacheSize conf < c_Workers conf then 50000 * c_Workers conf
       else c_Workers conf * (c_CacheSize conf div c_Workers conf))
    \<and> (c_Workers conf \<le> c_CacheSize conf \<longrightarrow> sum_list (map cacheSize (wp_caches p)) \<le> c_CacheSize conf)"
proof (rule NewWorkerPool_Inr [OF assms(1)])
  let ?n = "c_Workers conf" and ?s = "c_CacheSize conf"
  fix c assume n: "0 < ?n" and cs: "wp_caches p = replicate (nat ?n) c"
  have "cacheSize c = (if ?s < ?n then 50000 else ?s div ?n)"
    using new_pool_size [OF assms(1-3), of 0] assms(4) n by (simp add: cs)
  then have "sum_list (map cacheSize (wp_caches p)) = (if ?s < ?n then 50000 * ?n else ?n * (?s div ?n))"
    using n by (simp add: cs sum_list_replicate)
  moreover have "?n * (?s div ?n) \<le> ?s" using n by (metis less_le mult.commute mult_div_mod_eq pos_mod_sign le_add_same_cancel1)
  ultimately show ?thesis by simp
qed

theorem pool_capacity_witness:
  "sum_list (map cacheSize (wp_caches (poolOf 3 100 (\<lambda>_. 0)))) = 99
   \<and> sum_list (map cacheSize (wp_caches (poolOf 8 4 (\<lambda>_. 0)))) = 400000"
proof -
  have c: "c_CacheFactory (sampleConf n s) = Some NewLRUCache" "c_CacheSize (sampleConf n s) = s"
    "c_Workers (sampleConf n s) = n" for n s by (simp_all add: sampleConf_def)
  have n: "(0 :: int) < 3" "(0 :: int) < 8" by simp_all
  show ?thesis
    using pool_capacity [OF NewWorkerPool_sample [OF n(1), of "\<lambda>_. 0" 100] c(1) good_stdSetter]
      pool_capacity [OF NewWorkerPool_sample [OF n(2), of "\<lambda>_. 0" 4] c(1) good_stdSetter]
    by (simp add: c)
qed

subsection \<open>Examples\<close>

lemma pool_ok_AddCacheItem:
  assumes "pool_ok p" "PoolAddCacheItem ho now (ci_Key item) item p = (res, p')"
  shows "pool_ok p'"
proof (cases "getWorker p (ci_Key item)")
  case (Inl e)
  then show ?thesis using assms by (simp add: PoolAddCacheItem_def)
next
  case (Inr i)
  let ?w = "workerState i p"
  have i: "i < length (wp_caches p)" using getWorker_bound [OF Inr] .
  note ok = pool_okD [OF assms(1) i]
  have "getWorker p k = Inr i" if "wlook (wAdd now item ?w) k \<noteq> None" for k
    using wAdd_other [OF ok(1), of k item now] ok(2) [of k] Inr that by (cases "k = ci_Key item") auto
  then have "pool_ok (putWorker i (wAdd now item ?w) p)" using wok_ops(2) [OF ok(1)] by (intro pool_ok_put [OF assms(1) i])
  moreover have "p' = p \<or> p' = countCommand i ''AddCacheItem'' (putWorker i (wAdd now item ?w) p)"
    using assms(2) Inr by (auto simp: PoolAddCacheItem_def call_def handleAddCacheItem_def split: handover.splits)
  ultimately show ?thesis using assms(1) by auto
qed

definition poolWith :: "CacheItem \<Rightarrow> unit WorkerPool" where
  "poolWith item = snd (PoolAddCacheItem Served \<lparr>t_ns = 0, t_loc = UTC\<rparr> (ci_Key item) item (poolOf 4 100 (\<lambda>_. 0)))"

lemma poolOf_sample:
  "pool_ok (poolOf 4 100 h)" "\<forall>i < 4. wok (workerState i (poolOf 4 100 h)) \<and> items (wp_caches (poolOf 4 100 h) ! i) = []"
  "wp_Store (poolOf 4 100 h) = None" "length (wp_caches (poolOf 4 100 h)) = 4"
  "i < 4 \<Longrightarrow> cacheSize (wp_caches (poolOf 4 100 h) ! i) = 25"
proof -
  have "(0 :: int) < 4" by simp
  note N = NewWorkerPool_sample [OF this, of h 100]
  have c: "c_CacheFactory (sampleConf 4 100) = Some NewLRUCache" "0 \<le> c_CacheSize (sampleConf 4 100)"
    by (simp_all add: sampleConf_def)
  show l: "length (wp_caches (poolOf 4 100 h)) = 4" "wp_Store (poolOf 4 100 h) = None"
    by (rule NewWorkerPool_Inr [OF N], simp add: sampleConf_def)+
  show "pool_ok (poolOf 4 100 h)" by (rule new_pool_ok(2) [OF N c(1) good_stdSetter c(2)])
  show "\<forall>i < 4. wok (workerState i (poolOf 4 100 h)) \<and> items (wp_caches (poolOf 4 100 h) ! i) = []"
    using new_pool_ok(1) [OF N c(1) good_stdSetter c(2)] l by simp
  show "i < 4 \<Longrightarrow> cacheSize (wp_caches (poolOf 4 100 h) ! i) = 25"
    using new_pool_size [OF N c(1) good_stdSetter c(2), of i] l by (simp add: sampleConf_def)
qed

lemma getWorker_poolOf: "getWorker (poolOf 4 100 (\<lambda>_. 0)) k = Inr 0"
proof -
  have "(0 :: int) < 4" by simp
  note N = NewWorkerPool_sample [OF this, of "\<lambda>_. 0" 100]
  show ?thesis using getWorker_index [OF N, of k] by (simp add: sampleConf_def ComputeHash63_def)
qed

lemma poolWith_state:
  defines "p0 \<equiv> poolOf 4 100 (\<lambda>_. 0)" and "now0 \<equiv> \<lparr>t_ns = 0, t_loc = UTC\<rparr>"
  shows "pool_ok (poolWith item)" "wp_Store (poolWith item) = None" "getWorker (poolWith item) = getWorker p0"
    "PoolItems (poolWith item) = [item]"
proof -
  have len: "0 < length (wp_caches p0)" using poolOf_sample(4) by (simp add: p0_def)
  have w: "wok (workerState 0 p0)" "items (wp_caches p0 ! 0) = []" using poolOf_sample(2) by (simp_all add: p0_def)
  have eq: "poolWith item = countCommand 0 ''AddCacheItem'' (putWorker 0 (wAdd now0 item (workerState 0 p0)) p0)"
    by (simp add: poolWith_def PoolAddCacheItem_def getWorker_poolOf call_def handleAddCacheItem_def p0_def now0_def)
  show "pool_ok (poolWith item)"
    unfolding poolWith_def by (rule pool_ok_AddCacheItem [OF poolOf_sample(1) surjective_pairing])
  show "wp_Store (poolWith item) = None" using poolOf_sample(3) by (simp add: eq countCommand_def putWorker_def p0_def)
  show "getWorker (poolWith item) = getWorker p0" using getWorker_sel(2) [OF len] by (simp add: eq)
  have "items (w_cache (wAdd now0 item (workerState 0 p0))) = [item]"
    using wAdd_room(1) [OF w(1), of item now0] w(2) poolOf_sample(5) [of 0]
    by (simp add: workerState_def wlook_def lookup_def p0_def)
  moreover have "wp_caches p0 = [wp_caches p0 ! 0, wp_caches p0 ! 1, wp_caches p0 ! 2, wp_caches p0 ! 3]"
    using poolOf_sample(4) [of "\<lambda>_. 0"] unfolding p0_def by (intro nth_equalityI) (auto simp: less_Suc_eq numeral_eq_Suc)
  then have "wp_caches (poolWith item) =
      [w_cache (wAdd now0 item (workerState 0 p0)), wp_caches p0 ! 1, wp_caches p0 ! 2, wp_caches p0 ! 3]"
    by (simp add: eq countCommand_def) (metis list_update_code(2))
  ultimately show "PoolItems (poolWith item) = [item]"
    using poolOf_sample(2) [of "\<lambda>_. 0"] by (simp add: PoolItems_def handleStore_def Each_def items_def p0_def)
qed

theorem pool_request_isolation_witness:
  "let p = poolWith (sampleItem ''other'' 9);
       p' = snd (PoolGetRateLimit (DoneWhileServed Canceled) time0 req0 \<lparr>IsOwner = True, WaitCeiling = 0\<rparr> p)
   in pool_ok p' \<and> poolLook p' ''other'' \<in> {Some (sampleItem ''other'' 9), None}"
proof -
  let ?p = "poolWith (sampleItem ''other'' 9)"
  have "poolLook ?p ''other'' = Some (sampleItem ''other'' 9)"
    using pool_items_find [OF poolWith_state(1), of "''other''" "sampleItem ''other'' 9"] by (simp add: poolWith_state(4))
  moreover have "''other'' \<noteq> HashKey req0" by (simp add: HashKey_def req0_def)
  ultimately show ?thesis
    using pool_request_isolation [where p = ?p, OF poolWith_state(1,2) surjective_pairing,
        of "DoneWhileServed Canceled" time0 req0 "\<lparr>IsOwner = True, WaitCeiling = 0\<rparr>"]
    by (metis (no_types, lifting) insert_iff)
qed

theorem pool_save_load_roundtrip_witness:
  "let p = poolWith (sampleItem ''k'' 9);
       (r, p1, saved) = PoolStore (\<lambda>its l. (Inr (), MockLoader_Save its l)) None (\<lambda>_. Some None) time0 (p, NewMockLoader)
   in \<exists>q'. PoolLoad time0 (Inr (fst (MockLoader_Load saved))) None (poolOf 4 100 (\<lambda>_. 0)) = (Inr (), q')
        \<and> (\<forall>k. poolLook q' k = poolLook p k)"
proof -
  let ?p = "poolWith (sampleItem ''k'' 9)" and ?q = "poolOf 4 100 (\<lambda>_. 0)"
  obtain r p1 saved where s: "PoolStore (\<lambda>its l. (Inr (), MockLoader_Save its l)) None (\<lambda>_. Some None) time0
      (?p, NewMockLoader) = (r, p1, saved)" by (metis prod_cases3)
  then have r: "r = Inr ()" using storeWorkers_PoolItems [of time0 ?p] by (auto simp: PoolStore_def)
  have "\<exists>q'. PoolLoad time0 (Inr (fst (MockLoader_Load saved))) None ?q = (Inr (), q') \<and> (\<forall>k. poolLook q' k = poolLook ?p k)"
  proof (rule pool_save_load_roundtrip [OF poolWith_state(1) s [unfolded r]])
    show "getWorker ?q = getWorker ?p" by (simp add: poolWith_state(3))
    show "\<forall>i < length (wp_caches ?q). wok (workerState i ?q) \<and> items (wp_caches ?q ! i) = []"
      using poolOf_sample(2,4) by simp
    show "has_room ?q (PoolItems ?p)"
      using poolOf_sample(2,4,5) by (simp add: has_room_def poolWith_state(4) routed_def)
  qed
  then show ?thesis by (simp add: s)
qed

end
