(* ===== verification/PeerClient.thy ===== *)
theory PeerClient
  imports Workers Interval
begin

text \<open>
  The client of a peer, \<^verbatim>\<open>peer_client.go\<close>: forwarding a request alone or in a batch, the goroutine
  that collects batches, the errors recorded against the peer, and the shutdown that drains the
  callers; and the carrier of \<^verbatim>\<open>metadata_carrier.go\<close> that takes the trace headers along. The gRPC
  connection, the cache of errors and the trace propagator are not part of the repository and are
  parameters. What a \<^verbatim>\<open>select\<close> with the context of a caller chooses is a parameter of the call.
\<close>

subsection \<open>The metadata carrier\<close>

definition CarrierGet :: "string \<Rightarrow> metadata \<Rightarrow> string" where
  "CarrierGet k m = (case map_of m k of Some v \<Rightarrow> v | None \<Rightarrow> [])"

definition CarrierSet :: "string \<Rightarrow> string \<Rightarrow> metadata \<Rightarrow> metadata" where
  "CarrierSet k v m = AList.update k v m"

definition CarrierKeys :: "metadata \<Rightarrow> string list" where
  "CarrierKeys m = map fst m"

text \<open>The propagator sets its headers, a list of keys and values, through the carrier.\<close>

definition Inject :: "(string \<times> string) list \<Rightarrow> metadata \<Rightarrow> metadata" where
  "Inject headers m = fold (\<lambda>(k, v). CarrierSet k v) headers m"

subsection \<open>State\<close>

text \<open>The operations used of the cache of errors: an LRU cache with a time to live per entry.\<close>

record 'c ErrCache =
  ec_New :: 'c
  ec_AddWithTTL :: "Time \<Rightarrow> string \<Rightarrow> goerr \<Rightarrow> i64 \<Rightarrow> 'c \<Rightarrow> 'c"
  ec_Keys :: "'c \<Rightarrow> string list"
  ec_Get :: "Time \<Rightarrow> string \<Rightarrow> 'c \<Rightarrow> goerr option \<times> 'c"

record PeerConfig =
  pf_hasTLS :: bool
  pf_Behavior :: BehaviorConfig
  pf_Info :: PeerInfo
  pf_TraceGRPC :: bool

text \<open>A queued request: the rate limit, and the channel its answer goes to, which identifies it.\<close>

record request =
  r_request :: RateLimitReq
  r_resp :: nat

type_synonym response = "goerr + RateLimitResp"

record 'c PeerClient =
  pc_conf :: PeerConfig
  pc_queue :: "request list"
  pc_queueClosed :: bool
  pc_lastErrs :: 'c
  pc_isShutdown :: bool
  pc_connClosed :: bool

definition queueCapacity :: nat where
  "queueCapacity = 1000"

datatype DialOption = WithStatsHandler | WithTLS | WithInsecure

definition dialOptions :: "PeerConfig \<Rightarrow> DialOption list" where
  "dialOptions conf = (if pf_TraceGRPC conf then [WithStatsHandler] else []) @
     (if pf_hasTLS conf then [WithTLS] else [WithInsecure])"

text \<open>The goroutine that collects batches: its local queue and its ticker.\<close>

record runBatchState =
  rb_queue :: "request list"
  rb_interval :: Interval
  rb_running :: bool

definition runBatchStart :: runBatchState where
  "runBatchStart = \<lparr>rb_queue = [], rb_interval = NewInterval, rb_running = True\<rparr>"

definition NewPeerClient ::
  "'c ErrCache \<Rightarrow> (string \<Rightarrow> DialOption list \<Rightarrow> goerr option) \<Rightarrow> PeerConfig
   \<Rightarrow> goerr + 'c PeerClient \<times> runBatchState option" where
  "NewPeerClient ec dial conf =
     (case dial (pi_GRPCAddress (pf_Info conf)) (dialOptions conf) of
        Some e \<Rightarrow> Inl e
      | None \<Rightarrow>
          Inr (\<lparr>pc_conf = conf, pc_queue = [], pc_queueClosed = False, pc_lastErrs = ec_New ec,
                pc_isShutdown = False, pc_connClosed = False\<rparr>,
               if bc_DisableBatching (pf_Behavior conf) then None else Some runBatchStart))"

definition ClientInfo :: "'c PeerClient \<Rightarrow> PeerInfo" where
  "ClientInfo c = pf_Info (pc_conf c)"

subsection \<open>Recorded errors\<close>

definition setLastErr :: "'c ErrCache \<Rightarrow> Time \<Rightarrow> goerr option \<Rightarrow> 'c PeerClient \<Rightarrow> goerr option \<times> 'c PeerClient" where
  "setLastErr ec now err c =
     (case err of
        None \<Rightarrow> (None, c)
      | Some e \<Rightarrow>
          (Some e, c\<lparr>pc_lastErrs := ec_AddWithTTL ec now (err_msg e)
             (WrapErr (''from host '' @ pi_GRPCAddress (ClientInfo c)) e) (5 * ns_per_min) (pc_lastErrs c)\<rparr>))"

fun lastErrsOf :: "'c ErrCache \<Rightarrow> Time \<Rightarrow> string list \<Rightarrow> 'c \<Rightarrow> string list \<times> 'c" where
  "lastErrsOf ec now [] c = ([], c)"
| "lastErrsOf ec now (k # ks) c =
     (case ec_Get ec now k c of
        (None, c') \<Rightarrow> lastErrsOf ec now ks c'
      | (Some e, c') \<Rightarrow> (let (errs, c'') = lastErrsOf ec now ks c' in (err_msg e # errs, c'')))"

definition GetLastErr :: "'c ErrCache \<Rightarrow> Time \<Rightarrow> 'c PeerClient \<Rightarrow> string list \<times> 'c PeerClient" where
  "GetLastErr ec now c =
     (let (errs, l) = lastErrsOf ec now (ec_Keys ec (pc_lastErrs c)) (pc_lastErrs c)
      in (errs, c\<lparr>pc_lastErrs := l\<rparr>))"

subsection \<open>Sending\<close>

text \<open>
  The context error of every caller at the time of sending, the trace headers of every request, and
  the call of the connection are parameters. The result is the answers in the order they are sent,
  the request sent, if any, and the new state.
\<close>

definition withTrace :: "(request \<Rightarrow> (string \<times> string) list) \<Rightarrow> request \<Rightarrow> RateLimitReq" where
  "withTrace headers r =
     (let q = r_request r in q\<lparr>rq_Metadata := Some (Inject (headers r) (case rq_Metadata q of None \<Rightarrow> [] | Some m \<Rightarrow> m))\<rparr>)"

definition goneAnswers :: "(request \<Rightarrow> goerr option) \<Rightarrow> request list \<Rightarrow> (nat \<times> response) list" where
  "goneAnswers ctxErr queue =
     List.map_filter (\<lambda>r. map_option (\<lambda>e. (r_resp r, Inl (WrapErr ''Context error before sending batch'' e))) (ctxErr r)) queue"

definition itemMismatch :: "nat \<Rightarrow> (string \<Rightarrow> nat) \<Rightarrow> string \<Rightarrow> nat" where
  "itemMismatch n errs = (countErr ''Item mismatch'' ^^ n) errs"

definition sendBatch ::
  "'c ErrCache \<Rightarrow> Time \<Rightarrow> (request \<Rightarrow> (string \<times> string) list) \<Rightarrow> (request \<Rightarrow> goerr option)
   \<Rightarrow> (RateLimitReq list \<Rightarrow> goerr + RateLimitResp list) \<Rightarrow> request list \<Rightarrow> 'c PeerClient \<times> (string \<Rightarrow> nat)
   \<Rightarrow> (nat \<times> response) list \<times> RateLimitReq list option \<times> 'c PeerClient \<times> (string \<Rightarrow> nat)" where
  "sendBatch ec now headers ctxErr rpc queue = (\<lambda>(c, errs).
     (let gone = goneAnswers ctxErr queue;
          live = filter (\<lambda>r. ctxErr r = None) queue
      in if live = [] then (gone, None, c, errs)
         else
           (let req = map (withTrace headers) live
            in case rpc req of
                 Inl e \<Rightarrow>
                   (let err = WrapErr ''Error in client.GetPeerRateLimits'' e
                    in (gone @ map (\<lambda>r. (r_resp r, Inl err)) live, Some req, snd (setLastErr ec now (Some err) c), errs))
               | Inr rls \<Rightarrow>
                   if length rls \<noteq> length live
                   then
                     (let err = Errorf ''server responded with incorrect rate limit list size''
                      in (gone @ map (\<lambda>r. (r_resp r, Inl err)) live, Some req, snd (setLastErr ec now (Some err) c),
                          itemMismatch (length live) errs))
                   else (gone @ zip (map r_resp live) (map Inr rls), Some req, c, errs))))"

subsection \<open>Calls\<close>

definition clientClosing :: goerr where
  "clientClosing = StatusErr ''Canceled'' ''grpc: the client connection is closing''"

text \<open>
  What the context of a caller does during a call: its error when the call checks it, while the
  request waits for room in the queue, when the batch is sent, and while the answer is awaited.
\<close>

record callCtx =
  cc_start :: "goerr option"
  cc_enqueue :: "goerr option"
  cc_send :: "goerr option"
  cc_await :: "goerr option"

definition awaitResponse :: "callCtx \<Rightarrow> response \<Rightarrow> response" where
  "awaitResponse ctx re =
     (case cc_await ctx of
        Some e \<Rightarrow> Inl (WrapErr ''Context error while waiting for response'' e)
      | None \<Rightarrow> (case re of Inl e \<Rightarrow> Inl (WrapErr ''Request error'' e) | Inr rl \<Rightarrow> Inr rl))"

definition getPeerRateLimitSingle ::
  "'c ErrCache \<Rightarrow> Time \<Rightarrow> (string \<times> string) list \<Rightarrow> (RateLimitReq list \<Rightarrow> goerr + RateLimitResp list)
   \<Rightarrow> callCtx \<Rightarrow> RateLimitReq \<Rightarrow> 'c PeerClient \<times> (string \<Rightarrow> nat) \<Rightarrow> response \<times> 'c PeerClient \<times> (string \<Rightarrow> nat)" where
  "getPeerRateLimitSingle ec now headers rpc ctx r s =
     (if pc_queueClosed (fst s) then (Inl clientClosing, s)
      else
        (case cc_start ctx of
           Some e \<Rightarrow> (Inl (WrapErr ''Context error before sending request'' e), s)
         | None \<Rightarrow>
             (case sendBatch ec now (\<lambda>_. headers) (\<lambda>_. cc_send ctx) rpc [\<lparr>r_request = r, r_resp = 0\<rparr>] s of
                (answers, _, s') \<Rightarrow>
                  (case answers of
                     [] \<Rightarrow> (awaitResponse ctx (Inl (Errorf ''no answer'')), s')
                   | (_, re) # _ \<Rightarrow> (awaitResponse ctx re, s')))))"

text \<open>
  A batched request is put in the queue of the goroutine; the answer its batch gets is a parameter.
\<close>

definition getPeerRateLimitsBatch ::
  "callCtx \<Rightarrow> nat \<Rightarrow> response \<Rightarrow> RateLimitReq \<Rightarrow> 'c PeerClient \<Rightarrow> response \<times> 'c PeerClient" where
  "getPeerRateLimitsBatch ctx ch re r c =
     (if pc_queueClosed c then (Inl clientClosing, c)
      else
        (case cc_start ctx of
           Some e \<Rightarrow> (Inl (WrapErr ''Context error while enqueuing request'' e), c)
         | None \<Rightarrow>
             (case cc_enqueue ctx of
                Some e \<Rightarrow> (Inl (WrapErr ''Context error while enqueuing request'' e), c)
              | None \<Rightarrow> (awaitResponse ctx re, c\<lparr>pc_queue := pc_queue c @ [\<lparr>r_request = r, r_resp = ch\<rparr>]\<rparr>))))"

definition ClientGetPeerRateLimit ::
  "'c ErrCache \<Rightarrow> Time \<Rightarrow> (string \<times> string) list \<Rightarrow> (RateLimitReq list \<Rightarrow> goerr + RateLimitResp list)
   \<Rightarrow> callCtx \<Rightarrow> nat \<Rightarrow> response \<Rightarrow> RateLimitReq \<Rightarrow> 'c PeerClient \<times> (string \<Rightarrow> nat)
   \<Rightarrow> response \<times> 'c PeerClient \<times> (string \<Rightarrow> nat)" where
  "ClientGetPeerRateLimit ec now headers rpc ctx ch re r s =
     (if bc_DisableBatching (pf_Behavior (pc_conf (fst s))) \<or> HasBehavior (rq_Behavior r) NO_BATCHING
      then (case getPeerRateLimitSingle ec now headers rpc ctx r s of
              (Inl e, s') \<Rightarrow> (Inl (WrapErr ''Error in getPeerRateLimitSingle'' e), s')
            | (Inr rl, s') \<Rightarrow> (Inr rl, s'))
      else (case getPeerRateLimitsBatch ctx ch re r (fst s) of
              (Inl e, c') \<Rightarrow> (Inl (WrapErr ''Error in getPeerRateLimitsBatch'' e), c', snd s)
            | (Inr rl, c') \<Rightarrow> (Inr rl, c', snd s)))"

definition ClientGetPeerRateLimits ::
  "'c ErrCache \<Rightarrow> Time \<Rightarrow> (RateLimitReq list \<Rightarrow> goerr + RateLimitResp list) \<Rightarrow> RateLimitReq list
   \<Rightarrow> 'c PeerClient \<times> (string \<Rightarrow> nat) \<Rightarrow> (goerr + RateLimitResp list) \<times> 'c PeerClient \<times> (string \<Rightarrow> nat)" where
  "ClientGetPeerRateLimits ec now rpc rs = (\<lambda>(c, errs).
     (case rpc rs of
        Inl e \<Rightarrow>
          (let err = WrapErr ''Error in client.GetPeerRateLimits'' e
           in (Inl err, snd (setLastErr ec now (Some err) c), errs))
      | Inr rls \<Rightarrow>
          if length rls \<noteq> length rs
          then
            (let err = Errorf ''number of rate limits in peer response does not match request''
             in (Inl err, snd (setLastErr ec now (Some err) c), countErr ''Item mismatch'' errs))
          else (Inr rls, c, errs)))"

record UpdatePeerGlobal =
  ug_Key :: string
  ug_Status :: RateLimitResp
  ug_Algorithm :: Algorithm
  ug_Duration :: i64
  ug_CreatedAt :: i64

definition ClientUpdatePeerGlobals ::
  "'c ErrCache \<Rightarrow> Time \<Rightarrow> (UpdatePeerGlobal list \<Rightarrow> goerr option) \<Rightarrow> UpdatePeerGlobal list
   \<Rightarrow> 'c PeerClient \<Rightarrow> goerr option \<times> 'c PeerClient" where
  "ClientUpdatePeerGlobals ec now rpc gs c =
     (case rpc gs of
        Some e \<Rightarrow> (Some e, snd (setLastErr ec now (Some e) c))
      | None \<Rightarrow> (None, c))"

text \<open>
  Shutdown closes the connection in any case. Draining waits for the callers; the context may be done
  first, and the call then returns its error while the draining goes on (\<open>drain\<close> below).
\<close>

definition drainQueue :: "'c ErrCache \<Rightarrow> 'c PeerClient \<Rightarrow> 'c PeerClient" where
  "drainQueue ec c = c\<lparr>pc_lastErrs := ec_New ec, pc_queueClosed := True\<rparr>"

definition ShutdownClient :: "'c ErrCache \<Rightarrow> goerr option \<Rightarrow> 'c PeerClient \<Rightarrow> goerr option \<times> 'c PeerClient" where
  "ShutdownClient ec ctxErr c =
     (if pc_isShutdown c then (None, c)
      else
        (let c = c\<lparr>pc_isShutdown := True, pc_connClosed := True\<rparr>
         in case ctxErr of
              None \<Rightarrow> (None, drainQueue ec c)
            | Some e \<Rightarrow> (Some e, c)))"

subsection \<open>Collecting batches\<close>

text \<open>One turn of the loop: a request received, the end of the queue, or a tick of the interval.\<close>

definition runBatchReceive :: "int \<Rightarrow> request \<Rightarrow> runBatchState \<Rightarrow> request list list \<times> runBatchState" where
  "runBatchReceive batchLimit r rb =
     (let queue = rb_queue rb @ [r]
      in if int (length queue) \<ge> batchLimit then ([queue], rb\<lparr>rb_queue := []\<rparr>)
         else ([], rb\<lparr>rb_queue := queue,
                      rb_interval := (if length queue = 1 then Next (rb_interval rb) else rb_interval rb)\<rparr>))"

definition runBatchClosed :: "runBatchState \<Rightarrow> request list list \<times> runBatchState" where
  "runBatchClosed rb =
     (if rb_queue rb = [] then [] else [rb_queue rb],
      rb\<lparr>rb_queue := [], rb_interval := StopInterval (rb_interval rb), rb_running := False\<rparr>)"

definition runBatchTick :: "runBatchState \<Rightarrow> request list list \<times> runBatchState" where
  "runBatchTick rb =
     (let i = rb_interval rb; rb = rb\<lparr>rb_interval := i\<lparr>i_C := False, ticks := Suc (ticks i)\<rparr>\<rparr>
      in if rb_queue rb = [] then ([], rb) else ([rb_queue rb], rb\<lparr>rb_queue := []\<rparr>))"

subsection \<open>Answers of a batch\<close>

definition liveOf :: "(request \<Rightarrow> goerr option) \<Rightarrow> request list \<Rightarrow> request list" where
  "liveOf ctxErr queue = filter (\<lambda>r. ctxErr r = None) queue"

lemma goneAnswers_simps [simp]:
  "goneAnswers ctxErr [] = []"
  "goneAnswers ctxErr (r # rs) = (case ctxErr r of None \<Rightarrow> goneAnswers ctxErr rs
     | Some e \<Rightarrow> (r_resp r, Inl (WrapErr ''Context error before sending batch'' e)) # goneAnswers ctxErr rs)"
  by (simp_all add: goneAnswers_def map_filter_simps split: option.splits)

lemma gone_fst: "map fst (goneAnswers ctxErr queue) = map r_resp (filter (\<lambda>r. ctxErr r \<noteq> None) queue)"
  by (induction queue) (auto split: option.splits)

lemma gone_answer:
  "r \<in> set queue \<Longrightarrow> ctxErr r = Some e \<Longrightarrow>
    (r_resp r, Inl (WrapErr ''Context error before sending batch'' e)) \<in> set (goneAnswers ctxErr queue)"
  by (induction queue) (auto split: option.splits)

lemma sendBatch_shape:
  assumes "sendBatch ec now headers ctxErr rpc queue (c, errs) = (ans, sent, c', errs')"
  obtains rest where "ans = goneAnswers ctxErr queue @ rest" "map fst rest = map r_resp (liveOf ctxErr queue)"
    "\<And>rls. rpc (map (withTrace headers) (liveOf ctxErr queue)) = Inr rls \<Longrightarrow> length rls = length (liveOf ctxErr queue) \<Longrightarrow>
       rest = zip (map r_resp (liveOf ctxErr queue)) (map Inr rls) \<and> c' = c \<and> errs' = errs"
    "sent = (if liveOf ctxErr queue = [] then None else Some (map (withTrace headers) (liveOf ctxErr queue)))"
    "sent = None \<Longrightarrow> c' = c \<and> errs' = errs"
proof (cases "liveOf ctxErr queue = []")
  case True
  then show thesis
    using assms by (intro that [of "[]"]) (auto simp: sendBatch_def liveOf_def Let_def)
next
  case False
  let ?live = "liveOf ctxErr queue"
  show thesis
  proof (cases "rpc (map (withTrace headers) ?live)")
    case (Inl e)
    let ?err = "Inl (WrapErr ''Error in client.GetPeerRateLimits'' e)"
    show thesis
      using assms False Inl
      by (intro that [of "map (\<lambda>r. (r_resp r, ?err)) ?live"]) (auto simp: sendBatch_def liveOf_def Let_def)
  next
    case (Inr rls)
    let ?err = "Inl (Errorf ''server responded with incorrect rate limit list size'')"
    show thesis
    proof (cases "length rls = length ?live")
      case True
      then show thesis
        using assms False Inr
        by (intro that [of "zip (map r_resp ?live) (map Inr rls)"]) (auto simp: sendBatch_def liveOf_def Let_def)
    next
      case neq: False
      then show thesis
        using assms False Inr
        by (intro that [of "map (\<lambda>r. (r_resp r, ?err)) ?live"]) (auto simp: sendBatch_def liveOf_def Let_def)
    qed
  qed
qed

lemma mset_split: "mset (map f (filter (\<lambda>x. \<not> P x) xs)) + mset (map f (filter P xs)) = mset (map f xs)"
  by (induction xs) auto

lemma sendBatch_ids:
  assumes "sendBatch ec now headers ctxErr rpc queue (c, errs) = (ans, sent, c', errs')"
  shows "mset (map fst ans) = mset (map r_resp queue)"
proof -
  obtain rest where r: "ans = goneAnswers ctxErr queue @ rest" "map fst rest = map r_resp (liveOf ctxErr queue)"
    by (rule sendBatch_shape [OF assms])
  then show ?thesis
    using mset_split [of r_resp "\<lambda>r. ctxErr r = None" queue] by (simp add: gone_fst liveOf_def)
qed

text \<open>
  C13. Batching answers every caller once and with its own answer: of a batch with distinct callers,
  exactly the requests of the callers that are still there go to the peer, in order; each caller gets
  one answer; a caller that left gets its own context error, and the others, when the peer answers with
  a list of the right length, the entry at the position of their request, and nothing is recorded
  against the peer.
\<close>

theorem batch_answers_own_request:
  assumes "sendBatch ec now headers ctxErr rpc queue (c, errs) = (ans, sent, c', errs')" "distinct (map r_resp queue)"
  shows "distinct (map fst ans) \<and> fst ` set ans = r_resp ` set queue
    \<and> sent = (if liveOf ctxErr queue = [] then None else Some (map (withTrace headers) (liveOf ctxErr queue)))
    \<and> (\<forall>r e. r \<in> set queue \<longrightarrow> ctxErr r = Some e \<longrightarrow>
         map_of ans (r_resp r) = Some (Inl (WrapErr ''Context error before sending batch'' e)))
    \<and> (\<forall>rls i. rpc (map (withTrace headers) (liveOf ctxErr queue)) = Inr rls \<longrightarrow> length rls = length (liveOf ctxErr queue) \<longrightarrow>
         i < length rls \<longrightarrow> map_of ans (r_resp (liveOf ctxErr queue ! i)) = Some (Inr (rls ! i)) \<and> c' = c)"
proof -
  note ids = sendBatch_ids [OF assms(1)]
  have d: "distinct (map fst ans)" using assms(2) ids by (metis mset_eq_imp_distinct_iff)
  have s: "fst ` set ans = r_resp ` set queue" using ids by (metis list.set_map mset_eq_setD)
  obtain rest where r: "ans = goneAnswers ctxErr queue @ rest" "map fst rest = map r_resp (liveOf ctxErr queue)"
    "\<And>rls. rpc (map (withTrace headers) (liveOf ctxErr queue)) = Inr rls \<Longrightarrow> length rls = length (liveOf ctxErr queue) \<Longrightarrow>
       rest = zip (map r_resp (liveOf ctxErr queue)) (map Inr rls) \<and> c' = c \<and> errs' = errs"
    "sent = (if liveOf ctxErr queue = [] then None else Some (map (withTrace headers) (liveOf ctxErr queue)))"
    by (rule sendBatch_shape [OF assms(1)]) (rule that)
  have g: "map_of ans (r_resp q) = Some (Inl (WrapErr ''Context error before sending batch'' e))"
    if "q \<in> set queue" "ctxErr q = Some e" for q e
    using gone_answer [of q queue ctxErr e, OF that] d r(1) by (simp add: map_of_eq_Some_iff)
  have l: "map_of ans (r_resp (liveOf ctxErr queue ! i)) = Some (Inr (rls ! i))"
    if "rpc (map (withTrace headers) (liveOf ctxErr queue)) = Inr rls" "length rls = length (liveOf ctxErr queue)" "i < length rls"
    for rls i
  proof -
    have "(r_resp (liveOf ctxErr queue ! i), Inr (rls ! i)) \<in> set rest"
      using r(3) [OF that(1,2)] that(2,3) by (auto simp: set_zip intro!: exI [of _ i])
    then show ?thesis using d by (intro map_of_is_SomeI) (simp_all add: r(1))
  qed
  show ?thesis using d s g l r(3,4) by simp
qed

text \<open>A cache of errors that keeps the documented behaviour: a list of entries with their expiry.\<close>

definition stdErrCache :: "(string \<times> goerr \<times> int) list ErrCache" where
  "stdErrCache = \<lparr>ec_New = [],
     ec_AddWithTTL = (\<lambda>now k e ttl c. (k, e, UnixNano now + ttl) # take 99 (filter (\<lambda>x. fst x \<noteq> k) c)),
     ec_Keys = map fst,
     ec_Get = (\<lambda>now k c. (case map_of c k of None \<Rightarrow> (None, c)
        | Some (e, t) \<Rightarrow> if UnixNano now < t then (Some e, c) else (None, filter (\<lambda>x. fst x \<noteq> k) c)))\<rparr>"

definition sampleQueue :: "request list" where
  "sampleQueue = [\<lparr>r_request = req0, r_resp = 1\<rparr>, \<lparr>r_request = req0\<lparr>rq_Hits := 3\<rparr>, r_resp = 2\<rparr>]"

definition sampleCtx :: "request \<Rightarrow> goerr option" where
  "sampleCtx r = (if r_resp r = 1 then Some Canceled else None)"

definition sampleRpc :: "RateLimitReq list \<Rightarrow> goerr + RateLimitResp list" where
  "sampleRpc rs = Inr (map (\<lambda>q. mkResp UNDER_LIMIT (rq_Hits q) 0 0) rs)"

definition sampleClient :: "(string \<times> goerr \<times> int) list PeerClient" where
  "sampleClient = \<lparr>pc_conf = \<lparr>pf_hasTLS = False, pf_Behavior = (c_Behaviors (sampleConf 1 1))\<lparr>bc_BatchLimit := 2\<rparr>, pf_Info = pr_Info (samplePeer 1 ''a''), pf_TraceGRPC = False\<rparr>,
     pc_queue = [], pc_queueClosed = False, pc_lastErrs = [], pc_isShutdown = False, pc_connClosed = False\<rparr>"

theorem batch_answers_own_request_witness:
  "map_of (fst (sendBatch stdErrCache time0 (\<lambda>_. []) sampleCtx sampleRpc sampleQueue (sampleClient, \<lambda>_. 0))) 2 =
   Some (Inr (mkResp UNDER_LIMIT 3 0 0))"
proof -
  have l: "liveOf sampleCtx sampleQueue = [\<lparr>r_request = req0\<lparr>rq_Hits := 3\<rparr>, r_resp = 2\<rparr>]"
    by (simp add: liveOf_def sampleCtx_def sampleQueue_def)
  obtain ans sent c' errs' where s: "sendBatch stdErrCache time0 (\<lambda>_. []) sampleCtx sampleRpc sampleQueue (sampleClient, \<lambda>_. 0) =
      (ans, sent, c', errs')" by (metis prod_cases4)
  have "distinct (map r_resp sampleQueue)" by (simp add: sampleQueue_def)
  then have "map_of ans (r_resp (liveOf sampleCtx sampleQueue ! 0)) = Some (Inr (mkResp UNDER_LIMIT 3 0 0))"
    using batch_answers_own_request [OF s] by (simp add: l sampleRpc_def withTrace_def Let_def)
  then show ?thesis by (simp add: s l)
qed

subsection \<open>The client as a whole\<close>

text \<open>
  The goroutines around one client: callers of the batching path, the collector of batches with its
  ticker, the sends under way, and a shutdown. A caller joins under the mutex of the wait group, checks
  whether the queue is closed, puts its request in the channel, and leaves when it is answered or gives
  up. The shutdown takes the mutex, waits until no caller is left and closes the channel. Sending on
  the closed channel would panic.
\<close>

datatype phase = Joined | Checked | Waiting

record 'c clientSys =
  cs_client :: "'c PeerClient"
  cs_rb :: runBatchState
  cs_callers :: "nat \<Rightarrow> phase option"
  cs_locked :: bool
  cs_panic :: bool
  cs_sends :: "request list list"
  cs_enqueued :: "nat list"
  cs_answers :: "(nat \<times> response) list"
  cs_errs :: "string \<Rightarrow> nat"

definition clientStart :: "'c PeerClient \<Rightarrow> 'c clientSys" where
  "clientStart c = \<lparr>cs_client = c, cs_rb = runBatchStart, cs_callers = (\<lambda>_. None), cs_locked = False, cs_panic = False,
     cs_sends = [], cs_enqueued = [], cs_answers = [], cs_errs = (\<lambda>_. 0)\<rparr>"

definition enqueue :: "request \<Rightarrow> 'c clientSys \<Rightarrow> 'c clientSys" where
  "enqueue r s =
     (if pc_queueClosed (cs_client s) then s\<lparr>cs_panic := True\<rparr>
      else s\<lparr>cs_client := (cs_client s)\<lparr>pc_queue := pc_queue (cs_client s) @ [r]\<rparr>,
             cs_callers := (cs_callers s)(r_resp r \<mapsto> Waiting), cs_enqueued := cs_enqueued s @ [r_resp r]\<rparr>)"

definition collect :: "request list list \<times> runBatchState \<Rightarrow> 'c clientSys \<Rightarrow> 'c clientSys" where
  "collect out s = s\<lparr>cs_rb := snd out, cs_sends := cs_sends s @ fst out\<rparr>"

inductive client_step :: "'c ErrCache \<Rightarrow> 'c clientSys \<Rightarrow> 'c clientSys \<Rightarrow> bool" for ec where
  join: "\<not> cs_locked s \<Longrightarrow> cs_callers s i = None \<Longrightarrow> i \<notin> set (cs_enqueued s) \<Longrightarrow>
    client_step ec s (s\<lparr>cs_callers := (cs_callers s)(i \<mapsto> Joined)\<rparr>)"
| check: "cs_callers s i = Some Joined \<Longrightarrow> \<not> pc_queueClosed (cs_client s) \<Longrightarrow>
    client_step ec s (s\<lparr>cs_callers := (cs_callers s)(i \<mapsto> Checked)\<rparr>)"
| put: "cs_callers s (r_resp r) = Some Checked \<Longrightarrow> length (pc_queue (cs_client s)) < queueCapacity \<Longrightarrow>
    client_step ec s (enqueue r s)"
| leave_call: "cs_callers s i \<noteq> None \<Longrightarrow> client_step ec s (s\<lparr>cs_callers := (cs_callers s)(i := None)\<rparr>)"
| receive: "rb_running (cs_rb s) \<Longrightarrow> pc_queue (cs_client s) = r # rest \<Longrightarrow>
    client_step ec s (collect (runBatchReceive (bc_BatchLimit (pf_Behavior (pc_conf (cs_client s)))) r (cs_rb s))
      (s\<lparr>cs_client := (cs_client s)\<lparr>pc_queue := rest\<rparr>\<rparr>))"
| closed: "rb_running (cs_rb s) \<Longrightarrow> pc_queue (cs_client s) = [] \<Longrightarrow> pc_queueClosed (cs_client s) \<Longrightarrow>
    client_step ec s (collect (runBatchClosed (cs_rb s)) s)"
| tick: "rb_running (cs_rb s) \<Longrightarrow> i_C (rb_interval (cs_rb s)) \<Longrightarrow>
    client_step ec s (collect (runBatchTick (cs_rb s)) s)"
| clock: "interval_step (rb_interval (cs_rb s)) i \<Longrightarrow> pending i = pending (rb_interval (cs_rb s)) \<Longrightarrow>
    i_done i = i_done (rb_interval (cs_rb s)) \<Longrightarrow>
    client_step ec s (s\<lparr>cs_rb := (cs_rb s)\<lparr>rb_interval := i\<rparr>\<rparr>)"
| answer: "cs_sends s = pre @ b # post \<Longrightarrow>
    sendBatch ec now headers ctxErr rpc b (cs_client s, cs_errs s) = (ans, sent, c, errs) \<Longrightarrow>
    client_step ec s (s\<lparr>cs_sends := pre @ post, cs_answers := cs_answers s @ ans, cs_client := c, cs_errs := errs\<rparr>)"
| shutdown: "ShutdownClient ec (Some e) (cs_client s) = (res, c) \<Longrightarrow> client_step ec s (s\<lparr>cs_client := c\<rparr>)"
| lock: "pc_isShutdown (cs_client s) \<Longrightarrow> \<not> pc_queueClosed (cs_client s) \<Longrightarrow> \<not> cs_locked s \<Longrightarrow>
    client_step ec s (s\<lparr>cs_locked := True\<rparr>)"
| drain: "cs_locked s \<Longrightarrow> cs_callers s = Map.empty \<Longrightarrow>
    client_step ec s (s\<lparr>cs_client := drainQueue ec (cs_client s), cs_locked := False\<rparr>)"

text \<open>
  The invariant: no caller is past the check of a closed queue; every request put in the channel is in
  exactly one place; a batch being collected is below the limit and has a tick on its way; every batch
  sent is within the limit.
\<close>

definition sys_ids :: "'c clientSys \<Rightarrow> nat multiset" where
  "sys_ids s = mset (map r_resp (pc_queue (cs_client s))) + mset (map r_resp (rb_queue (cs_rb s)))
     + mset (map r_resp (concat (cs_sends s))) + mset (map fst (cs_answers s))"

definition client_inv :: "int \<Rightarrow> 'c clientSys \<Rightarrow> bool" where
  "client_inv limit s \<longleftrightarrow>
     bc_BatchLimit (pf_Behavior (pc_conf (cs_client s))) = limit \<and> \<not> cs_panic s \<and>
     (\<forall>i. cs_callers s i \<in> {Some Checked, Some Waiting} \<longrightarrow> \<not> pc_queueClosed (cs_client s)) \<and>
     distinct (cs_enqueued s) \<and> (\<forall>i \<in> set (cs_enqueued s). cs_callers s i \<in> {None, Some Waiting}) \<and>
     mset (cs_enqueued s) = sys_ids s \<and>
     (rb_queue (cs_rb s) = [] \<or> rb_running (cs_rb s) \<and> int (length (rb_queue (cs_rb s))) < limit
        \<and> 0 < pending (rb_interval (cs_rb s))) \<and>
     (rb_running (cs_rb s) \<longrightarrow> \<not> i_done (rb_interval (cs_rb s)) \<and> i_phase (rb_interval (cs_rb s)) \<noteq> Exited) \<and>
     (\<forall>b \<in> set (cs_sends s). b \<noteq> [] \<and> int (length b) \<le> limit)"

lemma pending_Next [simp]: "0 < pending (Next i)"
  by (simp add: Next_def pending_def)

lemma Next_sel [simp]: "i_done (Next i) = i_done i" "i_phase (Next i) = i_phase i"
  by (simp_all add: Next_def)

lemma sendBatch_conf:
  assumes "sendBatch ec now headers ctxErr rpc queue (c, errs) = (ans, sent, c', errs')"
  shows "pc_conf c' = pc_conf c" "pc_queue c' = pc_queue c" "pc_queueClosed c' = pc_queueClosed c"
    "pc_isShutdown c' = pc_isShutdown c"
  using assms by (auto simp: sendBatch_def setLastErr_def Let_def split: if_splits sum.splits)

lemma ShutdownClient_conf:
  assumes "ShutdownClient ec (Some e) c = (res, c')"
  shows "pc_conf c' = pc_conf c" "pc_queue c' = pc_queue c" "pc_queueClosed c' = pc_queueClosed c"
  using assms by (auto simp: ShutdownClient_def split: if_splits)

lemma inv_put:
  assumes "client_inv limit s" "cs_callers s (r_resp r) = Some Checked"
  shows "client_inv limit (enqueue r s)"
proof -
  have "\<not> pc_queueClosed (cs_client s)" "r_resp r \<notin> set (cs_enqueued s)"
    using assms unfolding client_inv_def by force+
  then show ?thesis using assms by (auto simp: client_inv_def enqueue_def sys_ids_def)
qed

lemma inv_receive:
  assumes "client_inv limit s" "rb_running (cs_rb s)" "pc_queue (cs_client s) = r # rest" "0 < limit"
  shows "client_inv limit (collect (runBatchReceive limit r (cs_rb s)) (s\<lparr>cs_client := (cs_client s)\<lparr>pc_queue := rest\<rparr>\<rparr>))"
proof (cases "int (length (rb_queue (cs_rb s) @ [r])) \<ge> limit")
  case True
  moreover have "int (length (rb_queue (cs_rb s) @ [r])) \<le> limit" using assms(1,4) by (auto simp: client_inv_def)
  ultimately show ?thesis
    using assms by (simp add: client_inv_def sys_ids_def collect_def runBatchReceive_def Let_def)
next
  case False
  then show ?thesis
    using assms by (auto simp: client_inv_def sys_ids_def collect_def runBatchReceive_def Let_def)
qed

lemma inv_closed:
  assumes "client_inv limit s" "pc_queue (cs_client s) = []"
  shows "client_inv limit (collect (runBatchClosed (cs_rb s)) s)"
  using assms by (auto simp: client_inv_def sys_ids_def collect_def runBatchClosed_def)

lemma inv_tick:
  assumes "client_inv limit s"
  shows "client_inv limit (collect (runBatchTick (cs_rb s)) s)"
  using assms by (auto simp: client_inv_def sys_ids_def collect_def runBatchTick_def Let_def)

lemma inv_answer:
  assumes "client_inv limit s" "cs_sends s = pre @ b # post"
    and "sendBatch ec now headers ctxErr rpc b (cs_client s, cs_errs s) = (ans, sent, c, errs)"
  shows "client_inv limit (s\<lparr>cs_sends := pre @ post, cs_answers := cs_answers s @ ans, cs_client := c, cs_errs := errs\<rparr>)"
  using assms(1,2) sendBatch_conf [OF assms(3)] sendBatch_ids [OF assms(3)]
  by (simp add: client_inv_def sys_ids_def)

lemma inv_callers:
  assumes "client_inv limit s"
  shows "cs_callers s i = None \<Longrightarrow> i \<notin> set (cs_enqueued s) \<Longrightarrow> client_inv limit (s\<lparr>cs_callers := (cs_callers s)(i \<mapsto> Joined)\<rparr>)"
    "cs_callers s i = Some Joined \<Longrightarrow> \<not> pc_queueClosed (cs_client s) \<Longrightarrow>
      client_inv limit (s\<lparr>cs_callers := (cs_callers s)(i \<mapsto> Checked)\<rparr>)"
    "client_inv limit (s\<lparr>cs_callers := (cs_callers s)(i := None)\<rparr>)"
  using assms by (auto simp: client_inv_def sys_ids_def)

lemma inv_clock:
  assumes "client_inv limit s" "interval_step (rb_interval (cs_rb s)) i"
    and "pending i = pending (rb_interval (cs_rb s))" "i_done i = i_done (rb_interval (cs_rb s))"
  shows "client_inv limit (s\<lparr>cs_rb := (cs_rb s)\<lparr>rb_interval := i\<rparr>\<rparr>)"
proof -
  have "i_phase i \<noteq> Exited" if "i_phase (rb_interval (cs_rb s)) \<noteq> Exited" "\<not> i_done (rb_interval (cs_rb s))"
    using assms(2) that by cases (auto simp: StopInterval_def)
  then show ?thesis using assms(1,3,4) by (auto simp: client_inv_def sys_ids_def)
qed

lemma inv_shutdown:
  assumes "client_inv limit s" "ShutdownClient ec (Some e) (cs_client s) = (res, c)"
  shows "client_inv limit (s\<lparr>cs_client := c\<rparr>)"
  using assms(1) ShutdownClient_conf [OF assms(2)] by (simp add: client_inv_def sys_ids_def)

lemma inv_lock:
  assumes "client_inv limit s"
  shows "client_inv limit (s\<lparr>cs_locked := True\<rparr>)"
    "cs_callers s = Map.empty \<Longrightarrow> client_inv limit (s\<lparr>cs_client := drainQueue ec (cs_client s), cs_locked := False\<rparr>)"
  using assms by (simp_all add: client_inv_def sys_ids_def drainQueue_def)

lemma client_step_inv:
  assumes "client_step ec s t" "client_inv limit s" "0 < limit"
  shows "client_inv limit t"
  using assms(1)
proof cases
  case (join i)
  then show ?thesis using inv_callers(1) [OF assms(2)] by simp
next
  case (check i)
  then show ?thesis using inv_callers(2) [OF assms(2)] by simp
next
  case (leave_call i)
  then show ?thesis using inv_callers(3) [OF assms(2)] by simp
next
  case (put r)
  then show ?thesis using inv_put [OF assms(2)] by simp
next
  case (receive r rest)
  moreover have "bc_BatchLimit (pf_Behavior (pc_conf (cs_client s))) = limit" using assms(2) by (simp add: client_inv_def)
  ultimately show ?thesis using inv_receive [OF assms(2) receive(2,3) assms(3)] by simp
next
  case closed
  then show ?thesis using inv_closed [OF assms(2)] by simp
next
  case tick
  then show ?thesis using inv_tick [OF assms(2)] by simp
next
  case (clock i)
  then show ?thesis using inv_clock [OF assms(2) clock(2-4)] by simp
next
  case (answer pre b post now headers ctxErr rpc ans sent c errs)
  then show ?thesis using inv_answer [OF assms(2) answer(2,3)] by simp
next
  case (shutdown e res c)
  then show ?thesis using inv_shutdown [OF assms(2) shutdown(2)] by simp
next
  case lock
  then show ?thesis using inv_lock(1) [OF assms(2)] by simp
next
  case drain
  then show ?thesis using inv_lock(2) [OF assms(2)] by simp
qed

lemma client_inv_start:
  assumes "pc_queue c = []" "bc_BatchLimit (pf_Behavior (pc_conf c)) = limit"
  shows "client_inv limit (clientStart c)"
  using assms by (simp add: client_inv_def clientStart_def sys_ids_def runBatchStart_def NewInterval_def)

lemma client_reach_inv:
  assumes "(client_step ec)\<^sup>*\<^sup>* (clientStart c) s" "pc_queue c = []" "0 < bc_BatchLimit (pf_Behavior (pc_conf c))"
  shows "client_inv (bc_BatchLimit (pf_Behavior (pc_conf c))) s"
  using assms(1)
proof (induction rule: rtranclp_induct)
  case base
  show ?case by (rule client_inv_start [OF assms(2) refl])
next
  case (step s t)
  then show ?case using client_step_inv [OF step(2)] assms(3) by blast
qed

text \<open>
  C16. Shutting a client down never makes a caller panic: in every interleaving of callers, collector,
  sends and shutdown, no caller sends on the closed queue.
\<close>

theorem no_send_on_closed_queue:
  assumes "(client_step ec)\<^sup>*\<^sup>* (clientStart c) s" "pc_queue c = []" "0 < bc_BatchLimit (pf_Behavior (pc_conf c))"
  shows "\<not> cs_panic s \<and> (\<forall>i. cs_callers s i = Some Checked \<longrightarrow> \<not> pc_queueClosed (cs_client s))"
  using client_reach_inv [OF assms] by (simp add: client_inv_def)

text \<open>
  C12. No request is lost, duplicated or answered twice: in every interleaving each request put in the
  queue is in exactly one of the queue, the batch being collected, a batch being sent and the answers,
  and no batch is larger than the batch limit. When the collector has stopped and nothing is under way,
  every request has its one answer.
\<close>

theorem batching_conserves_requests:
  assumes "(client_step ec)\<^sup>*\<^sup>* (clientStart c) s" "pc_queue c = []" "0 < bc_BatchLimit (pf_Behavior (pc_conf c))"
  shows "mset (cs_enqueued s) = sys_ids s \<and> distinct (cs_enqueued s)
    \<and> (\<forall>b \<in> set (cs_sends s). b \<noteq> [] \<and> int (length b) \<le> bc_BatchLimit (pf_Behavior (pc_conf c)))
    \<and> (\<not> rb_running (cs_rb s) \<longrightarrow> cs_sends s = [] \<longrightarrow> pc_queue (cs_client s) = [] \<longrightarrow>
         distinct (map fst (cs_answers s)) \<and> fst ` set (cs_answers s) = set (cs_enqueued s))"
proof -
  have inv: "client_inv (bc_BatchLimit (pf_Behavior (pc_conf c))) s" by (rule client_reach_inv [OF assms])
  have "distinct (map fst (cs_answers s)) \<and> fst ` set (cs_answers s) = set (cs_enqueued s)"
    if "\<not> rb_running (cs_rb s)" "cs_sends s = []" "pc_queue (cs_client s) = []"
  proof -
    have "mset (cs_enqueued s) = mset (map fst (cs_answers s))" "distinct (cs_enqueued s)"
      using inv that by (auto simp: client_inv_def sys_ids_def)
    then show ?thesis by (metis list.set_map mset_eq_imp_distinct_iff mset_eq_setD)
  qed
  then show ?thesis using inv by (simp add: client_inv_def)
qed

subsection \<open>Batches leave\<close>

definition tickerMove :: "Interval \<Rightarrow> Interval \<Rightarrow> bool" where
  "tickerMove i j \<longleftrightarrow> interval_step i j \<and> pending j = pending i \<and> i_done j = i_done i"

lemma ticker_moves:
  "i_phase i = Sending \<Longrightarrow> \<not> i_C i \<Longrightarrow> tickerMove i (i\<lparr>i_phase := Selecting, i_C := True\<rparr>)"
  "i_phase i = Sleeping \<Longrightarrow> tickerMove i (i\<lparr>i_phase := Sending\<rparr>)"
  "i_phase i = Selecting \<Longrightarrow> i_in i \<Longrightarrow> tickerMove i (i\<lparr>i_phase := Sleeping, i_in := False\<rparr>)"
  by (simp_all add: tickerMove_def interval_step.intros pending_def)

lemma ticker_ready:
  assumes "0 < pending i" "i_phase i \<noteq> Exited"
  shows "\<exists>j. tickerMove\<^sup>*\<^sup>* i j \<and> i_C j"
proof (cases "i_C i")
  case False
  have sending: "\<exists>j. tickerMove\<^sup>*\<^sup>* i j \<and> i_C j" if "i_phase i = Sending" "\<not> i_C i" for i
    using ticker_moves(1) [OF that] by (intro exI conjI, rule r_into_rtranclp) simp_all
  have sleeping: "\<exists>j. tickerMove\<^sup>*\<^sup>* i j \<and> i_C j" if i: "i_phase i = Sleeping" "\<not> i_C i" for i
    using sending [of "i\<lparr>i_phase := Sending\<rparr>"] ticker_moves(2) [OF i(1)] i(2)
    by (auto intro: converse_rtranclp_into_rtranclp)
  show ?thesis
  proof (cases "i_phase i")
    case Selecting
    then have "i_in i" using assms(1) False by (auto simp: pending_def split: if_splits)
    then show ?thesis
      using sleeping [of "i\<lparr>i_phase := Sleeping, i_in := False\<rparr>"] ticker_moves(3) [OF Selecting] False
      by (auto intro: converse_rtranclp_into_rtranclp)
  qed (use sending sleeping False assms(2) in auto)
qed blast

lemma ticker_client:
  assumes "tickerMove\<^sup>*\<^sup>* (rb_interval (cs_rb s)) j"
  shows "(client_step ec)\<^sup>*\<^sup>* s (s\<lparr>cs_rb := (cs_rb s)\<lparr>rb_interval := j\<rparr>\<rparr>)"
  using assms
proof (induction rule: rtranclp_induct)
  case base
  then show ?case by simp
next
  case (step j k)
  let ?s = "s\<lparr>cs_rb := (cs_rb s)\<lparr>rb_interval := j\<rparr>\<rparr>"
  have "client_step ec ?s (?s\<lparr>cs_rb := (cs_rb ?s)\<lparr>rb_interval := k\<rparr>\<rparr>)"
    using step(2) by (intro client_step.clock) (simp_all add: tickerMove_def)
  then show ?case using step(3) by simp
qed

text \<open>
  C17. A batch never waits for more requests: whenever requests are being collected, a tick is on its
  way, and without any further request the ticker alone brings the collector to send exactly them.
\<close>

theorem collected_batch_is_sent:
  assumes "(client_step ec)\<^sup>*\<^sup>* (clientStart c) s" "pc_queue c = []" "0 < bc_BatchLimit (pf_Behavior (pc_conf c))"
    and "rb_queue (cs_rb s) \<noteq> []"
  shows "0 < pending (rb_interval (cs_rb s)) \<and> (\<exists>t. (client_step ec)\<^sup>*\<^sup>* s t \<and> cs_enqueued t = cs_enqueued s
    \<and> rb_queue (cs_rb t) = [] \<and> cs_sends t = cs_sends s @ [rb_queue (cs_rb s)])"
proof -
  have "client_inv (bc_BatchLimit (pf_Behavior (pc_conf c))) s" by (rule client_reach_inv [OF assms(1-3)])
  then have r: "rb_running (cs_rb s)" "0 < pending (rb_interval (cs_rb s))" "i_phase (rb_interval (cs_rb s)) \<noteq> Exited"
    using assms(4) by (auto simp: client_inv_def)
  obtain j where j: "tickerMove\<^sup>*\<^sup>* (rb_interval (cs_rb s)) j" "i_C j" using ticker_ready [OF r(2,3)] by blast
  let ?s = "s\<lparr>cs_rb := (cs_rb s)\<lparr>rb_interval := j\<rparr>\<rparr>"
  let ?t = "collect (runBatchTick (cs_rb ?s)) ?s"
  have "client_step ec ?s ?t" by (rule client_step.tick) (simp_all add: r j)
  then have "(client_step ec)\<^sup>*\<^sup>* s ?t" using ticker_client [OF j(1), where ec = ec] by simp
  moreover have "cs_enqueued ?t = cs_enqueued s" "rb_queue (cs_rb ?t) = []" "cs_sends ?t = cs_sends s @ [rb_queue (cs_rb s)]"
    using assms(4) by (simp_all add: collect_def runBatchTick_def Let_def)
  ultimately show ?thesis using r(2) by blast
qed

subsection \<open>Examples\<close>

text \<open>A caller joins, queues a request and gives up; the collector takes the request; the client shuts down.\<close>

definition sampleReq :: request where
  "sampleReq = \<lparr>r_request = req0, r_resp = 1\<rparr>"

definition sampleSys :: "nat \<Rightarrow> (string \<times> goerr \<times> int) list clientSys" where
  "sampleSys n = \<lparr>
     cs_client = sampleClient\<lparr>pc_queue := (if n = 3 then [sampleReq] else []), pc_isShutdown := (n \<ge> 6),
       pc_connClosed := (n \<ge> 6), pc_queueClosed := (n \<ge> 8)\<rparr>,
     cs_rb = (if n < 4 then runBatchStart
              else if n < 9 then \<lparr>rb_queue = [sampleReq], rb_interval = Next NewInterval, rb_running = True\<rparr>
              else \<lparr>rb_queue = [], rb_interval = StopInterval (Next NewInterval), rb_running = False\<rparr>),
     cs_callers = (if n = 1 then [1 \<mapsto> Joined] else if n = 2 then [1 \<mapsto> Checked]
                   else if n = 3 \<or> n = 4 then [1 \<mapsto> Waiting] else Map.empty),
     cs_locked = (n = 7), cs_panic = False, cs_sends = (if n = 9 then [[sampleReq]] else []),
     cs_enqueued = (if n < 3 then [] else [1]), cs_answers = [], cs_errs = (\<lambda>_. 0)\<rparr>"

lemma sampleSys_step: "n < 9 \<Longrightarrow> client_step stdErrCache (sampleSys n) (sampleSys (Suc n))"
proof -
  have n: "ec_New stdErrCache = []" by (simp add: stdErrCache_def)
  note d = n sampleSys_def sampleReq_def runBatchStart_def sampleClient_def enqueue_def collect_def
    runBatchReceive_def queueCapacity_def ShutdownClient_def drainQueue_def runBatchClosed_def Let_def
  have "client_step stdErrCache (sampleSys 0) (sampleSys 1)"
    using client_step.join [of "sampleSys 0" 1] by (simp add: d)
  moreover have "client_step stdErrCache (sampleSys 1) (sampleSys 2)"
    using client_step.check [of "sampleSys 1" 1] by (simp add: d)
  moreover have "client_step stdErrCache (sampleSys 2) (sampleSys 3)"
    using client_step.put [of "sampleSys 2" sampleReq] by (simp add: d)
  moreover have "client_step stdErrCache (sampleSys 3) (sampleSys 4)"
    using client_step.receive [of "sampleSys 3" sampleReq "[]"] by (simp add: d)
  moreover have "client_step stdErrCache (sampleSys 4) (sampleSys 5)"
    using client_step.leave_call [of "sampleSys 4" 1] by (simp add: d)
  moreover have "client_step stdErrCache (sampleSys 5) (sampleSys 6)"
    using client_step.shutdown [of stdErrCache DeadlineExceeded "sampleSys 5", OF surjective_pairing] by (simp add: d)
  moreover have "client_step stdErrCache (sampleSys 6) (sampleSys 7)"
    using client_step.lock [of "sampleSys 6"] by (simp add: d)
  moreover have "client_step stdErrCache (sampleSys 7) (sampleSys 8)"
    using client_step.drain [of "sampleSys 7" stdErrCache] by (simp add: d)
  moreover have "client_step stdErrCache (sampleSys 8) (sampleSys 9)"
    using client_step.closed [of "sampleSys 8"] by (simp add: d)
  moreover assume "n < 9"
  ultimately show ?thesis by (auto simp: less_Suc_eq numeral_eq_Suc)
qed

lemma sampleSys_reach: "n \<le> 9 \<Longrightarrow> (client_step stdErrCache)\<^sup>*\<^sup>* (clientStart sampleClient) (sampleSys n)"
proof (induction n)
  case 0
  show ?case by (simp add: sampleSys_def clientStart_def sampleClient_def)
next
  case (Suc n)
  then show ?case using sampleSys_step [of n] by (simp add: rtranclp.rtrancl_into_rtrancl)
qed

lemma sampleClient_limit: "pc_queue sampleClient = []" "0 < bc_BatchLimit (pf_Behavior (pc_conf sampleClient))"
  by (simp_all add: sampleClient_def)

theorem no_send_on_closed_queue_witness:
  "pc_queueClosed (cs_client (sampleSys 8)) \<and> \<not> cs_panic (sampleSys 8) \<and> cs_callers (sampleSys 8) 1 \<noteq> Some Checked"
proof -
  have "pc_queueClosed (cs_client (sampleSys 8))" by (simp add: sampleSys_def)
  then show ?thesis
    using no_send_on_closed_queue [OF sampleSys_reach sampleClient_limit, of 8] by auto
qed

theorem batching_conserves_requests_witness:
  "mset (cs_enqueued (sampleSys 9)) = sys_ids (sampleSys 9) \<and> cs_enqueued (sampleSys 9) = [1]
   \<and> map (map r_resp) (cs_sends (sampleSys 9)) = [[1]]"
proof -
  have "cs_enqueued (sampleSys 9) = [1]" "map (map r_resp) (cs_sends (sampleSys 9)) = [[1]]"
    by (simp_all add: sampleSys_def sampleReq_def)
  then show ?thesis using batching_conserves_requests [OF sampleSys_reach sampleClient_limit, of 9] by simp
qed

theorem collected_batch_is_sent_witness:
  "\<exists>t. (client_step stdErrCache)\<^sup>*\<^sup>* (sampleSys 4) t \<and> cs_enqueued t = cs_enqueued (sampleSys 4)
     \<and> cs_sends t = [[sampleReq]]"
proof -
  have q: "rb_queue (cs_rb (sampleSys 4)) = [sampleReq]" "cs_sends (sampleSys 4) = []"
    by (simp_all add: sampleSys_def sampleReq_def)
  have "rb_queue (cs_rb (sampleSys 4)) \<noteq> []" by (simp add: q)
  with collected_batch_is_sent [OF sampleSys_reach sampleClient_limit, of 4] show ?thesis
    by (auto simp: q)
qed

subsection \<open>Recorded errors are reported\<close>

text \<open>The documented behaviour of the cache of errors.\<close>

definition good_errcache :: "'c ErrCache \<Rightarrow> bool" where
  "good_errcache ec \<longleftrightarrow>
     ec_Keys ec (ec_New ec) = [] \<and>
     (\<forall>now k e ttl c. k \<in> set (ec_Keys ec (ec_AddWithTTL ec now k e ttl c))) \<and>
     (\<forall>now now' k e ttl c. UnixNano now' < UnixNano now + ttl \<longrightarrow>
        fst (ec_Get ec now' k (ec_AddWithTTL ec now k e ttl c)) = Some e) \<and>
     (\<forall>now k k' c. k' \<noteq> k \<longrightarrow> fst (ec_Get ec now k' (snd (ec_Get ec now k c))) = fst (ec_Get ec now k' c))"

lemma good_stdErrCache: "good_errcache stdErrCache"
proof -
  have "map_of (filter (\<lambda>x. fst x \<noteq> k) c) k' = map_of c k'" if "k' \<noteq> k" for k k' :: string and c :: "(string \<times> goerr \<times> int) list"
    using that by (induction c) auto
  then show ?thesis
    by (auto simp: good_errcache_def stdErrCache_def split: option.splits)
qed

lemma lastErrsOf_reports:
  assumes "good_errcache ec" "k \<in> set ks" "fst (ec_Get ec now k c) = Some e"
  shows "err_msg e \<in> set (fst (lastErrsOf ec now ks c))"
  using assms(2,3)
proof (induction ks arbitrary: c)
  case (Cons k' ks)
  obtain g c' where g: "ec_Get ec now k' c = (g, c')" by fastforce
  show ?case
  proof (cases "k = k'")
    case True
    then show ?thesis using Cons.prems(2) g by (auto simp: case_prod_beta)
  next
    case False
    then have "fst (ec_Get ec now k c') = Some e"
      using assms(1) Cons.prems(2) g unfolding good_errcache_def by (metis snd_conv)
    then have "err_msg e \<in> set (fst (lastErrsOf ec now ks c'))" using Cons.IH Cons.prems(1) False by simp
    then show ?thesis by (cases g) (auto simp: g case_prod_beta)
  qed
qed simp

lemma setLastErr_reported:
  assumes "good_errcache ec" "UnixNano now' < UnixNano now + 5 * ns_per_min"
  shows "''from host '' @ pi_GRPCAddress (ClientInfo c) @ '': '' @ err_msg e
    \<in> set (fst (GetLastErr ec now' (snd (setLastErr ec now (Some e) c))))"
proof -
  let ?e = "WrapErr (''from host '' @ pi_GRPCAddress (ClientInfo c)) e"
  let ?l = "ec_AddWithTTL ec now (err_msg e) ?e (5 * ns_per_min) (pc_lastErrs c)"
  have "err_msg e \<in> set (ec_Keys ec ?l)" "fst (ec_Get ec now' (err_msg e) ?l) = Some ?e"
    using assms unfolding good_errcache_def by blast+
  then have "err_msg ?e \<in> set (fst (lastErrsOf ec now' (ec_Keys ec ?l) ?l))"
    by (rule lastErrsOf_reports [OF assms(1)])
  then show ?thesis by (simp add: GetLastErr_def setLastErr_def case_prod_beta)
qed

end
