(* ===== verification/Global.thy ===== *)
theory Global
  imports PeerClient
begin

text \<open>
  Rate limits with the \<^verbatim>\<open>GLOBAL\<close> behaviour, \<^verbatim>\<open>global.go\<close>: a non-owner collects the hits it answered and
  sends them to the owners, the owner collects the keys that changed and broadcasts their status. Both
  collectors are loops over a queue and a ticker; the model has one definition per case of their
  \<^verbatim>\<open>select\<close>. A Go map is an association list with distinct keys, in the order of insertion.
\<close>

subsection \<open>State\<close>

record globalManager =
  gm_hitsQueue :: "RateLimitReq list"
  gm_broadcastQueue :: "RateLimitReq list"
  gm_conf :: BehaviorConfig
  gm_hits :: "(key \<times> RateLimitReq) list"
  gm_hitsInterval :: Interval
  gm_updates :: "(key \<times> RateLimitReq) list"
  gm_updatesInterval :: Interval
  gm_stopped :: bool
  gm_sendErrors :: nat
  gm_broadcastErrors :: nat

definition newGlobalManager :: "BehaviorConfig \<Rightarrow> goerr + globalManager" where
  "newGlobalManager conf =
     (if bc_GlobalBatchLimit conf < 0 then Inl (Panic ''makechan: size out of range'')
      else Inr \<lparr>gm_hitsQueue = [], gm_broadcastQueue = [], gm_conf = conf, gm_hits = [], gm_hitsInterval = NewInterval,
                gm_updates = [], gm_updatesInterval = NewInterval, gm_stopped = False, gm_sendErrors = 0,
                gm_broadcastErrors = 0\<rparr>)"

text \<open>Queueing a request; a full queue makes the caller wait until the collector has taken one.\<close>

definition QueueHit :: "RateLimitReq \<Rightarrow> globalManager \<Rightarrow> globalManager" where
  "QueueHit r gm = (if rq_Hits r \<noteq> 0 then gm\<lparr>gm_hitsQueue := gm_hitsQueue gm @ [r]\<rparr> else gm)"

definition QueueUpdate :: "RateLimitReq \<Rightarrow> globalManager \<Rightarrow> globalManager" where
  "QueueUpdate r gm = (if rq_Hits r \<noteq> 0 then gm\<lparr>gm_broadcastQueue := gm_broadcastQueue gm @ [r]\<rparr> else gm)"

subsection \<open>Collecting hits\<close>

definition mergeHit :: "RateLimitReq \<Rightarrow> RateLimitReq \<Rightarrow> RateLimitReq" where
  "mergeHit r h =
     h\<lparr>rq_Behavior := (if HasBehavior (rq_Behavior r) RESET_REMAINING
                       then SetBehavior (rq_Behavior h) RESET_REMAINING True else rq_Behavior h),
       rq_Hits := add64 (rq_Hits h) (rq_Hits r)\<rparr>"

definition aggregateHit :: "RateLimitReq \<Rightarrow> (key \<times> RateLimitReq) list \<Rightarrow> (key \<times> RateLimitReq) list" where
  "aggregateHit r hits =
     (case map_of hits (HashKey r) of
        Some h \<Rightarrow> AList.update (HashKey r) (mergeHit r h) hits
      | None \<Rightarrow> AList.update (HashKey r) r hits)"

text \<open>The result of a turn is the map of hits handed to \<^verbatim>\<open>sendHits\<close>, if it is time, and the new state.\<close>

definition asyncHitsReceive :: "RateLimitReq \<Rightarrow> globalManager \<Rightarrow> (key \<times> RateLimitReq) list option \<times> globalManager" where
  "asyncHitsReceive r gm =
     (let hits = aggregateHit r (gm_hits gm)
      in if int (length hits) = bc_GlobalBatchLimit (gm_conf gm) then (Some hits, gm\<lparr>gm_hits := []\<rparr>)
         else (None, gm\<lparr>gm_hits := hits,
                        gm_hitsInterval := (if length hits = 1 then Next (gm_hitsInterval gm) else gm_hitsInterval gm)\<rparr>))"

definition readTick :: "Interval \<Rightarrow> Interval" where
  "readTick i = i\<lparr>i_C := False, ticks := Suc (ticks i)\<rparr>"

definition asyncHitsTick :: "globalManager \<Rightarrow> (key \<times> RateLimitReq) list option \<times> globalManager" where
  "asyncHitsTick gm =
     (let gm = gm\<lparr>gm_hitsInterval := readTick (gm_hitsInterval gm)\<rparr>
      in if gm_hits gm \<noteq> [] then (Some (gm_hits gm), gm\<lparr>gm_hits := []\<rparr>) else (None, gm))"

definition asyncHitsDone :: "globalManager \<Rightarrow> globalManager" where
  "asyncHitsDone gm = gm\<lparr>gm_hitsInterval := StopInterval (gm_hitsInterval gm), gm_hits := []\<rparr>"

subsection \<open>Sending hits to the owners\<close>

record pair =
  pr_client :: PeerRef
  pr_req :: "RateLimitReq list"

text \<open>Requests grouped by the address of the peer that owns their key; a key without a peer is dropped.\<close>

definition assignHit :: "(key \<Rightarrow> goerr + PeerRef) \<Rightarrow> RateLimitReq \<Rightarrow> (string \<times> pair) list \<Rightarrow> (string \<times> pair) list" where
  "assignHit getPeer r m =
     (case getPeer (HashKey r) of
        Inl e \<Rightarrow> m
      | Inr peer \<Rightarrow>
          (let a = pi_GRPCAddress (pr_Info peer)
           in case map_of m a of
                Some p \<Rightarrow> AList.update a (p\<lparr>pr_req := pr_req p @ [r]\<rparr>) m
              | None \<Rightarrow> AList.update a \<lparr>pr_client = peer, pr_req = [r]\<rparr> m))"

definition peerRequests :: "(key \<Rightarrow> goerr + PeerRef) \<Rightarrow> (key \<times> RateLimitReq) list \<Rightarrow> (string \<times> pair) list" where
  "peerRequests getPeer hits = fold (\<lambda>(_, r). assignHit getPeer r) hits []"

text \<open>
  The clients of all peers are a store of client states by identity; the call of every connection is a
  parameter.
\<close>

type_synonym 'c clients = "nat \<Rightarrow> 'c PeerClient option"

fun sendPairs ::
  "'c ErrCache \<Rightarrow> Time \<Rightarrow> (nat \<Rightarrow> RateLimitReq list \<Rightarrow> goerr + RateLimitResp list) \<Rightarrow> (string \<times> pair) list
   \<Rightarrow> 'c clients \<times> (string \<Rightarrow> nat) \<times> globalManager \<Rightarrow> 'c clients \<times> (string \<Rightarrow> nat) \<times> globalManager" where
  "sendPairs ec now rpc [] s = s"
| "sendPairs ec now rpc ((_, p) # ps) (cl, errs, gm) =
     (let i = pr_id (pr_client p)
      in case cl i of
           None \<Rightarrow> sendPairs ec now rpc ps (cl, errs, gm)
         | Some c \<Rightarrow>
             (case ClientGetPeerRateLimits ec now (rpc i) (pr_req p) (c, errs) of
                (Inl e, c', errs') \<Rightarrow> sendPairs ec now rpc ps (cl(i \<mapsto> c'), errs', gm\<lparr>gm_sendErrors := Suc (gm_sendErrors gm)\<rparr>)
              | (Inr _, c', errs') \<Rightarrow> sendPairs ec now rpc ps (cl(i \<mapsto> c'), errs', gm)))"

definition sendHits ::
  "'c ErrCache \<Rightarrow> Time \<Rightarrow> (nat \<Rightarrow> RateLimitReq list \<Rightarrow> goerr + RateLimitResp list) \<Rightarrow> (key \<Rightarrow> goerr + PeerRef)
   \<Rightarrow> (key \<times> RateLimitReq) list \<Rightarrow> 'c clients \<times> (string \<Rightarrow> nat) \<times> globalManager
   \<Rightarrow> 'c clients \<times> (string \<Rightarrow> nat) \<times> globalManager" where
  "sendHits ec now rpc getPeer hits s = sendPairs ec now rpc (peerRequests getPeer hits) s"

subsection \<open>Collecting updates\<close>

definition broadcastsReceive :: "RateLimitReq \<Rightarrow> globalManager \<Rightarrow> (key \<times> RateLimitReq) list option \<times> globalManager" where
  "broadcastsReceive update gm =
     (let updates = AList.update (HashKey update) update (gm_updates gm)
      in if int (length updates) \<ge> bc_GlobalBatchLimit (gm_conf gm) then (Some updates, gm\<lparr>gm_updates := []\<rparr>)
         else (None, gm\<lparr>gm_updates := updates,
                        gm_updatesInterval := (if length updates = 1 then Next (gm_updatesInterval gm) else gm_updatesInterval gm)\<rparr>))"

definition broadcastsTick :: "globalManager \<Rightarrow> (key \<times> RateLimitReq) list option \<times> globalManager" where
  "broadcastsTick gm =
     (let gm = gm\<lparr>gm_updatesInterval := readTick (gm_updatesInterval gm)\<rparr>
      in if gm_updates gm = [] then (None, gm) else (Some (gm_updates gm), gm\<lparr>gm_updates := []\<rparr>))"

definition broadcastsDone :: "globalManager \<Rightarrow> globalManager" where
  "broadcastsDone gm = gm\<lparr>gm_updatesInterval := StopInterval (gm_updatesInterval gm), gm_updates := []\<rparr>"

subsection \<open>Broadcasting\<close>

definition nilDereference :: goerr where
  "nilDereference = Panic ''runtime error: invalid memory address or nil pointer dereference''"

text \<open>
  The status of every updated key, read from the worker pool by a request without hits; a key whose
  status cannot be read is left out. An update without creation time would be a nil dereference.
\<close>

fun globalsOf ::
  "Time \<Rightarrow> (key \<times> RateLimitReq) list \<Rightarrow> 's WorkerPool \<Rightarrow> (goerr + UpdatePeerGlobal list) \<times> 's WorkerPool" where
  "globalsOf now [] p = (Inr [], p)"
| "globalsOf now ((_, update) # us) p =
     (case PoolGetRateLimit Served now (update\<lparr>rq_Hits := 0\<rparr>) \<lparr>IsOwner = False, WaitCeiling = 0\<rparr> p of
        (Inl e, p') \<Rightarrow> globalsOf now us p'
      | (Inr status, p') \<Rightarrow>
          (case rq_CreatedAt update of
             None \<Rightarrow> (Inl nilDereference, p')
           | Some createdAt \<Rightarrow>
               (case globalsOf now us p' of
                  (Inl e, p'') \<Rightarrow> (Inl e, p'')
                | (Inr gs, p'') \<Rightarrow>
                    (Inr (\<lparr>ug_Key = HashKey update, ug_Status = status, ug_Algorithm = rq_Algorithm update,
                           ug_Duration = rq_Duration update, ug_CreatedAt = createdAt\<rparr> # gs), p''))))"

fun updatePeers ::
  "'c ErrCache \<Rightarrow> Time \<Rightarrow> (nat \<Rightarrow> UpdatePeerGlobal list \<Rightarrow> goerr option) \<Rightarrow> UpdatePeerGlobal list \<Rightarrow> PeerRef list
   \<Rightarrow> 'c clients \<times> globalManager \<Rightarrow> 'c clients \<times> globalManager" where
  "updatePeers ec now rpc gs [] s = s"
| "updatePeers ec now rpc gs (peer # ps) (cl, gm) =
     (if pi_IsOwner (pr_Info peer) then updatePeers ec now rpc gs ps (cl, gm)
      else
        (case cl (pr_id peer) of
           None \<Rightarrow> updatePeers ec now rpc gs ps (cl, gm)
         | Some c \<Rightarrow>
             (case ClientUpdatePeerGlobals ec now (rpc (pr_id peer)) gs c of
                (Some e, c') \<Rightarrow>
                  updatePeers ec now rpc gs ps (cl(pr_id peer \<mapsto> c'), gm\<lparr>gm_broadcastErrors := Suc (gm_broadcastErrors gm)\<rparr>)
              | (None, c') \<Rightarrow> updatePeers ec now rpc gs ps (cl(pr_id peer \<mapsto> c'), gm))))"

definition broadcastPeers ::
  "'c ErrCache \<Rightarrow> Time \<Rightarrow> (nat \<Rightarrow> UpdatePeerGlobal list \<Rightarrow> goerr option) \<Rightarrow> PeerRef list \<Rightarrow> (key \<times> RateLimitReq) list
   \<Rightarrow> 's WorkerPool \<times> 'c clients \<times> globalManager \<Rightarrow> (goerr + unit) \<times> 's WorkerPool \<times> 'c clients \<times> globalManager" where
  "broadcastPeers ec now rpc peers updates = (\<lambda>(p, cl, gm).
     (case globalsOf now updates p of
        (Inl e, p') \<Rightarrow> (Inl e, p', cl, gm)
      | (Inr gs, p') \<Rightarrow> (Inr (), p', updatePeers ec now rpc gs peers (cl, gm))))"

text \<open>\<^verbatim>\<open>Close\<close> stops both collectors and shuts down the clients of all peers.\<close>

definition shutdownOne :: "'c ErrCache \<Rightarrow> goerr option \<Rightarrow> PeerRef \<Rightarrow> 'c clients \<Rightarrow> 'c clients" where
  "shutdownOne ec ctxErr peer cl =
     (case cl (pr_id peer) of None \<Rightarrow> cl | Some c \<Rightarrow> cl(pr_id peer \<mapsto> snd (ShutdownClient ec ctxErr c)))"

fun shutdownAll :: "'c ErrCache \<Rightarrow> goerr option \<Rightarrow> PeerRef list \<Rightarrow> 'c clients \<Rightarrow> 'c clients" where
  "shutdownAll ec ctxErr [] cl = cl"
| "shutdownAll ec ctxErr (peer # ps) cl =
     shutdownAll ec ctxErr ps (shutdownOne ec ctxErr peer cl)"

definition CloseGlobal :: "'c ErrCache \<Rightarrow> PeerRef list \<Rightarrow> 'c clients \<times> globalManager \<Rightarrow> 'c clients \<times> globalManager" where
  "CloseGlobal ec peers = (\<lambda>(cl, gm).
     (shutdownAll ec None peers cl, (broadcastsDone (asyncHitsDone gm))\<lparr>gm_stopped := True\<rparr>))"

subsection \<open>Hits are conserved\<close>

datatype hitEvent = HitReceived RateLimitReq | HitTick

fun hitsStep :: "hitEvent \<Rightarrow> globalManager \<Rightarrow> (key \<times> RateLimitReq) list option \<times> globalManager" where
  "hitsStep (HitReceived r) gm = asyncHitsReceive r gm"
| "hitsStep HitTick gm = asyncHitsTick gm"

fun hitsRun :: "hitEvent list \<Rightarrow> globalManager \<Rightarrow> (key \<times> RateLimitReq) list list \<times> globalManager" where
  "hitsRun [] gm = ([], gm)"
| "hitsRun (e # es) gm =
     (let (out, gm1) = hitsStep e gm; (outs, gm2) = hitsRun es gm1
      in (case out of None \<Rightarrow> outs | Some b \<Rightarrow> b # outs, gm2))"

fun receivedHits :: "hitEvent list \<Rightarrow> RateLimitReq list" where
  "receivedHits [] = []"
| "receivedHits (HitReceived r # es) = r # receivedHits es"
| "receivedHits (HitTick # es) = receivedHits es"

definition hitsOf :: "key \<Rightarrow> (key \<times> RateLimitReq) list \<Rightarrow> int" where
  "hitsOf k m = (case map_of m k of None \<Rightarrow> 0 | Some r \<Rightarrow> rq_Hits r)"

definition resetOf :: "key \<Rightarrow> (key \<times> RateLimitReq) list \<Rightarrow> bool" where
  "resetOf k m = (case map_of m k of None \<Rightarrow> False | Some r \<Rightarrow> HasBehavior (rq_Behavior r) RESET_REMAINING)"

lemma hitsOf_Nil [simp]: "hitsOf k [] = 0" "\<not> resetOf k []"
  by (simp_all add: hitsOf_def resetOf_def)

lemma RESET_nonzero: "RESET_REMAINING \<noteq> 0"
  by (simp add: RESET_REMAINING_def)

lemma aggregate_hits:
  "wrap64 (hitsOf k (aggregateHit r m)) = wrap64 (hitsOf k m + (if HashKey r = k then rq_Hits r else 0))"
  by (auto simp: aggregateHit_def hitsOf_def mergeHit_def update_conv' add64_def split: option.splits)

lemma aggregate_reset:
  "resetOf k (aggregateHit r m) \<longleftrightarrow> resetOf k m \<or> HashKey r = k \<and> HasBehavior (rq_Behavior r) RESET_REMAINING"
  using HasBehavior_set [OF RESET_nonzero]
  by (auto simp: aggregateHit_def resetOf_def mergeHit_def update_conv' split: option.splits)

lemma length_update_le: "length (AList.update k v m) \<le> Suc (length m)"
  by (induction m) auto

lemma aggregate_keys:
  "distinct (map fst m) \<Longrightarrow> distinct (map fst (aggregateHit r m))"
  "aggregateHit r m \<noteq> []" "length (aggregateHit r m) \<le> Suc (length m)"
  by (auto simp: aggregateHit_def distinct_update length_update_le split: option.splits)

lemma aggregate_Nil [simp]: "aggregateHit r [] = [(HashKey r, r)]"
  by (simp add: aggregateHit_def)

lemma pending_Next_neq [simp]: "pending (Next i) \<noteq> 0"
  using pending_Next [of i] by simp

text \<open>The hits a collector holds, and what one turn does to them.\<close>

definition hits_inv :: "globalManager \<Rightarrow> bool" where
  "hits_inv gm \<longleftrightarrow> distinct (map fst (gm_hits gm)) \<and> int (length (gm_hits gm)) < bc_GlobalBatchLimit (gm_conf gm) \<and>
     (gm_hits gm = [] \<or> 0 < pending (gm_hitsInterval gm))"

definition sentOf :: "(key \<times> RateLimitReq) list option \<Rightarrow> (key \<times> RateLimitReq) list" where
  "sentOf out = (case out of None \<Rightarrow> [] | Some b \<Rightarrow> b)"

lemma hitsStep_all:
  assumes "hits_inv gm" "hitsStep e gm = (out, gm')"
  shows "hits_inv gm' \<and> gm_conf gm' = gm_conf gm \<and>
    wrap64 (hitsOf k (sentOf out) + hitsOf k (gm_hits gm')) =
       wrap64 (hitsOf k (gm_hits gm) + sum_list (map rq_Hits (filter (\<lambda>r. HashKey r = k) (receivedHits [e])))) \<and>
    (resetOf k (sentOf out) \<or> resetOf k (gm_hits gm') \<longleftrightarrow>
       resetOf k (gm_hits gm) \<or> (\<exists>r \<in> set (receivedHits [e]). HashKey r = k \<and> HasBehavior (rq_Behavior r) RESET_REMAINING)) \<and>
    (\<forall>b. out = Some b \<longrightarrow> b \<noteq> [] \<and> distinct (map fst b) \<and> int (length b) \<le> bc_GlobalBatchLimit (gm_conf gm))"
proof (cases e)
  case (HitReceived r)
  let ?h = "aggregateHit r (gm_hits gm)"
  show ?thesis
    using assms(1,2) HitReceived aggregate_keys(1) [of "gm_hits gm" r] aggregate_keys(2,3) [of r "gm_hits gm"]
      aggregate_hits [of k r "gm_hits gm"] aggregate_reset [of k r "gm_hits gm"]
    by (cases "int (length ?h) = bc_GlobalBatchLimit (gm_conf gm)")
      (auto simp: asyncHitsReceive_def Let_def hits_inv_def sentOf_def split: if_splits)
next
  case HitTick
  then show ?thesis using assms(1,2) by (auto simp: asyncHitsTick_def Let_def hits_inv_def sentOf_def split: if_splits)
qed

lemmas hitsStep_result =
  hitsStep_all [THEN conjunct1]
  hitsStep_all [THEN conjunct2, THEN conjunct1]
  hitsStep_all [THEN conjunct2, THEN conjunct2, THEN conjunct1]
  hitsStep_all [THEN conjunct2, THEN conjunct2, THEN conjunct2, THEN conjunct1]
  hitsStep_all [THEN conjunct2, THEN conjunct2, THEN conjunct2, THEN conjunct2]

lemma receivedHits_Cons: "receivedHits (e # es) = receivedHits [e] @ receivedHits es"
  by (cases e) simp_all

lemma wrap64_chain:
  assumes "wrap64 (x + y) = wrap64 (a + b)" "wrap64 (z + w) = wrap64 (y + c)"
  shows "wrap64 (x + z + w) = wrap64 (a + (b + c))"
proof -
  have "wrap64 (x + z + w) = wrap64 (x + wrap64 (z + w))" by (simp add: add.assoc)
  also have "\<dots> = wrap64 (wrap64 (x + y) + c)" by (simp add: assms(2) add.assoc)
  also have "\<dots> = wrap64 (a + (b + c))" by (simp add: assms(1) add.assoc)
  finally show ?thesis .
qed

lemma hitsRun_result:
  assumes "hits_inv gm" "hitsRun es gm = (batches, gm')"
  shows "wrap64 (sum_list (map (hitsOf k) batches) + hitsOf k (gm_hits gm')) =
       wrap64 (hitsOf k (gm_hits gm) + sum_list (map rq_Hits (filter (\<lambda>r. HashKey r = k) (receivedHits es))))
    \<and> ((\<exists>b \<in> set batches. resetOf k b) \<or> resetOf k (gm_hits gm') \<longleftrightarrow>
       resetOf k (gm_hits gm) \<or> (\<exists>r \<in> set (receivedHits es). HashKey r = k \<and> HasBehavior (rq_Behavior r) RESET_REMAINING))
    \<and> (\<forall>b \<in> set batches. b \<noteq> [] \<and> distinct (map fst b) \<and> int (length b) \<le> bc_GlobalBatchLimit (gm_conf gm))
    \<and> hits_inv gm'"
  using assms
proof (induction es arbitrary: gm batches)
  case (Cons e es)
  obtain out gm1 where s: "hitsStep e gm = (out, gm1)" by fastforce
  obtain outs where r: "hitsRun es gm1 = (outs, gm')" "batches = (case out of None \<Rightarrow> outs | Some b \<Rightarrow> b # outs)"
    using Cons.prems(2) s by (auto simp: Let_def split: prod.splits)
  note S = hitsStep_result [OF Cons.prems(1) s]
  note IH = Cons.IH [OF S(1) r(1)]
  have sum: "sum_list (map (hitsOf k) batches) = hitsOf k (sentOf out) + sum_list (map (hitsOf k) outs)"
    and ex: "(\<exists>b \<in> set batches. resetOf k b) \<longleftrightarrow> resetOf k (sentOf out) \<or> (\<exists>b \<in> set outs. resetOf k b)"
    by (auto simp: r(2) sentOf_def split: option.splits)
  have "wrap64 (hitsOf k (sentOf out) + sum_list (map (hitsOf k) outs) + hitsOf k (gm_hits gm')) =
      wrap64 (hitsOf k (gm_hits gm) + (sum_list (map rq_Hits (filter (\<lambda>r. HashKey r = k) (receivedHits [e])))
        + sum_list (map rq_Hits (filter (\<lambda>r. HashKey r = k) (receivedHits es)))))"
    by (rule wrap64_chain [OF S(3)]) (use IH in blast)
  moreover have "\<forall>b \<in> set batches. b \<noteq> [] \<and> distinct (map fst b) \<and> int (length b) \<le> bc_GlobalBatchLimit (gm_conf gm)"
    using IH S(2,5) by (auto simp: r(2) split: option.splits)
  moreover have "(\<exists>b \<in> set batches. resetOf k b) \<or> resetOf k (gm_hits gm') \<longleftrightarrow>
       resetOf k (gm_hits gm) \<or> (\<exists>r \<in> set (receivedHits (e # es)). HashKey r = k \<and> HasBehavior (rq_Behavior r) RESET_REMAINING)"
    using IH S(4) unfolding ex receivedHits_Cons [of e es] by (auto simp del: receivedHits.simps)
  ultimately show ?case using IH unfolding sum receivedHits_Cons [of e es] by (simp del: receivedHits.simps)
qed simp

text \<open>
  C15. No hit of a global rate limit is lost or counted twice on the way to its owner: whatever the order
  of requests and ticks, for every key the hits handed to \<^verbatim>\<open>sendHits\<close> and the hits still collected add
  up to the hits received (modulo the wrap-around of 64 bits), a request to reset the remaining count
  reaches the owner exactly if one was received, no map of hits handed over is empty or larger than the
  batch limit, and hits that are collected have a tick on its way.
\<close>

theorem global_hits_conserved:
  assumes "newGlobalManager conf = Inr gm" "0 < bc_GlobalBatchLimit conf" "hitsRun es gm = (batches, gm')"
  shows "wrap64 (sum_list (map (hitsOf k) batches) + hitsOf k (gm_hits gm')) =
       wrap64 (sum_list (map rq_Hits (filter (\<lambda>r. HashKey r = k) (receivedHits es))))
    \<and> ((\<exists>b \<in> set batches. resetOf k b) \<or> resetOf k (gm_hits gm') \<longleftrightarrow>
       (\<exists>r \<in> set (receivedHits es). HashKey r = k \<and> HasBehavior (rq_Behavior r) RESET_REMAINING))
    \<and> (\<forall>b \<in> set batches. b \<noteq> [] \<and> distinct (map fst b) \<and> int (length b) \<le> bc_GlobalBatchLimit conf)
    \<and> (gm_hits gm' \<noteq> [] \<longrightarrow> 0 < pending (gm_hitsInterval gm'))"
proof -
  have g: "gm_hits gm = []" "gm_conf gm = conf" using assms(1) by (auto simp: newGlobalManager_def split: if_splits)
  have "hits_inv gm" using assms(2) by (simp add: hits_inv_def g)
  from hitsRun_result [OF this assms(3), of k] show ?thesis by (auto simp: g hits_inv_def)
qed

definition sampleGM :: globalManager where
  "sampleGM = (case newGlobalManager ((c_Behaviors (sampleConf 1 1))\<lparr>bc_GlobalBatchLimit := 2\<rparr>) of Inr gm \<Rightarrow> gm | Inl _ \<Rightarrow> undefined)"

lemma sampleGM_new: "newGlobalManager ((c_Behaviors (sampleConf 1 1))\<lparr>bc_GlobalBatchLimit := 2\<rparr>) = Inr sampleGM"
  by (simp add: sampleGM_def newGlobalManager_def)

theorem global_hits_conserved_witness:
  "let (batches, gm') = hitsRun [HitReceived req0, HitReceived (req0\<lparr>rq_Hits := 5, rq_Behavior := RESET_REMAINING\<rparr>), HitTick] sampleGM
   in wrap64 (sum_list (map (hitsOf ''n_k'') batches) + hitsOf ''n_k'' (gm_hits gm')) = 7"
proof -
  let ?es = "[HitReceived req0, HitReceived (req0\<lparr>rq_Hits := 5, rq_Behavior := RESET_REMAINING\<rparr>), HitTick]"
  obtain batches gm' where h: "hitsRun ?es sampleGM = (batches, gm')" by fastforce
  have "0 < bc_GlobalBatchLimit ((c_Behaviors (sampleConf 1 1))\<lparr>bc_GlobalBatchLimit := 2\<rparr>)" by simp
  from global_hits_conserved [OF sampleGM_new this h, of "''n_k''"]
  have "wrap64 (sum_list (map (hitsOf ''n_k'') batches) + hitsOf ''n_k'' (gm_hits gm')) = wrap64 7"
    by (simp add: HashKey_def)
  then show ?thesis using h by (simp add: wrap64_def del: hitsRun.simps)
qed

subsection \<open>Hits go to the owner\<close>

definition groupOf :: "(string \<times> pair) list \<Rightarrow> string \<Rightarrow> RateLimitReq list" where
  "groupOf m a = (case map_of m a of None \<Rightarrow> [] | Some p \<Rightarrow> pr_req p)"

definition peerAddr :: "(key \<Rightarrow> goerr + PeerRef) \<Rightarrow> RateLimitReq \<Rightarrow> string option" where
  "peerAddr getPeer r = (case getPeer (HashKey r) of Inl _ \<Rightarrow> None | Inr p \<Rightarrow> Some (pi_GRPCAddress (pr_Info p)))"

lemma assignHit_group:
  "groupOf (assignHit getPeer r m) a = groupOf m a @ (if peerAddr getPeer r = Some a then [r] else [])"
  by (auto simp: assignHit_def groupOf_def peerAddr_def Let_def update_conv' split: sum.splits option.splits)

definition groups_ok :: "(key \<Rightarrow> goerr + PeerRef) \<Rightarrow> (string \<times> pair) list \<Rightarrow> bool" where
  "groups_ok getPeer m \<longleftrightarrow> distinct (map fst m) \<and>
     (\<forall>a p. map_of m a = Some p \<longrightarrow> pi_GRPCAddress (pr_Info (pr_client p)) = a \<and> (\<exists>k. getPeer k = Inr (pr_client p)))"

lemma assignHit_ok:
  assumes "groups_ok getPeer m"
  shows "groups_ok getPeer (assignHit getPeer r m)"
proof (cases "getPeer (HashKey r)")
  case (Inl e)
  then show ?thesis using assms by (simp add: assignHit_def)
next
  case (Inr peer)
  let ?a = "pi_GRPCAddress (pr_Info peer)"
  define q where "q = (case map_of m ?a of Some p \<Rightarrow> p\<lparr>pr_req := pr_req p @ [r]\<rparr> | None \<Rightarrow> \<lparr>pr_client = peer, pr_req = [r]\<rparr>)"
  have eq: "assignHit getPeer r m = AList.update ?a q m"
    by (simp add: assignHit_def Inr Let_def q_def split: option.split)
  have m: "distinct (map fst m)"
    "\<And>a p. map_of m a = Some p \<Longrightarrow> pi_GRPCAddress (pr_Info (pr_client p)) = a \<and> (\<exists>k. getPeer k = Inr (pr_client p))"
    using assms unfolding groups_ok_def by blast+
  have q: "pi_GRPCAddress (pr_Info (pr_client q)) = ?a \<and> (\<exists>k. getPeer k = Inr (pr_client q))"
  proof (cases "map_of m ?a")
    case None
    then show ?thesis using Inr by (auto simp: q_def)
  next
    case (Some p)
    then show ?thesis using m(2) [OF Some] by (simp add: q_def)
  qed
  have "pi_GRPCAddress (pr_Info (pr_client p)) = a \<and> (\<exists>k. getPeer k = Inr (pr_client p))"
    if "map_of (AList.update ?a q m) a = Some p" for a p
  proof (cases "a = ?a")
    case True
    then show ?thesis using that q by (simp add: update_conv')
  next
    case False
    then have "map_of m a = Some p" using that by (simp add: update_conv')
    then show ?thesis by (rule m(2))
  qed
  then show ?thesis using m(1) unfolding groups_ok_def eq by (simp add: distinct_update)
qed

lemma peerRequests_fold:
  assumes "groups_ok getPeer m"
  shows "groups_ok getPeer (fold (\<lambda>(_, r). assignHit getPeer r) hits m)
    \<and> groupOf (fold (\<lambda>(_, r). assignHit getPeer r) hits m) a = groupOf m a @ filter (\<lambda>r. peerAddr getPeer r = Some a) (map snd hits)"
  using assms
proof (induction hits arbitrary: m)
  case (Cons h hits)
  obtain k r where h: "h = (k, r)" by fastforce
  show ?case
    using Cons.IH [OF assignHit_ok [OF Cons.prems, of r]] by (simp add: h assignHit_group)
qed simp

text \<open>
  C23. Collected hits go to the owners of their keys: the map that \<^verbatim>\<open>sendHits\<close> builds has one entry per
  address, with a peer that has this address, and the requests of an entry are exactly the collected
  requests whose key is owned by a peer with that address, each once.
\<close>

theorem hits_grouped_by_owner:
  "distinct (map fst (peerRequests getPeer hits))
   \<and> groupOf (peerRequests getPeer hits) a = filter (\<lambda>r. peerAddr getPeer r = Some a) (map snd hits)
   \<and> (\<forall>a p. map_of (peerRequests getPeer hits) a = Some p \<longrightarrow>
        pi_GRPCAddress (pr_Info (pr_client p)) = a \<and> (\<exists>k. getPeer k = Inr (pr_client p)))"
proof -
  have "groups_ok getPeer []" by (simp add: groups_ok_def)
  from peerRequests_fold [OF this, of hits a] show ?thesis
    by (simp add: peerRequests_def groups_ok_def groupOf_def [of "[]"])
qed

theorem hits_grouped_by_owner_witness:
  "groupOf (peerRequests (\<lambda>k. Inr (samplePeer 1 ''a'')) [(''n_k'', req0)]) ''a'' = [req0]"
  using hits_grouped_by_owner [of "\<lambda>k. Inr (samplePeer 1 ''a'')" "[(''n_k'', req0)]" "''a''"]
  by (simp add: peerAddr_def samplePeer_def)

subsection \<open>Broadcasts reach every other peer\<close>

definition failing :: "(nat \<Rightarrow> UpdatePeerGlobal list \<Rightarrow> goerr option) \<Rightarrow> UpdatePeerGlobal list \<Rightarrow> PeerRef list \<Rightarrow> PeerRef list" where
  "failing rpc gs peers = filter (\<lambda>p. \<not> pi_IsOwner (pr_Info p) \<and> rpc (pr_id p) gs \<noteq> None) peers"

lemma updatePeers_result:
  assumes "\<forall>p \<in> set peers. cl (pr_id p) \<noteq> None" "updatePeers ec now rpc gs peers (cl, gm) = (cl', gm')"
  shows "gm' = gm\<lparr>gm_broadcastErrors := gm_broadcastErrors gm + length (failing rpc gs peers)\<rparr>
    \<and> (\<forall>i. (\<forall>p \<in> set (failing rpc gs peers). pr_id p \<noteq> i) \<longrightarrow> cl' i = cl i)"
  using assms
proof (induction peers arbitrary: cl gm)
  case (Cons p ps)
  obtain c where c: "cl (pr_id p) = Some c" using Cons.prems(1) by auto
  show ?case
  proof (cases "pi_IsOwner (pr_Info p) \<or> rpc (pr_id p) gs = None")
    case True
    then have "updatePeers ec now rpc gs (p # ps) (cl, gm) = updatePeers ec now rpc gs ps (cl, gm)"
      using c by (auto simp: ClientUpdatePeerGlobals_def fun_upd_idem)
    then show ?thesis using Cons.IH [of cl gm] Cons.prems True by (auto simp: failing_def)
  next
    case False
    then obtain e where e: "rpc (pr_id p) gs = Some e" by auto
    let ?c = "snd (setLastErr ec now (Some e) c)" and ?gm = "gm\<lparr>gm_broadcastErrors := Suc (gm_broadcastErrors gm)\<rparr>"
    let ?cl = "cl(pr_id p \<mapsto> ?c)"
    have "updatePeers ec now rpc gs (p # ps) (cl, gm) = updatePeers ec now rpc gs ps (?cl, ?gm)"
      using False c e by (simp add: ClientUpdatePeerGlobals_def)
    then have u: "updatePeers ec now rpc gs ps (?cl, ?gm) = (cl', gm')" using Cons.prems(2) by simp
    have f: "failing rpc gs (p # ps) = p # failing rpc gs ps" using False by (simp add: failing_def)
    have "\<forall>q \<in> set ps. ?cl (pr_id q) \<noteq> None" using Cons.prems(1) by simp
    note IH = Cons.IH [OF this u]
    have "cl' i = cl i" if "\<forall>q \<in> set (p # failing rpc gs ps). pr_id q \<noteq> i" for i
      using IH that by simp
    then show ?thesis using IH unfolding f by simp
  qed
qed (simp add: failing_def)

text \<open>
  A broadcast reaches every other peer, once: the peers whose client fails are exactly counted, an
  error is recorded with no other client, and the instance itself is left out.
\<close>

theorem broadcast_reaches_peers:
  assumes "\<forall>p \<in> set peers. cl (pr_id p) \<noteq> None"
    and "broadcastPeers ec now rpc peers updates (pool, cl, gm) = (Inr (), pool', cl', gm')"
  shows "\<exists>gs. globalsOf now updates pool = (Inr gs, pool')
    \<and> gm_broadcastErrors gm' = gm_broadcastErrors gm
        + length (filter (\<lambda>p. \<not> pi_IsOwner (pr_Info p) \<and> rpc (pr_id p) gs \<noteq> None) peers)
    \<and> (\<forall>i. (\<forall>p \<in> set peers. pr_id p = i \<longrightarrow> pi_IsOwner (pr_Info p) \<or> rpc i gs = None) \<longrightarrow> cl' i = cl i)"
proof -
  obtain gs where g: "globalsOf now updates pool = (Inr gs, pool')" "updatePeers ec now rpc gs peers (cl, gm) = (cl', gm')"
    using assms(2) by (auto simp: broadcastPeers_def split: prod.splits sum.splits)
  have r: "gm' = gm\<lparr>gm_broadcastErrors := gm_broadcastErrors gm + length (failing rpc gs peers)\<rparr>"
    "\<And>i. \<forall>p \<in> set (failing rpc gs peers). pr_id p \<noteq> i \<Longrightarrow> cl' i = cl i"
    using updatePeers_result [OF assms(1) g(2)] by blast+
  have "cl' i = cl i" if "\<forall>p \<in> set peers. pr_id p = i \<longrightarrow> pi_IsOwner (pr_Info p) \<or> rpc i gs = None" for i
    by (rule r(2)) (use that in \<open>auto simp: failing_def\<close>)
  then show ?thesis using g(1) r(1) by (intro exI [of _ gs]) (simp add: failing_def)
qed

theorem broadcast_reaches_peers_witness:
  "gm_broadcastErrors (snd (snd (snd (broadcastPeers stdErrCache time0 (\<lambda>i gs. if i = 1 then Some Canceled else None)
     [samplePeer 1 ''a'', samplePeer 2 ''b''] [] (poolOf 4 100 (\<lambda>_. 0), \<lambda>i. Some sampleClient, sampleGM))))) = 1"
proof -
  let ?peers = "[samplePeer 1 ''a'', samplePeer 2 ''b'']"
  let ?rpc = "\<lambda>i gs. if i = 1 then Some Canceled else None"
  obtain cl' gm' where u: "updatePeers stdErrCache time0 ?rpc [] ?peers (\<lambda>i. Some sampleClient, sampleGM) = (cl', gm')"
    by fastforce
  then have b: "broadcastPeers stdErrCache time0 ?rpc ?peers [] (poolOf 4 100 (\<lambda>_. 0), \<lambda>i. Some sampleClient, sampleGM) =
      (Inr (), poolOf 4 100 (\<lambda>_. 0), cl', gm')"
    by (simp add: broadcastPeers_def del: updatePeers.simps)
  have "\<forall>p \<in> set ?peers. Some sampleClient \<noteq> None" by simp
  from broadcast_reaches_peers [OF this b] have "gm_broadcastErrors gm' = 1"
    by (auto simp: samplePeer_def sampleGM_def newGlobalManager_def)
  then show ?thesis by (simp only: b snd_conv)
qed

subsection \<open>A broadcast repeats a reset\<close>

text \<open>
  C25. The status of a key is read for a broadcast by a request without hits that keeps the behaviour of
  the update. When the last update of a token bucket asked for \<^verbatim>\<open>RESET_REMAINING\<close>, reading its status
  removes the bucket again, with everything that was charged to it since.
\<close>

theorem broadcast_resets_again:
  assumes "pool_ok p" "wp_Store p = None" "poolLook p (HashKey u) = Some i" "\<not> IsExpired now i" "ci_Value i \<noteq> NilValue"
    and "rq_Algorithm u = TOKEN_BUCKET" "HasBehavior (rq_Behavior u) RESET_REMAINING"
  shows "poolLook (snd (globalsOf now [(HashKey u, u)] p)) (HashKey u) = None"
proof -
  obtain w where w: "getWorker p (HashKey u) = Inr w" "lookup (wp_caches p ! w) (HashKey u) = Some i"
    using assms(3) by (auto simp: poolLook_def split: sum.splits)
  have wl: "w < length (wp_caches p)" by (rule getWorker_bound [OF w(1)])
  let ?r = "u\<lparr>rq_Hits := 0\<rparr>" and ?st = "\<lparr>IsOwner = False, WaitCeiling = 0\<rparr>" and ?W = "workerState w p"
  have k: "HashKey ?r = HashKey u" by (simp add: HashKey_def)
  have "wlook ?W (HashKey ?r) = Some i" by (simp add: wlook_def workerState_def w(2) k)
  note R = tokenBucket_reset_result [of ?W None "\<lambda>_ _. None" ?r i now ?st, OF pool_okD(1) [OF assms(1) wl] _ this assms(4,5)]
  obtain res W' where t: "tokenBucket now None ?r ?st ?W = (res, W')" by fastforce
  have "res = Inr (mkResp UNDER_LIMIT (rq_Limit u) (rq_Limit u) 0)" "wlook W' (HashKey u) = None"
    using R assms(7) by (simp_all add: t k goodStore_def)
  then have "PoolGetRateLimit Served now ?r ?st p =
      (Inr (mkResp UNDER_LIMIT (rq_Limit u) (rq_Limit u) 0), countCommand w ''GetRateLimit'' ((putWorker w W' p)\<lparr>wp_errors := wp_errors p\<rparr>))"
    using w(1) assms(2,6) t by (simp add: PoolGetRateLimit_serve k serve_def handleGetRateLimit_def)
  moreover have "poolLook (putWorker w W' p) (HashKey u) = None"
    using poolLook_put [OF w(1) wl] \<open>wlook W' (HashKey u) = None\<close> by (simp add: wlook_def)
  ultimately show ?thesis by (simp split: option.split)
qed

theorem broadcast_resets_again_witness:
  "poolLook (snd (globalsOf time0 [(''n_k'', req0\<lparr>rq_Behavior := RESET_REMAINING\<rparr>)] (poolWith (token0 1)))) ''n_k'' = None"
proof -
  let ?u = "req0\<lparr>rq_Behavior := RESET_REMAINING\<rparr>"
  have k: "HashKey ?u = ''n_k''" by (simp add: HashKey_def)
  have "poolLook (poolWith (token0 1)) (HashKey ?u) = Some (token0 1)"
    using pool_items_find [OF poolWith_state(1), of "''n_k''" "token0 1"] by (simp add: poolWith_state(4) k token0_def [of 1])
  then show ?thesis
    using broadcast_resets_again [OF poolWith_state(1,2) _ token0_live, of "token0 1" ?u 1]
    by (simp add: k HasBehavior_def RESET_REMAINING_def)
qed

end
