(* ===== verification/Instance.thy ===== *)
theory Instance
  imports Global
begin

text \<open>
  The server instance, \<^verbatim>\<open>gubernator.go\<close>: its construction, the handlers of the client and of the peer
  API, forwarding with retries, global rate limits, the peers it is told of, its health, and its end.
  The instance state holds the worker pool, the global manager and the store of peer clients. A handler
  runs on one clock reading; what the contexts, connections and channels around it do is a parameter.
\<close>

subsection \<open>State\<close>

record ('s, 'c) V1Instance =
  v_global :: globalManager
  v_conf :: Config
  v_isClosed :: bool
  v_workerPool :: "'s WorkerPool"
  v_clients :: "'c clients"
  v_collectors :: "nat \<Rightarrow> runBatchState option"
  v_nextClient :: nat
  v_checks :: "string \<Rightarrow> nat"
  v_retries :: "string \<Rightarrow> nat"
  v_updates :: nat
  v_events :: "HitEvent list"

text \<open>The shared counter of errors lives with the worker pool.\<close>

definition withErrs :: "((string \<Rightarrow> nat) \<Rightarrow> string \<Rightarrow> nat) \<Rightarrow> ('s, 'c) V1Instance \<Rightarrow> ('s, 'c) V1Instance" where
  "withErrs f s = s\<lparr>v_workerPool := (v_workerPool s)\<lparr>wp_errors := f (wp_errors (v_workerPool s))\<rparr>\<rparr>"

definition inc :: "string \<Rightarrow> (string \<Rightarrow> nat) \<Rightarrow> string \<Rightarrow> nat" where
  "inc l c = c(l := Suc (c l))"

definition noGRPCServer :: goerr where
  "noGRPCServer = Errorf ''at least one GRPCServer instance is required''"

text \<open>
  \<^verbatim>\<open>NewV1Instance\<close>: defaults, workers, global manager, and the load of the cache when there is a
  loader. The setter package, the hashes, the number of processors, the instance name and what the
  loader returns are parameters.
\<close>

definition NewV1Instance ::
  "Setter \<Rightarrow> (string \<Rightarrow> 64 word) \<Rightarrow> (string \<Rightarrow> 64 word) \<Rightarrow> int \<Rightarrow> string \<Rightarrow> 's StoreOps option \<Rightarrow> 's
   \<Rightarrow> Time \<Rightarrow> goerr + CacheItem list \<Rightarrow> Config \<Rightarrow> goerr + ('s, 'c) V1Instance" where
  "NewV1Instance st defaultHash xxhash numCPU instanceID ops s0 now loaded conf =
     (if c_GRPCServers conf = None then Inl noGRPCServer
      else
        (case SetDefaults st defaultHash numCPU instanceID conf of
           Inl e \<Rightarrow> Inl e
         | Inr conf \<Rightarrow>
             (case NewWorkerPool st xxhash ops s0 conf of
                Inl e \<Rightarrow> Inl e
              | Inr pool \<Rightarrow>
                  (case newGlobalManager (c_Behaviors conf) of
                     Inl e \<Rightarrow> Inl e
                   | Inr gm \<Rightarrow>
                       (let s = \<lparr>v_global = gm, v_conf = conf, v_isClosed = False, v_workerPool = pool,
                                 v_clients = (\<lambda>_. None), v_collectors = (\<lambda>_. None), v_nextClient = 0,
                                 v_checks = (\<lambda>_. 0), v_retries = (\<lambda>_. 0), v_updates = 0, v_events = []\<rparr>
                        in if \<not> c_hasLoader conf then Inr s
                           else (case PoolLoad now loaded None pool of
                                   (Inl e, _) \<Rightarrow> Inl (WrapErr ''Error in workerPool.Load'' e)
                                 | (Inr _, pool') \<Rightarrow> Inr (s\<lparr>v_workerPool := pool'\<rparr>)))))))"

subsection \<open>Peers\<close>

definition GetPeer :: "ReplicatedConsistentHash option \<Rightarrow> key \<Rightarrow> goerr + PeerRef" where
  "GetPeer picker key =
     (case picker of
        None \<Rightarrow> Inl nilDereference
      | Some ring \<Rightarrow>
          (case ringGet ring key of
             Inl e \<Rightarrow> Inl (WrapErr ''Error in conf.LocalPicker.Get'' e)
           | Inr p \<Rightarrow> Inr p))"

definition GetPeerList :: "('s, 'c) V1Instance \<Rightarrow> PeerRef list" where
  "GetPeerList s = (case c_LocalPicker (v_conf s) of None \<Rightarrow> [] | Some ring \<Rightarrow> ringPeers ring)"

definition GetRegionPickers :: "('s, 'c) V1Instance \<Rightarrow> (string \<times> ReplicatedConsistentHash) list" where
  "GetRegionPickers s = (case c_RegionPicker (v_conf s) of None \<Rightarrow> [] | Some rp \<Rightarrow> regionPickers rp)"

subsection \<open>Local rate limits\<close>

definition validateMaxWait :: "RateLimitReq \<Rightarrow> string" where
  "validateMaxWait r =
     (if rq_MaxWait r < 0 then ''field '' @ quoted ''max_wait'' @ '' cannot be negative''
      else if rq_MaxWait r = 0 then []
      else if rq_Algorithm r \<noteq> LEAKY_BUCKET then ''max_wait is only supported by LEAKY_BUCKET''
      else if HasBehavior (rq_Behavior r) GLOBAL then ''max_wait cannot be combined with GLOBAL''
      else if HasBehavior (rq_Behavior r) DURATION_IS_GREGORIAN then ''max_wait cannot be combined with DURATION_IS_GREGORIAN''
      else if HasBehavior (rq_Behavior r) DRAIN_OVER_LIMIT then ''max_wait cannot be combined with DRAIN_OVER_LIMIT''
      else if HasBehavior (rq_Behavior r) RESET_REMAINING then ''max_wait cannot be combined with RESET_REMAINING''
      else if rq_Hits r < 0 then ''max_wait cannot be combined with negative hits''
      else [])"

text \<open>
  How the call of a worker ends, and whether the event channel takes the event before the context is
  done, are parameters.
\<close>

definition getLocalRateLimit ::
  "handover \<Rightarrow> bool \<Rightarrow> Time \<Rightarrow> RateLimitReq \<Rightarrow> RateLimitReqState \<Rightarrow> ('s, 'c) V1Instance
   \<Rightarrow> (goerr + RateLimitResp) \<times> ('s, 'c) V1Instance" where
  "getLocalRateLimit ho delivered now r reqState s =
     (if validateMaxWait r \<noteq> []
      then (Inr (errResp (validateMaxWait r)), withErrs (countErr ''Invalid request'') s)
      else
        (case PoolGetRateLimit ho now r reqState (v_workerPool s) of
           (Inl e, p) \<Rightarrow> (Inl (WrapErr ''during workerPool.GetRateLimit'' e), s\<lparr>v_workerPool := p\<rparr>)
         | (Inr resp, p) \<Rightarrow>
             (let s = s\<lparr>v_workerPool := p\<rparr>;
                  s = (if HasBehavior (rq_Behavior r) GLOBAL then s\<lparr>v_global := QueueUpdate r (v_global s)\<rparr> else s);
                  s = (if IsOwner reqState then s\<lparr>v_checks := inc ''local'' (v_checks s)\<rparr> else s);
                  s = (if IsOwner reqState \<and> c_hasEventChannel (v_conf s) \<and> delivered
                       then s\<lparr>v_events := v_events s @ [\<lparr>he_Request = r, he_Response = resp\<rparr>]\<rparr> else s)
              in (Inr resp, s))))"

definition getGlobalRateLimit ::
  "handover \<Rightarrow> Time \<Rightarrow> RateLimitReq \<Rightarrow> ('s, 'c) V1Instance \<Rightarrow> (goerr + RateLimitResp) \<times> ('s, 'c) V1Instance" where
  "getGlobalRateLimit ho now req s =
     (let req2 = req\<lparr>rq_Behavior := SetBehavior (SetBehavior (rq_Behavior req) NO_BATCHING True) GLOBAL False\<rparr>
      in case getLocalRateLimit ho False now req2 \<lparr>IsOwner = False, WaitCeiling = 0\<rparr> s of
           (Inl e, s') \<Rightarrow> (Inl (WrapErr ''during in getLocalRateLimit'' e), s')
         | (Inr resp, s') \<Rightarrow>
             (Inr resp, s'\<lparr>v_checks := inc ''global'' (v_checks s'), v_global := QueueHit req (v_global s')\<rparr>))"

subsection \<open>Forwarding\<close>

text \<open>
  What one attempt to forward a request meets: the trace headers, the connections, the context of the
  caller, the answer of the batch it joins, the context error after a failure, the local picker at the
  time of the next attempt (another goroutine may have replaced it), and the worker of a local attempt.
\<close>

record attemptEnv =
  ae_headers :: "(string \<times> string) list"
  ae_rpc :: "nat \<Rightarrow> RateLimitReq list \<Rightarrow> goerr + RateLimitResp list"
  ae_ctx :: callCtx
  ae_ch :: nat
  ae_reply :: response
  ae_ctxErr :: "goerr option"
  ae_picker :: "ReplicatedConsistentHash option"
  ae_hand :: handover
  ae_delivered :: bool

text \<open>The call of the client behind a reference, on the shared store and counters.\<close>

definition callPeer ::
  "'c ErrCache \<Rightarrow> Time \<Rightarrow> attemptEnv \<Rightarrow> PeerRef \<Rightarrow> RateLimitReq \<Rightarrow> ('s, 'c) V1Instance \<Rightarrow> response \<times> ('s, 'c) V1Instance" where
  "callPeer ec now ae peer r s =
     (case v_clients s (pr_id peer) of
        None \<Rightarrow> (Inl nilDereference, s)
      | Some c \<Rightarrow>
          (case ClientGetPeerRateLimit ec now (ae_headers ae) (ae_rpc ae (pr_id peer)) (ae_ctx ae) (ae_ch ae) (ae_reply ae) r
                  (c, wp_errors (v_workerPool s)) of
             (res, c', errs) \<Rightarrow> (res, (withErrs (\<lambda>_. errs) s)\<lparr>v_clients := (v_clients s)(pr_id peer \<mapsto> c')\<rparr>)))"

definition ownerMeta :: "PeerRef \<Rightarrow> metadata" where
  "ownerMeta peer = [(''owner'', pi_GRPCAddress (pr_Info peer))]"

definition failed :: "string \<Rightarrow> string \<Rightarrow> string \<Rightarrow> goerr \<Rightarrow> RateLimitResp" where
  "failed pre key post e = errResp (err_msg (WrapErr (pre @ quoted key @ post) e))"

function (sequential) asyncAttempts ::
  "'c ErrCache \<Rightarrow> Time \<Rightarrow> (nat \<Rightarrow> attemptEnv) \<Rightarrow> RateLimitReq \<Rightarrow> key \<Rightarrow> nat \<Rightarrow> goerr \<Rightarrow> PeerRef
   \<Rightarrow> ('s, 'c) V1Instance \<Rightarrow> RateLimitResp \<times> ('s, 'c) V1Instance" where
  "asyncAttempts ec now env req key attempts err peer s =
     (if attempts > 5
      then (failed ''GetPeer() keeps returning peers that are not connected for '' key [] err,
            withErrs (countError err ''Peer not connected'') s)
      else if attempts \<noteq> 0 \<and> pi_IsOwner (pr_Info peer)
      then (case getLocalRateLimit (ae_hand (env attempts)) (ae_delivered (env attempts)) now req \<lparr>IsOwner = True, WaitCeiling = 0\<rparr> s of
              (Inl e, s') \<Rightarrow> (failed ''during getLocalRateLimit() for '' key [] e, s')
            | (Inr resp, s') \<Rightarrow> (resp, s'))
      else
        (let ae = env attempts;
             forward = (if rq_MaxWait req > 0 then req\<lparr>rq_Behavior := SetBehavior (rq_Behavior req) NO_BATCHING True\<rparr> else req)
         in case callPeer ec now ae peer forward s of
              (Inr r, s') \<Rightarrow> (r\<lparr>rs_Metadata := ownerMeta peer\<rparr>, s')
            | (Inl e, s') \<Rightarrow>
                if rq_MaxWait forward > 0 then (failed ''while fetching rate limit '' key '' from peer'' e, s')
                else if err_is e Canceled \<or> err_is e DeadlineExceeded
                then (case ae_ctxErr ae of
                        Some ce \<Rightarrow> (failed ''caller gave up on rate limit '' key [] ce, s')
                      | None \<Rightarrow>
                          (let s' = s'\<lparr>v_retries := inc (rq_Name req) (v_retries s')\<rparr>
                           in case GetPeer (ae_picker ae) key of
                                Inl pe \<Rightarrow>
                                  (failed ''while finding peer that owns rate limit '' key [] pe,
                                   withErrs (countError pe ''during GetPeer()'') s')
                              | Inr newPeer \<Rightarrow> asyncAttempts ec now env req key (Suc attempts) e newPeer s'))
                else (failed ''while fetching rate limit '' key '' from peer'' e, s')))"
  by pat_completeness auto
termination
  by (relation "measure (\<lambda>(ec, now, env, req, key, attempts, err, peer, s). 6 - attempts)") auto

declare asyncAttempts.simps [simp del]

definition asyncRequest ::
  "'c ErrCache \<Rightarrow> Time \<Rightarrow> (nat \<Rightarrow> attemptEnv) \<Rightarrow> goerr option \<Rightarrow> RateLimitReq \<Rightarrow> key \<Rightarrow> PeerRef
   \<Rightarrow> ('s, 'c) V1Instance \<Rightarrow> RateLimitResp \<times> ('s, 'c) V1Instance" where
  "asyncRequest ec now env endErr req key peer s =
     (let (resp, s') = asyncAttempts ec now env req key 0 (Errorf []) peer s
      in (resp, if (case endErr of None \<Rightarrow> False | Some e \<Rightarrow> err_is e DeadlineExceeded)
                then withErrs (countErr ''Timeout forwarding to peer'') s' else s'))"

subsection \<open>The client API\<close>

text \<open>
  What one item of a request meets: the context error when it is looked at, the worker, the event
  channel, the attempts to forward it and the context error at the end.
\<close>

record itemEnv =
  ie_ctxErr :: "goerr option"
  ie_hand :: handover
  ie_delivered :: bool
  ie_attempts :: "nat \<Rightarrow> attemptEnv"
  ie_endErr :: "goerr option"

datatype itemResult = Answer RateLimitResp | Forward RateLimitReq PeerRef

definition setCreatedAt :: "i64 \<Rightarrow> RateLimitReq \<Rightarrow> RateLimitReq" where
  "setCreatedAt createdAt req = (if rq_CreatedAt req \<in> {None, Some 0} then req\<lparr>rq_CreatedAt := Some createdAt\<rparr> else req)"

definition getRateLimitItem ::
  "Time \<Rightarrow> itemEnv \<Rightarrow> RateLimitReq \<Rightarrow> ('s, 'c) V1Instance \<Rightarrow> itemResult \<times> ('s, 'c) V1Instance" where
  "getRateLimitItem now ie item s =
     (let key = rq_Name item @ ''_'' @ rq_UniqueKey item
      in if rq_UniqueKey item = []
         then (Answer (errResp (''field '' @ quoted ''unique_key'' @ '' cannot be empty'')), withErrs (countErr ''Invalid request'') s)
         else if rq_Name item = []
         then (Answer (errResp (''field '' @ quoted ''namespace'' @ '' cannot be empty'')), withErrs (countErr ''Invalid request'') s)
         else
           (let req = setCreatedAt (epochMillis now) item
            in case ie_ctxErr ie of
                 Some e \<Rightarrow> (Answer (errResp (err_msg (WrapErr ''Error while iterating request items'' e))), s)
               | None \<Rightarrow>
                   (let req = (if bc_ForceGlobal (c_Behaviors (v_conf s))
                               then req\<lparr>rq_Behavior := SetBehavior (rq_Behavior req) GLOBAL True\<rparr> else req)
                    in if validateMaxWait req \<noteq> []
                       then (Answer (errResp (validateMaxWait req)), withErrs (countErr ''Invalid request'') s)
                       else
                         (case GetPeer (c_LocalPicker (v_conf s)) key of
                            Inl e \<Rightarrow>
                              (Answer (failed ''Error in GetPeer, looking up peer that owns rate limit '' key [] e),
                               withErrs (countError e ''Error in GetPeer'') s)
                          | Inr peer \<Rightarrow>
                              if pi_IsOwner (pr_Info peer)
                              then (case getLocalRateLimit (ie_hand ie) (ie_delivered ie) now req \<lparr>IsOwner = True, WaitCeiling = 0\<rparr> s of
                                      (Inl e, s') \<Rightarrow> (Answer (failed ''Error while apply rate limit for '' key [] e), s')
                                    | (Inr resp, s') \<Rightarrow> (Answer resp, s'))
                              else if HasBehavior (rq_Behavior req) GLOBAL
                              then (case getGlobalRateLimit (ie_hand ie) now req s of
                                      (Inl e, s') \<Rightarrow>
                                        (Answer ((errResp (err_msg (WrapErr ''Error in getGlobalRateLimit'' e)))\<lparr>rs_Metadata := ownerMeta peer\<rparr>), s')
                                    | (Inr resp, s') \<Rightarrow> (Answer (resp\<lparr>rs_Metadata := ownerMeta peer\<rparr>), s'))
                              else (Forward req peer, s)))))"

fun getRateLimitItems ::
  "Time \<Rightarrow> itemEnv list \<Rightarrow> RateLimitReq list \<Rightarrow> ('s, 'c) V1Instance \<Rightarrow> itemResult list \<times> ('s, 'c) V1Instance" where
  "getRateLimitItems now (ie # ies) (r # rs) s =
     (let (a, s1) = getRateLimitItem now ie r s; (as, s2) = getRateLimitItems now ies rs s1 in (a # as, s2))"
| "getRateLimitItems now _ _ s = ([], s)"

text \<open>
  The forwarded items run in goroutines of their own; the model runs them after the others, in order.
\<close>

fun forwardItems ::
  "'c ErrCache \<Rightarrow> Time \<Rightarrow> itemEnv list \<Rightarrow> itemResult list \<Rightarrow> ('s, 'c) V1Instance \<Rightarrow> RateLimitResp list \<times> ('s, 'c) V1Instance" where
  "forwardItems ec now (ie # ies) (Answer resp # as) s =
     (let (resps, s') = forwardItems ec now ies as s in (resp # resps, s'))"
| "forwardItems ec now (ie # ies) (Forward req peer # as) s =
     (let (resp, s1) = asyncRequest ec now (ie_attempts ie) (ie_endErr ie) req (HashKey req) peer s;
          (resps, s2) = forwardItems ec now ies as s1
      in (resp # resps, s2))"
| "forwardItems ec now _ _ s = ([], s)"

definition tooLarge :: "string \<Rightarrow> goerr" where
  "tooLarge what = StatusErr ''OutOfRange'' (what @ '' list too large; max size is '' @ quoted ''1000'')"

definition GetRateLimits ::
  "'c ErrCache \<Rightarrow> Time \<Rightarrow> itemEnv list \<Rightarrow> RateLimitReq list \<Rightarrow> ('s, 'c) V1Instance
   \<Rightarrow> (goerr + RateLimitResp list) \<times> ('s, 'c) V1Instance" where
  "GetRateLimits ec now ies reqs s =
     (if int (length reqs) > maxBatchSize
      then (Inl (tooLarge ''Requests.RateLimits''), withErrs (countErr ''Request too large'') s)
      else
        (let (as, s1) = getRateLimitItems now ies reqs s;
             (resps, s2) = forwardItems ec now ies as s1
         in (Inr resps, s2)))"

subsection \<open>The peer API\<close>

definition replicaItem :: "Time \<Rightarrow> UpdatePeerGlobal \<Rightarrow> CacheItem" where
  "replicaItem now g =
     \<lparr>ci_Algorithm = ug_Algorithm g, ci_Key = ug_Key g,
      ci_Value = (case ug_Algorithm g of
          LEAKY_BUCKET \<Rightarrow> LeakyValue \<lparr>lb_Limit = rs_Limit (ug_Status g), lb_Duration = ug_Duration g,
            lb_Remaining = f64_of_int (rs_Remaining (ug_Status g)), lb_UpdatedAt = MillisecondNow now, lb_Burst = rs_Limit (ug_Status g)\<rparr>
        | TOKEN_BUCKET \<Rightarrow> TokenValue \<lparr>tb_Status = rs_Status (ug_Status g), tb_Limit = rs_Limit (ug_Status g),
            tb_Duration = ug_Duration g, tb_Remaining = rs_Remaining (ug_Status g), tb_CreatedAt = MillisecondNow now\<rparr>
        | OTHER_ALGORITHM _ \<Rightarrow> NilValue),
      ci_ExpireAt = rs_ResetTime (ug_Status g), ci_InvalidAt = 0\<rparr>"

fun addReplicas :: "Time \<Rightarrow> handover list \<Rightarrow> UpdatePeerGlobal list \<Rightarrow> 's WorkerPool \<Rightarrow> goerr option \<times> 's WorkerPool" where
  "addReplicas now (ho # hos) (g # gs) p =
     (case PoolAddCacheItem ho now (ug_Key g) (replicaItem now g) p of
        (Inl e, p') \<Rightarrow> (Some (WrapErr ''Error in workerPool.AddCacheItem'' e), p')
      | (Inr _, p') \<Rightarrow> addReplicas now hos gs p')"
| "addReplicas now _ _ p = (None, p)"

definition UpdatePeerGlobals ::
  "Time \<Rightarrow> handover list \<Rightarrow> UpdatePeerGlobal list \<Rightarrow> ('s, 'c) V1Instance \<Rightarrow> goerr option \<times> ('s, 'c) V1Instance" where
  "UpdatePeerGlobals now hos gs s =
     (case addReplicas now hos gs (v_workerPool s) of
        (res, p) \<Rightarrow> (res, s\<lparr>v_updates := v_updates s + length gs, v_workerPool := p\<rparr>))"

definition peerRateLimit ::
  "handover \<Rightarrow> bool \<Rightarrow> Time \<Rightarrow> RateLimitReq \<Rightarrow> ('s, 'c) V1Instance \<Rightarrow> RateLimitResp \<times> ('s, 'c) V1Instance" where
  "peerRateLimit ho delivered now req s =
     (let req = (if HasBehavior (rq_Behavior req) GLOBAL
                 then req\<lparr>rq_Behavior := SetBehavior (rq_Behavior req) DRAIN_OVER_LIMIT True\<rparr> else req);
          req = setCreatedAt (epochMillis now) req
      in case getLocalRateLimit ho delivered now req \<lparr>IsOwner = True, WaitCeiling = 0\<rparr> s of
           (Inl e, s') \<Rightarrow> (errResp (err_msg (WrapErr ''Error in getLocalRateLimit'' e)), s')
         | (Inr rl, s') \<Rightarrow> (rl, s'))"

text \<open>
  The requests are fanned out to goroutines; \<open>order\<close> is the order in which they are served, and the
  answers are put at the index of their request. An index that is never served would stay nil.
\<close>

fun fanOut ::
  "Time \<Rightarrow> (nat \<Rightarrow> handover \<times> bool) \<Rightarrow> RateLimitReq list \<Rightarrow> nat list \<Rightarrow> RateLimitResp option list \<times> ('s, 'c) V1Instance
   \<Rightarrow> RateLimitResp option list \<times> ('s, 'c) V1Instance" where
  "fanOut now env reqs [] st = st"
| "fanOut now env reqs (i # order) (out, s) =
     (let (rl, s') = peerRateLimit (fst (env i)) (snd (env i)) now (reqs ! i) s
      in fanOut now env reqs order (out[i := Some rl], s'))"

definition GetPeerRateLimits ::
  "Time \<Rightarrow> (nat \<Rightarrow> handover \<times> bool) \<Rightarrow> nat list \<Rightarrow> RateLimitReq list \<Rightarrow> ('s, 'c) V1Instance
   \<Rightarrow> (goerr + RateLimitResp option list) \<times> ('s, 'c) V1Instance" where
  "GetPeerRateLimits now env order reqs s =
     (if int (length reqs) > maxBatchSize
      then (Inl (tooLarge (quoted ''PeerRequest.rate_limits'')), withErrs (countErr ''Request too large'') s)
      else (let (out, s') = fanOut now env reqs order (replicate (length reqs) None, s) in (Inr out, s')))"

subsection \<open>Health\<close>

record PeerHealthResp =
  ph_GrpcAddress :: string
  ph_DataCenter :: string

record HealthCheckResp =
  hc_PeerCount :: int
  hc_Status :: string
  hc_Message :: string
  hc_AdvertiseAddress :: string
  hc_LocalPeers :: "PeerHealthResp list"
  hc_RegionPeers :: "PeerHealthResp list"

definition peerHealth :: "PeerRef \<Rightarrow> PeerHealthResp" where
  "peerHealth p = \<lparr>ph_GrpcAddress = pi_GRPCAddress (pr_Info p), ph_DataCenter = pi_DataCenter (pr_Info p)\<rparr>"

fun peerErrors :: "'c ErrCache \<Rightarrow> Time \<Rightarrow> string \<Rightarrow> PeerRef list \<Rightarrow> 'c clients \<Rightarrow> string list \<times> 'c clients" where
  "peerErrors ec now kind [] cl = ([], cl)"
| "peerErrors ec now kind (p # ps) cl =
     (case cl (pr_id p) of
        None \<Rightarrow> peerErrors ec now kind ps cl
      | Some c \<Rightarrow>
          (let (errs, c') = GetLastErr ec now c;
               (rest, cl') = peerErrors ec now kind ps (cl(pr_id p \<mapsto> c'))
           in (map (\<lambda>m. ''error returned from '' @ kind @ '' peer.GetLastErr: '' @ m) errs @ rest, cl')))"

definition ownAddress :: "string \<Rightarrow> PeerRef list \<Rightarrow> string" where
  "ownAddress advertise peers =
     (case find (\<lambda>p. pi_GRPCAddress (pr_Info p) = advertise) peers of None \<Rightarrow> [] | Some p \<Rightarrow> pi_GRPCAddress (pr_Info p))"

definition wrap32 :: "int \<Rightarrow> int" where
  "wrap32 x = (x + 2 ^ 31) mod 2 ^ 32 - 2 ^ 31"

definition HealthCheck :: "'c ErrCache \<Rightarrow> Time \<Rightarrow> ('s, 'c) V1Instance \<Rightarrow> (goerr + HealthCheckResp) \<times> ('s, 'c) V1Instance" where
  "HealthCheck ec now s =
     (let localPeers = GetPeerList s;
          regPeers = (case c_RegionPicker (v_conf s) of None \<Rightarrow> [] | Some rp \<Rightarrow> regionPeers rp);
          (errs1, cl1) = peerErrors ec now ''local'' localPeers (v_clients s);
          (errs2, cl2) = peerErrors ec now ''region'' regPeers cl1;
          errs = errs1 @ errs2;
          own = ownAddress (c_AdvertiseAddr (v_conf s)) localPeers;
          health = \<lparr>hc_PeerCount = wrap32 (int (length localPeers + length regPeers)), hc_Status = Healthy, hc_Message = [],
                    hc_AdvertiseAddress = own, hc_LocalPeers = map peerHealth localPeers, hc_RegionPeers = map peerHealth regPeers\<rparr>;
          health = (if errs \<noteq> [] then health\<lparr>hc_Status := UnHealthy, hc_Message := Join ''|'' errs\<rparr> else health);
          health = (if own = [] then health\<lparr>hc_Status := UnHealthy,
                      hc_Message := Join ''|'' (errs @ [''this instance is not found in the peer list''])\<rparr> else health);
          s' = s\<lparr>v_clients := cl2\<rparr>
      in if hc_Status health \<noteq> Healthy then (Inl (StatusErr ''Unavailable'' (hc_Message health)), s')
         else (Inr health, s'))"

definition LiveCheck :: "('s, 'c) V1Instance \<Rightarrow> goerr option" where
  "LiveCheck s = (if v_isClosed s then Some (StatusErr ''Unavailable'' ''server is shutting down'') else None)"

subsection \<open>Changing the peers\<close>

text \<open>
  A client for a peer: the one of the old picker with this address, or a new one. Whether a connection
  can be made is a parameter.
\<close>

definition peerConfig :: "('s, 'c) V1Instance \<Rightarrow> bool \<Rightarrow> PeerInfo \<Rightarrow> PeerConfig" where
  "peerConfig s hasTLS info =
     \<lparr>pf_hasTLS = hasTLS, pf_Behavior = c_Behaviors (v_conf s), pf_Info = info, pf_TraceGRPC = c_PeerTraceGRPC (v_conf s)\<rparr>"

definition clientFor ::
  "'c ErrCache \<Rightarrow> (string \<Rightarrow> DialOption list \<Rightarrow> goerr option) \<Rightarrow> bool \<Rightarrow> PeerRef option \<Rightarrow> PeerInfo
   \<Rightarrow> ('s, 'c) V1Instance \<Rightarrow> PeerRef option \<times> ('s, 'c) V1Instance" where
  "clientFor ec dial hasTLS old info s =
     (case old of
        Some p \<Rightarrow> (Some p, s)
      | None \<Rightarrow>
          (case NewPeerClient ec dial (peerConfig s hasTLS info) of
             Inl e \<Rightarrow> (None, s)
           | Inr (c, collector) \<Rightarrow>
               (let i = v_nextClient s
                in (Some \<lparr>pr_id = i, pr_Info = info\<rparr>,
                    s\<lparr>v_clients := (v_clients s)(i \<mapsto> c), v_collectors := (v_collectors s)(i := collector), v_nextClient := Suc i\<rparr>))))"

text \<open>The new pickers, or \<^term>\<open>None\<close> when a connection failed and the old ones stay.\<close>

fun fillPickers ::
  "'c ErrCache \<Rightarrow> (string \<Rightarrow> DialOption list \<Rightarrow> goerr option) \<Rightarrow> bool \<Rightarrow> PeerInfo list
   \<Rightarrow> ReplicatedConsistentHash \<times> RegionPicker \<times> ('s, 'c) V1Instance
   \<Rightarrow> (ReplicatedConsistentHash \<times> RegionPicker) option \<times> ('s, 'c) V1Instance" where
  "fillPickers ec dial hasTLS [] (lp, rp, s) = (Some (lp, rp), s)"
| "fillPickers ec dial hasTLS (info # infos) (lp, rp, s) =
     (if pi_DataCenter info \<noteq> c_DataCenter (v_conf s)
      then (case clientFor ec dial hasTLS
                   (case c_RegionPicker (v_conf s) of None \<Rightarrow> None | Some old \<Rightarrow> regionGetByPeerInfo old info) info s of
              (None, s') \<Rightarrow> (None, s')
            | (Some p, s') \<Rightarrow> fillPickers ec dial hasTLS infos (lp, regionAdd p rp, s'))
      else (case clientFor ec dial hasTLS
                   (case c_LocalPicker (v_conf s) of None \<Rightarrow> None | Some old \<Rightarrow> ringGetByPeerInfo old info) info s of
              (None, s') \<Rightarrow> (None, s')
            | (Some p, s') \<Rightarrow> fillPickers ec dial hasTLS infos (ringAdd p lp, rp, s')))"

definition dropped :: "ReplicatedConsistentHash \<times> RegionPicker \<Rightarrow> ReplicatedConsistentHash \<times> RegionPicker \<Rightarrow> PeerRef list" where
  "dropped old new =
     filter (\<lambda>p. ringGetByPeerInfo (fst new) (pr_Info p) = None) (ringPeers (fst old)) @
     filter (\<lambda>p. regionGetByPeerInfo (snd new) (pr_Info p) = None) (concat (map (ringPeers \<circ> snd) (regionPickers (snd old))))"

text \<open>The context of the shutdowns may be done before a client has drained, a parameter.\<close>

definition SetPeers ::
  "'c ErrCache \<Rightarrow> (string \<Rightarrow> DialOption list \<Rightarrow> goerr option) \<Rightarrow> bool \<Rightarrow> goerr option \<Rightarrow> PeerInfo list
   \<Rightarrow> ('s, 'c) V1Instance \<Rightarrow> goerr option \<times> ('s, 'c) V1Instance" where
  "SetPeers ec dial hasTLS ctxErr infos s =
     (case (c_LocalPicker (v_conf s), c_RegionPicker (v_conf s)) of
        (Some oldLocal, Some oldRegion) \<Rightarrow>
          (case fillPickers ec dial hasTLS infos (ringNew oldLocal, regionNew oldRegion, s) of
             (None, s') \<Rightarrow> (None, s')
           | (Some (lp, rp), s') \<Rightarrow>
               (None, s'\<lparr>v_conf := (v_conf s')\<lparr>c_LocalPicker := Some lp, c_RegionPicker := Some rp\<rparr>,
                         v_clients := shutdownAll ec ctxErr (dropped (oldLocal, oldRegion) (lp, rp)) (v_clients s')\<rparr>))
      | _ \<Rightarrow> (Some nilDereference, s))"

subsection \<open>The end\<close>

definition CloseInstance ::
  "'c ErrCache \<Rightarrow> (CacheItem list \<Rightarrow> 'l \<Rightarrow> (goerr + unit) \<times> 'l) \<Rightarrow> Time \<Rightarrow> ('s, 'c) V1Instance \<times> 'l
   \<Rightarrow> goerr option \<times> ('s, 'c) V1Instance \<times> 'l" where
  "CloseInstance ec save now = (\<lambda>(s, l).
     (if v_isClosed s then (None, s, l)
      else
        (let (cl, gm) = CloseGlobal ec (GetPeerList s) (v_clients s, v_global s);
             s = s\<lparr>v_isClosed := True, v_clients := cl, v_global := gm\<rparr>
         in if c_hasLoader (v_conf s)
            then (case PoolStore save None (\<lambda>_. Some None) now (v_workerPool s, l) of
                    (Inl e, p, l') \<Rightarrow> (Some (WrapErr ''Error in workerPool.Store'' e), s\<lparr>v_workerPool := p\<rparr>, l')
                  | (Inr _, p, l') \<Rightarrow> (None, s\<lparr>v_workerPool := ClosePool p\<rparr>, l'))
            else (None, s\<lparr>v_workerPool := ClosePool (v_workerPool s)\<rparr>, l))))"

subsection \<open>Validation\<close>

text \<open>
  What \<^verbatim>\<open>max_wait\<close> may be combined with: a request passes the validation exactly if it does not ask
  to wait, or asks a leaky bucket for a positive wait with none of the flags that exclude waiting and
  without negative hits; any other request is answered with the error, and neither the worker pool
  nor the queues of global updates and events see it.
\<close>

theorem max_wait_validated:
  "(validateMaxWait r = [] \<longleftrightarrow>
      rq_MaxWait r = 0 \<or>
      0 < rq_MaxWait r \<and> rq_Algorithm r = LEAKY_BUCKET \<and> 0 \<le> rq_Hits r \<and>
      \<not> HasBehavior (rq_Behavior r) GLOBAL \<and> \<not> HasBehavior (rq_Behavior r) DURATION_IS_GREGORIAN \<and>
      \<not> HasBehavior (rq_Behavior r) DRAIN_OVER_LIMIT \<and> \<not> HasBehavior (rq_Behavior r) RESET_REMAINING)
   \<and> (validateMaxWait r \<noteq> [] \<longrightarrow>
      getLocalRateLimit ho d now r reqState s = (Inr (errResp (validateMaxWait r)), withErrs (countErr ''Invalid request'') s))"
  by (auto simp: validateMaxWait_def getLocalRateLimit_def quoted_def)

theorem max_wait_validated_witness:
  "validateMaxWait (req0\<lparr>rq_MaxWait := 5\<rparr>) \<noteq> [] \<or> rq_Algorithm req0 = LEAKY_BUCKET"
  using max_wait_validated [of "req0\<lparr>rq_MaxWait := 5\<rparr>"] by auto

subsection \<open>Every item is answered\<close>

lemma getRateLimitItems_length:
  "length ies = length reqs \<Longrightarrow> length (fst (getRateLimitItems now ies reqs s)) = length reqs"
  by (induction ies reqs arbitrary: s rule: list_induct2) (simp_all add: Let_def case_prod_beta)

lemma forwardItems_length:
  "length ies = length as \<Longrightarrow> length (fst (forwardItems ec now ies as s)) = length as"
proof (induction ies as arbitrary: s rule: list_induct2)
  case (Cons ie ies a as)
  then show ?case by (cases a) (simp_all add: Let_def case_prod_beta)
qed simp

lemma forwardItems_answer:
  "length ies = length as \<Longrightarrow> i < length as \<Longrightarrow> as ! i = Answer resp \<Longrightarrow> fst (forwardItems ec now ies as s) ! i = resp"
proof (induction ies as arbitrary: s i rule: list_induct2)
  case (Cons ie ies a as)
  show ?case
  proof (cases i)
    case 0
    then show ?thesis using Cons.prems by (simp add: Let_def case_prod_beta)
  next
    case (Suc j)
    then show ?thesis using Cons.prems Cons.IH [of j] by (cases a) (simp_all add: Let_def case_prod_beta)
  qed
qed simp

lemma getRateLimitItems_invalid:
  fixes s :: "('s, 'c) V1Instance"
  assumes "length ies = length reqs" "i < length reqs"
    and "\<And>ie (s' :: ('s, 'c) V1Instance). fst (getRateLimitItem now ie (reqs ! i) s') = Answer resp"
  shows "fst (getRateLimitItems now ies reqs s) ! i = Answer resp"
  using assms
proof (induction ies reqs arbitrary: s i rule: list_induct2)
  case (Cons ie ies r rs)
  show ?case
  proof (cases i)
    case 0
    have "fst (getRateLimitItem now ie r s) = Answer resp" using Cons.prems(2) [of ie s] 0 by simp
    then show ?thesis using 0 by (simp add: Let_def case_prod_beta)
  next
    case (Suc j)
    then show ?thesis using Cons.prems Cons.IH [of j] by (simp add: Let_def case_prod_beta)
  qed
qed simp


subsection \<open>Forwarding\<close>

lemma asyncAttempts_once:
  assumes "0 < rq_MaxWait req"
  shows "asyncAttempts ec now env req key 0 err peer s =
    (let forward = req\<lparr>rq_Behavior := SetBehavior (rq_Behavior req) NO_BATCHING True\<rparr>
     in case callPeer ec now (env 0) peer forward s of
          (Inr r, s') \<Rightarrow> (r\<lparr>rs_Metadata := ownerMeta peer\<rparr>, s')
        | (Inl e, s') \<Rightarrow> (failed ''while fetching rate limit '' key '' from peer'' e, s'))"
proof -
  have "0 < rq_MaxWait (req\<lparr>rq_Behavior := SetBehavior (rq_Behavior req) NO_BATCHING True\<rparr>)" using assms by simp
  then show ?thesis
    using assms by (subst asyncAttempts.simps) (auto simp: Let_def split: prod.split sum.split)
qed

lemma v_retries_withErrs [simp]: "v_retries (withErrs f s) = v_retries s"
  by (simp add: withErrs_def)

lemma v_retries_callPeer: "callPeer ec now ae peer r s = (res, s') \<Longrightarrow> v_retries s' = v_retries s"
  by (auto simp: callPeer_def split: option.splits prod.splits)

lemma v_retries_getLocal: "getLocalRateLimit ho d now r st s = (res, s') \<Longrightarrow> v_retries s' = v_retries s"
  by (auto simp: getLocalRateLimit_def Let_def split: if_splits prod.splits sum.splits)

lemma asyncAttempts_retries:
  "attempts \<le> 6 \<Longrightarrow> v_retries (snd (asyncAttempts ec now env req key attempts err peer s)) n
     \<le> v_retries s n + (if n = rq_Name req then 6 - attempts else 0)"
proof (induction ec now env req key attempts err peer s rule: asyncAttempts.induct)
  case (1 ec now env req key attempts err peer s)
  let ?forward = "if rq_MaxWait req > 0 then req\<lparr>rq_Behavior := SetBehavior (rq_Behavior req) NO_BATCHING True\<rparr> else req"
  show ?case
  proof (cases "attempts > 5 \<or> attempts \<noteq> 0 \<and> pi_IsOwner (pr_Info peer)")
    case True
    then show ?thesis
      by (subst asyncAttempts.simps) (auto split: prod.splits sum.splits dest: v_retries_getLocal)
  next
    case False
    obtain res s1 where c: "callPeer ec now (env attempts) peer ?forward s = (res, s1)" by fastforce
    note r = v_retries_callPeer [OF c]
    show ?thesis
    proof (cases "\<exists>e newPeer. res = Inl e \<and> rq_MaxWait ?forward \<le> 0 \<and> (err_is e Canceled \<or> err_is e DeadlineExceeded)
        \<and> ae_ctxErr (env attempts) = None \<and> GetPeer (ae_picker (env attempts)) key = Inr newPeer")
      case retry: True
      then obtain e newPeer where e: "res = Inl e" "rq_MaxWait ?forward \<le> 0" "err_is e Canceled \<or> err_is e DeadlineExceeded"
        "ae_ctxErr (env attempts) = None" "GetPeer (ae_picker (env attempts)) key = Inr newPeer" by blast
      let ?s2 = "s1\<lparr>v_retries := inc (rq_Name req) (v_retries s1)\<rparr>"
      have "asyncAttempts ec now env req key attempts err peer s = asyncAttempts ec now env req key (Suc attempts) e newPeer ?s2"
        using False c e by (subst asyncAttempts.simps) (auto simp: Let_def)
      moreover have "v_retries (snd (asyncAttempts ec now env req key (Suc attempts) e newPeer ?s2)) n
          \<le> v_retries ?s2 n + (if n = rq_Name req then 6 - Suc attempts else 0)"
        by (rule 1(1) [OF _ _ refl refl c [symmetric] e(1)]) (use False e in auto)
      ultimately show ?thesis using False r by (auto simp: inc_def)
    next
      case noretry: False
      then show ?thesis
        using False c r by (subst asyncAttempts.simps) (auto simp: Let_def inc_def split: sum.splits option.splits prod.splits)
    qed
  qed
qed

text \<open>
  C19. Forwarding ends: a request is retried at most six times, so a caller always gets an answer; and a
  request that asks to wait is sent once only, whatever fails, so it is never booked twice.
\<close>

theorem forwarding_bounded:
  "v_retries (snd (asyncRequest ec now env endErr req key peer s)) n \<le> v_retries s n + (if n = rq_Name req then 6 else 0)
   \<and> (0 < rq_MaxWait req \<longrightarrow>
        v_retries (snd (asyncRequest ec now env endErr req key peer s)) = v_retries s \<and>
        (\<forall>env'. env' 0 = env 0 \<longrightarrow> asyncRequest ec now env' endErr req key peer s = asyncRequest ec now env endErr req key peer s))"
proof -
  let ?a = "asyncAttempts ec now env req key 0 (Errorf []) peer s"
  have same: "v_retries (snd (asyncRequest ec now env endErr req key peer s)) = v_retries (snd ?a)"
    by (simp add: asyncRequest_def case_prod_beta)
  have "v_retries (snd ?a) = v_retries s" if "0 < rq_MaxWait req"
  proof -
    let ?forward = "req\<lparr>rq_Behavior := SetBehavior (rq_Behavior req) NO_BATCHING True\<rparr>"
    obtain res s1 where c: "callPeer ec now (env 0) peer ?forward s = (res, s1)" by fastforce
    have "snd ?a = s1" unfolding asyncAttempts_once [OF that] Let_def c by (cases res) simp_all
    then show ?thesis using v_retries_callPeer [OF c] by simp
  qed
  moreover have "asyncRequest ec now env' endErr req key peer s = asyncRequest ec now env endErr req key peer s"
    if "0 < rq_MaxWait req" "env' 0 = env 0" for env'
    unfolding asyncRequest_def asyncAttempts_once [OF that(1)] that(2) by (rule refl)
  moreover have "v_retries (snd ?a) n \<le> v_retries s n + (if n = rq_Name req then 6 else 0)"
    using asyncAttempts_retries [of 0 ec now env req key "Errorf []" peer s n] by (auto split: if_splits)
  ultimately show ?thesis unfolding same by blast
qed

lemma err_is_wrapped_status: "\<not> err_is (WrapErr m (StatusErr c d)) Canceled" "\<not> err_is (WrapErr m (StatusErr c d)) DeadlineExceeded"
  by simp_all

lemma callPeer_closed:
  assumes "v_clients s (pr_id peer) = Some c" "pc_queueClosed c"
  obtains m s' where "callPeer ec now ae peer r s = (Inl (WrapErr m clientClosing), s')" "v_retries s' = v_retries s"
    "m \<in> {''Error in getPeerRateLimitSingle'', ''Error in getPeerRateLimitsBatch''}"
proof -
  let ?m = "if bc_DisableBatching (pf_Behavior (pc_conf c)) \<or> HasBehavior (rq_Behavior r) NO_BATCHING
    then ''Error in getPeerRateLimitSingle'' else ''Error in getPeerRateLimitsBatch''"
  have g: "getPeerRateLimitSingle ec now h rpc ctx r (c, errs) = (Inl clientClosing, c, errs)"
    "getPeerRateLimitsBatch ctx ch re r c = (Inl clientClosing, c)" for h rpc ctx errs ch re
    using assms(2) by (simp_all add: getPeerRateLimitSingle_def getPeerRateLimitsBatch_def)
  have e: "ClientGetPeerRateLimit ec now h rpc ctx ch re r (c, errs) = (Inl (WrapErr ?m clientClosing), c, errs)"
    for h rpc ctx ch re errs
    by (simp add: ClientGetPeerRateLimit_def g)
  have c: "callPeer ec now ae peer r s = (Inl (WrapErr ?m clientClosing),
      (withErrs (\<lambda>_. wp_errors (v_workerPool s)) s)\<lparr>v_clients := (v_clients s)(pr_id peer \<mapsto> c)\<rparr>)"
    by (simp only: callPeer_def assms(1) e prod.case option.case)
  show thesis by (rule that [OF c v_retries_callPeer [OF c]]) simp
qed

text \<open>
  C26. A closed client is not retried: when the client of the owner was shut down after the owner was
  looked up, the request is answered with an error at once, although the retries are there to find
  the new owner; the error of a closing client is a gRPC status, which is not a context error.
\<close>

theorem closed_client_not_retried:
  assumes "v_clients s (pr_id peer) = Some c" "pc_queueClosed c" "\<not> pi_IsOwner (pr_Info peer)"
  shows "\<exists>m. fst (asyncRequest ec now env endErr req key peer s) =
      failed ''while fetching rate limit '' key '' from peer'' (WrapErr m clientClosing)
    \<and> v_retries (snd (asyncRequest ec now env endErr req key peer s)) = v_retries s"
proof -
  let ?forward = "if rq_MaxWait req > 0 then req\<lparr>rq_Behavior := SetBehavior (rq_Behavior req) NO_BATCHING True\<rparr> else req"
  obtain m s' where c: "callPeer ec now (env 0) peer ?forward s = (Inl (WrapErr m clientClosing), s')" "v_retries s' = v_retries s"
    by (rule callPeer_closed [OF assms(1,2)])
  have "asyncAttempts ec now env req key 0 (Errorf []) peer s =
      (failed ''while fetching rate limit '' key '' from peer'' (WrapErr m clientClosing), s')"
    using c(1) assms(3) by (subst asyncAttempts.simps) (simp add: Let_def clientClosing_def)
  then show ?thesis using c(2) by (auto simp: asyncRequest_def)
qed

subsection \<open>Global rate limits\<close>

lemma validate_global: "HasBehavior (rq_Behavior r) GLOBAL \<Longrightarrow> validateMaxWait r = [] \<Longrightarrow> rq_MaxWait r = 0"
  by (auto simp: validateMaxWait_def quoted_def split: if_splits)


subsection \<open>The peer API\<close>

lemma fanOut_answers:
  assumes "fanOut now env reqs order (out, s) = (out', s')"
  shows "length out' = length out \<and> (\<forall>i < length out. i \<in> set order \<or> out ! i \<noteq> None \<longrightarrow> out' ! i \<noteq> None)"
  using assms
proof (induction order arbitrary: out s)
  case (Cons j order)
  obtain rl s1 where p: "peerRateLimit (fst (env j)) (snd (env j)) now (reqs ! j) s = (rl, s1)" by fastforce
  have "fanOut now env reqs order (out[j := Some rl], s1) = (out', s')" using Cons.prems p by simp
  note IH = Cons.IH [OF this]
  have "out' ! i \<noteq> None" if "i < length out" "i \<in> set (j # order) \<or> out ! i \<noteq> None" for i
    using IH that by (cases "i = j") auto
  then show ?case using IH by simp
qed simp


lemma poolLook_AddCacheItem:
  assumes "pool_ok p" "getWorker p (ci_Key item) = Inr i" "PoolAddCacheItem Served now (ci_Key item) item p = (res, p')"
  shows "poolLook p' (ci_Key item) = Some item" "\<And>k. k \<noteq> ci_Key item \<Longrightarrow> poolLook p' k \<in> {None, poolLook p k}" "res = Inr ()"
proof -
  have i: "i < length (wp_caches p)" by (rule getWorker_bound [OF assms(2)])
  let ?w = "workerState i p"
  have ok: "wok ?w" by (rule pool_okD(1) [OF assms(1) i])
  have p': "p' = countCommand i ''AddCacheItem'' (putWorker i (wAdd now item ?w) p)" and r: "res = Inr ()"
    using assms(2,3) by (simp_all add: PoolAddCacheItem_def call_def handleAddCacheItem_def)
  show "res = Inr ()" by (rule r)
  show "poolLook p' (ci_Key item) = Some item"
    using poolLook_put [OF assms(2) i, of "wAdd now item ?w"] wAdd_self [OF ok, of now item] by (simp add: p' wlook_def)
  show "poolLook p' k \<in> {None, poolLook p k}" if k: "k \<noteq> ci_Key item" for k
  proof (cases "getWorker p k = Inr i")
    case True
    have "poolLook p k = wlook ?w k" using True by (simp add: poolLook_def wlook_def workerState_def)
    then show ?thesis
      using poolLook_put [OF True i, of "wAdd now item ?w"] wAdd_other [OF ok k, of now] by (simp add: p' wlook_def)
  next
    case False
    then show ?thesis using poolLook_put_other [OF False i, of "wAdd now item ?w"] by (simp add: p')
  qed
qed


subsection \<open>Changing the peers\<close>

definition ring_refs_ok :: "ReplicatedConsistentHash \<Rightarrow> bool" where
  "ring_refs_ok ch \<longleftrightarrow> distinct (map fst (ch_peers ch)) \<and> (\<forall>(a, p) \<in> set (ch_peers ch). a = addr p)"

definition regions_refs_ok :: "RegionPicker \<Rightarrow> bool" where
  "regions_refs_ok rp \<longleftrightarrow> (\<forall>(d, r) \<in> set (rp_regions rp). ring_refs_ok r)"

lemma set_update_subset: "set (AList.update k v m) \<subseteq> insert (k, v) (set m)"
  by (induction m) auto

lemma ring_refs_ok_new [simp]: "ring_refs_ok (ringNew ch)" "regions_refs_ok (regionNew rp)" "ringPeers (ringNew ch) = []"
  "regionPeers (regionNew rp) = []"
  by (simp_all add: ring_refs_ok_def regions_refs_ok_def ringNew_def regionNew_def ringPeers_def regionPeers_def)

lemma ring_refs_ok_Add: "ring_refs_ok ch \<Longrightarrow> ring_refs_ok (ringAdd p ch)"
  using set_update_subset [of "addr p" p "ch_peers ch"] by (auto simp: ring_refs_ok_def ringAdd_def distinct_update)

lemma ring_refs_lookup:
  assumes "ring_refs_ok ch"
  shows "p \<in> set (ringPeers ch) \<longleftrightarrow> map_of (ch_peers ch) (addr p) = Some p"
proof
  assume "p \<in> set (ringPeers ch)"
  then obtain a where a: "(a, p) \<in> set (ch_peers ch)" by (auto simp: ringPeers_def)
  then have "a = addr p" using assms unfolding ring_refs_ok_def by blast
  then show "map_of (ch_peers ch) (addr p) = Some p" using assms a unfolding ring_refs_ok_def by (simp add: map_of_is_SomeI)
next
  assume "map_of (ch_peers ch) (addr p) = Some p"
  from imageI [OF map_of_SomeD [OF this], of snd] show "p \<in> set (ringPeers ch)" by (simp add: ringPeers_def)
qed

lemma ringPeers_Add:
  assumes "ring_refs_ok ch"
  shows "set (ringPeers (ringAdd p ch)) = insert p {q \<in> set (ringPeers ch). addr q \<noteq> addr p}"
proof (rule set_eqI)
  fix q
  have "map_of (ch_peers (ringAdd p ch)) (addr q) = (if addr q = addr p then Some p else map_of (ch_peers ch) (addr q))"
    by (simp add: ringAdd_def update_conv')
  then show "q \<in> set (ringPeers (ringAdd p ch)) \<longleftrightarrow> q \<in> insert p {q \<in> set (ringPeers ch). addr q \<noteq> addr p}"
    unfolding ring_refs_lookup [OF ring_refs_ok_Add [OF assms], of q p] using ring_refs_lookup [OF assms, of q]
    by (cases "addr q = addr p") auto
qed

lemma regionRing_refs:
  assumes "regions_refs_ok rp"
  shows "ring_refs_ok (regionRing rp d)" "set (ringPeers (regionRing rp d)) \<subseteq> set (regionPeers rp)"
  using assms by (auto simp: regions_refs_ok_def regionRing_def regionPeers_def split: option.split dest: map_of_SomeD)

lemma region_Add_refs:
  assumes "regions_refs_ok rp"
  shows "regions_refs_ok (regionAdd p rp)" "set (regionPeers (regionAdd p rp)) \<subseteq> insert p (set (regionPeers rp))"
proof -
  let ?d = "pi_DataCenter (pr_Info p)"
  let ?r = "ringAdd p (regionRing rp ?d)"
  have sub: "set (rp_regions (regionAdd p rp)) \<subseteq> insert (?d, ?r) (set (rp_regions rp))"
    using set_update_subset [of ?d ?r "rp_regions rp"] by (simp add: regionAdd_def Let_def)
  note R = regionRing_refs [OF assms, of ?d]
  show "regions_refs_ok (regionAdd p rp)"
    unfolding regions_refs_ok_def
  proof clarify
    fix d r assume "(d, r) \<in> set (rp_regions (regionAdd p rp))"
    then consider "r = ?r" | "(d, r) \<in> set (rp_regions rp)" using sub by auto
    then show "ring_refs_ok r"
    proof cases
      case 1
      then show ?thesis using ring_refs_ok_Add [OF R(1)] by simp
    next
      case 2
      then show ?thesis using assms unfolding regions_refs_ok_def by blast
    qed
  qed
  show "set (regionPeers (regionAdd p rp)) \<subseteq> insert p (set (regionPeers rp))"
  proof
    fix q assume "q \<in> set (regionPeers (regionAdd p rp))"
    then obtain d r where dr: "(d, r) \<in> set (rp_regions (regionAdd p rp))" "q \<in> set (ringPeers r)"
      by (auto simp: regionPeers_def)
    then consider "r = ?r" | "(d, r) \<in> set (rp_regions rp)" using sub by auto
    then show "q \<in> insert p (set (regionPeers rp))"
    proof cases
      case 1
      then show ?thesis using dr(2) R(2) ringPeers_Add [OF R(1), of p] by auto
    next
      case 2
      then show ?thesis using dr(2) by (force simp: regionPeers_def)
    qed
  qed
qed

lemma firstByInfo_hit:
  assumes "regions_refs_ok rp" "p \<in> set (regionPeers rp)"
  shows "regionGetByPeerInfo rp (pr_Info p) \<noteq> None"
proof -
  obtain d r where "(d, r) \<in> set (rp_regions rp)" "p \<in> set (ringPeers r)" using assms(2) by (auto simp: regionPeers_def)
  then have "ringGetByPeerInfo r (pr_Info p) \<noteq> None"
    using assms(1) ring_refs_lookup [of r p] by (auto simp: regions_refs_ok_def ringGetByPeerInfo_def)
  then show ?thesis
    using firstByInfo_None [of "rp_regions rp" "pr_Info p" d r] \<open>(d, r) \<in> set (rp_regions rp)\<close>
    unfolding regionGetByPeerInfo_def by metis
qed

text \<open>
  The references of an instance: those of the local ring and of the regions are distinct clients that
  exist.
\<close>

definition refs_ok :: "ReplicatedConsistentHash \<Rightarrow> RegionPicker \<Rightarrow> ('s, 'c) V1Instance \<Rightarrow> bool" where
  "refs_ok lp rp s \<longleftrightarrow> ring_refs_ok lp \<and> regions_refs_ok rp \<and>
     (\<forall>p \<in> set (ringPeers lp) \<union> set (regionPeers rp). pr_id p < v_nextClient s \<and> v_clients s (pr_id p) \<noteq> None) \<and>
     inj_on pr_id (set (ringPeers lp) \<union> set (regionPeers rp)) \<and> set (ringPeers lp) \<inter> set (regionPeers rp) = {}"

definition peers_ok :: "('s, 'c) V1Instance \<Rightarrow> bool" where
  "peers_ok s \<longleftrightarrow> (case (c_LocalPicker (v_conf s), c_RegionPicker (v_conf s)) of
     (Some lp, Some rp) \<Rightarrow> refs_ok lp rp s | _ \<Rightarrow> False)"

text \<open>Pickers being filled: every reference is the old one of its address, or a new client.\<close>

definition filling ::
  "ReplicatedConsistentHash \<Rightarrow> RegionPicker \<Rightarrow> ('s, 'c) V1Instance \<Rightarrow> ReplicatedConsistentHash \<Rightarrow> RegionPicker \<Rightarrow> ('s, 'c) V1Instance \<Rightarrow> bool" where
  "filling lp0 rp0 s0 lp rp s \<longleftrightarrow> refs_ok lp rp s \<and>
     v_conf s = v_conf s0 \<and> v_nextClient s0 \<le> v_nextClient s \<and> (\<forall>i < v_nextClient s0. v_clients s i = v_clients s0 i) \<and>
     (\<forall>p \<in> set (ringPeers lp). map_of (ch_peers lp0) (addr p) = Some p \<or>
        map_of (ch_peers lp0) (addr p) = None \<and> v_nextClient s0 \<le> pr_id p) \<and>
     (\<forall>p \<in> set (regionPeers rp). p \<in> set (regionPeers rp0) \<or> v_nextClient s0 \<le> pr_id p)"

lemma clientFor_new:
  assumes "clientFor ec (\<lambda>_ _. None) hasTLS None info s = (res, s')"
  shows "res = Some \<lparr>pr_id = v_nextClient s, pr_Info = info\<rparr>" "v_conf s' = v_conf s" "v_nextClient s' = Suc (v_nextClient s)"
    "v_clients s' i = (if i = v_nextClient s then v_clients s' i else v_clients s i)" "v_clients s' (v_nextClient s) \<noteq> None"
  using assms by (auto simp: clientFor_def NewPeerClient_def Let_def)

text \<open>A reference may join: a new client, or an old one that is where it belongs.\<close>

definition joins :: "PeerRef set \<Rightarrow> PeerRef \<Rightarrow> ('s, 'c) V1Instance \<Rightarrow> bool" where
  "joins refs p s \<longleftrightarrow> pr_id p < v_nextClient s \<and> v_clients s (pr_id p) \<noteq> None \<and>
     (\<forall>q \<in> refs. pr_id q = pr_id p \<longrightarrow> q = p)"

lemma refs_ok_joinLocal:
  assumes "refs_ok lp rp s" "joins (set (ringPeers lp) \<union> set (regionPeers rp)) p s" "p \<notin> set (regionPeers rp)"
  shows "refs_ok (ringAdd p lp) rp s"
proof -
  have lp: "ring_refs_ok lp" using assms(1) by (simp add: refs_ok_def)
  have "inj_on pr_id (insert p (set (ringPeers lp) \<union> set (regionPeers rp)))"
    using assms(1,2) unfolding refs_ok_def joins_def inj_on_def by (metis insertE)
  then have "inj_on pr_id (set (ringPeers (ringAdd p lp)) \<union> set (regionPeers rp))"
    by (rule inj_on_subset) (auto simp: ringPeers_Add [OF lp])
  then show ?thesis
    using assms ring_refs_ok_Add [OF lp, of p] unfolding refs_ok_def joins_def by (auto simp: ringPeers_Add [OF lp])
qed

lemma refs_ok_joinRegion:
  assumes "refs_ok lp rp s" "joins (set (ringPeers lp) \<union> set (regionPeers rp)) p s" "p \<notin> set (ringPeers lp)"
  shows "refs_ok lp (regionAdd p rp) s"
proof -
  have rp: "regions_refs_ok rp" using assms(1) by (simp add: refs_ok_def)
  note A = region_Add_refs [OF rp, of p]
  have "inj_on pr_id (insert p (set (ringPeers lp) \<union> set (regionPeers rp)))"
    using assms(1,2) unfolding refs_ok_def joins_def inj_on_def by (metis insertE)
  then have inj: "inj_on pr_id (set (ringPeers lp) \<union> set (regionPeers (regionAdd p rp)))"
    by (rule inj_on_subset) (use A(2) in auto)
  have bound: "pr_id q < v_nextClient s \<and> v_clients s (pr_id q) \<noteq> None" if "q \<in> set (ringPeers lp) \<union> set (regionPeers (regionAdd p rp))" for q
  proof (cases "q = p")
    case True
    then show ?thesis using assms(2) by (simp add: joins_def)
  next
    case False
    then have "q \<in> set (ringPeers lp) \<union> set (regionPeers rp)" using that A(2) by blast
    then show ?thesis using assms(1) unfolding refs_ok_def by blast
  qed
  have "set (ringPeers lp) \<inter> set (regionPeers (regionAdd p rp)) = {}"
    using assms(1,3) A(2) unfolding refs_ok_def by blast
  then show ?thesis using assms(1) A(1) inj bound unfolding refs_ok_def by blast
qed

lemma refs_ok_ids:
  assumes "refs_ok lp rp s" "p \<in> set (ringPeers lp) \<union> set (regionPeers rp)" "q \<in> set (ringPeers lp) \<union> set (regionPeers rp)"
    and "pr_id q = pr_id p"
  shows "q = p"
  using assms unfolding refs_ok_def inj_on_def by metis

lemma refs_ok_bound:
  assumes "refs_ok lp rp s" "p \<in> set (ringPeers lp) \<union> set (regionPeers rp)"
  shows "pr_id p < v_nextClient s" "v_clients s (pr_id p) \<noteq> None"
  using assms unfolding refs_ok_def by blast+

lemma filling_cases:
  assumes "filling lp0 rp0 s0 lp rp s" "refs_ok lp0 rp0 s0" "q \<in> set (ringPeers lp) \<union> set (regionPeers rp)"
  shows "q \<in> set (ringPeers lp0) \<union> set (regionPeers rp0) \<or> v_nextClient s0 \<le> pr_id q"
    "q \<in> set (ringPeers lp) \<Longrightarrow> q \<in> set (ringPeers lp0) \<or> v_nextClient s0 \<le> pr_id q"
proof -
  have lp0: "ring_refs_ok lp0" using assms(2) by (simp add: refs_ok_def)
  show 1: "q \<in> set (ringPeers lp0) \<or> v_nextClient s0 \<le> pr_id q" if "q \<in> set (ringPeers lp)"
    using assms(1) that unfolding filling_def ring_refs_lookup [OF lp0] by blast
  then show "q \<in> set (ringPeers lp0) \<union> set (regionPeers rp0) \<or> v_nextClient s0 \<le> pr_id q"
    using assms(1,3) unfolding filling_def by blast
qed

lemma joins_old:
  assumes "filling lp0 rp0 s0 lp rp s" "refs_ok lp0 rp0 s0" "p \<in> set (ringPeers lp0) \<union> set (regionPeers rp0)"
  shows "joins (set (ringPeers lp) \<union> set (regionPeers rp)) p s"
proof -
  have b: "pr_id p < v_nextClient s0" "v_clients s0 (pr_id p) \<noteq> None" using refs_ok_bound [OF assms(2,3)] .
  have "v_nextClient s0 \<le> v_nextClient s" "v_clients s (pr_id p) = v_clients s0 (pr_id p)"
    using assms(1) b(1) unfolding filling_def by blast+
  moreover have "q = p" if q: "q \<in> set (ringPeers lp) \<union> set (regionPeers rp)" "pr_id q = pr_id p" for q
    using filling_cases(1) [OF assms(1,2) q(1)] refs_ok_ids [OF assms(2,3) _ q(2)] q(2) b(1) by auto
  ultimately show ?thesis using b by (simp add: joins_def)
qed

lemma filling_new:
  assumes "filling lp0 rp0 s0 lp rp s" "clientFor ec (\<lambda>_ _. None) hasTLS None info s = (res, s')"
  shows "filling lp0 rp0 s0 lp rp s'" "joins (set (ringPeers lp) \<union> set (regionPeers rp)) \<lparr>pr_id = v_nextClient s, pr_Info = info\<rparr> s'"
    "\<lparr>pr_id = v_nextClient s, pr_Info = info\<rparr> \<notin> set (ringPeers lp) \<union> set (regionPeers rp)"
proof -
  note N = clientFor_new [OF assms(2)]
  have r: "refs_ok lp rp s" and n: "v_nextClient s0 \<le> v_nextClient s" using assms(1) by (simp_all add: filling_def)
  have old: "pr_id q < v_nextClient s \<and> v_clients s' (pr_id q) = v_clients s (pr_id q)"
    if "q \<in> set (ringPeers lp) \<union> set (regionPeers rp)" for q
    using refs_ok_bound [OF r that] N(4) [of "pr_id q"] by auto
  have "refs_ok lp rp s'" using r N(3) old unfolding refs_ok_def by (auto simp: less_Suc_eq)
  moreover have "v_clients s' i = v_clients s0 i" if "i < v_nextClient s0" for i
    using assms(1) that n N(4) [of i] unfolding filling_def by auto
  ultimately show "filling lp0 rp0 s0 lp rp s'" using assms(1) N(2,3) unfolding filling_def by simp
  show "joins (set (ringPeers lp) \<union> set (regionPeers rp)) \<lparr>pr_id = v_nextClient s, pr_Info = info\<rparr> s'"
    using N(3,5) old unfolding joins_def by fastforce
  show "\<lparr>pr_id = v_nextClient s, pr_Info = info\<rparr> \<notin> set (ringPeers lp) \<union> set (regionPeers rp)"
    using old by fastforce
qed

lemma filling_local:
  assumes "filling lp0 rp0 s0 lp rp s" "refs_ok lp0 rp0 s0"
    and "clientFor ec (\<lambda>_ _. None) hasTLS (ringGetByPeerInfo lp0 info) info s = (res, s')"
  obtains p where "res = Some p" "addr p = pi_GRPCAddress info" "filling lp0 rp0 s0 (ringAdd p lp) rp s'"
proof (cases "ringGetByPeerInfo lp0 info")
  case None
  let ?p = "\<lparr>pr_id = v_nextClient s, pr_Info = info\<rparr>"
  have c: "clientFor ec (\<lambda>_ _. None) hasTLS None info s = (res, s')" using assms(3) None by simp
  note N = filling_new [OF assms(1) c] and R = clientFor_new [OF c]
  have lp: "ring_refs_ok lp" using assms(1) by (simp add: filling_def refs_ok_def)
  have n: "v_nextClient s0 \<le> v_nextClient s" using assms(1) by (simp add: filling_def)
  have "refs_ok (ringAdd ?p lp) rp s'"
    by (rule refs_ok_joinLocal [OF _ N(2)]) (use N(1,3) in \<open>auto simp: filling_def\<close>)
  moreover have "map_of (ch_peers lp0) (pi_GRPCAddress info) = None" using None by (simp add: ringGetByPeerInfo_def)
  ultimately have "filling lp0 rp0 s0 (ringAdd ?p lp) rp s'"
    using N(1) n unfolding filling_def by (simp add: ringPeers_Add [OF lp])
  then show thesis using R(1) by (intro that) simp_all
next
  case (Some p)
  then have e: "res = Some p" "s' = s" using assms(3) by (simp_all add: clientFor_def)
  have lp0: "ring_refs_ok lp0" and lp: "ring_refs_ok lp" and d0: "set (ringPeers lp0) \<inter> set (regionPeers rp0) = {}"
    using assms(1,2) by (simp_all add: refs_ok_def filling_def)
  have m: "map_of (ch_peers lp0) (pi_GRPCAddress info) = Some p" using Some by (simp add: ringGetByPeerInfo_def)
  then have a: "addr p = pi_GRPCAddress info" using lp0 map_of_SomeD [OF m] unfolding ring_refs_ok_def by auto
  then have p: "p \<in> set (ringPeers lp0)" using m by (simp add: ring_refs_lookup [OF lp0])
  have j: "joins (set (ringPeers lp) \<union> set (regionPeers rp)) p s" by (rule joins_old [OF assms(1,2)]) (use p in simp)
  have "pr_id p < v_nextClient s0" by (rule refs_ok_bound(1) [OF assms(2)]) (use p in simp)
  then have "p \<notin> set (regionPeers rp)" using assms(1) p d0 unfolding filling_def by fastforce
  then have "refs_ok (ringAdd p lp) rp s" using refs_ok_joinLocal [OF _ j] assms(1) by (simp add: filling_def)
  then have "filling lp0 rp0 s0 (ringAdd p lp) rp s"
    using assms(1) m a unfolding filling_def by (simp add: ringPeers_Add [OF lp])
  then show thesis using e a by (intro that) simp_all
qed

lemma filling_region:
  assumes "filling lp0 rp0 s0 lp rp s" "refs_ok lp0 rp0 s0"
    and "clientFor ec (\<lambda>_ _. None) hasTLS (regionGetByPeerInfo rp0 info) info s = (res, s')"
  obtains p where "res = Some p" "filling lp0 rp0 s0 lp (regionAdd p rp) s'"
proof (cases "regionGetByPeerInfo rp0 info")
  case None
  let ?p = "\<lparr>pr_id = v_nextClient s, pr_Info = info\<rparr>"
  have c: "clientFor ec (\<lambda>_ _. None) hasTLS None info s = (res, s')" using assms(3) None by simp
  note N = filling_new [OF assms(1) c] and R = clientFor_new [OF c]
  have rp: "regions_refs_ok rp" and n: "v_nextClient s0 \<le> v_nextClient s" using assms(1) by (simp_all add: filling_def refs_ok_def)
  have "refs_ok lp (regionAdd ?p rp) s'"
    by (rule refs_ok_joinRegion [OF _ N(2)]) (use N(1,3) in \<open>auto simp: filling_def\<close>)
  then have "filling lp0 rp0 s0 lp (regionAdd ?p rp) s'"
    using N(1) n region_Add_refs(2) [OF rp, of ?p] unfolding filling_def by fastforce
  then show thesis using R(1) by (intro that) simp_all
next
  case (Some p)
  then have e: "res = Some p" "s' = s" using assms(3) by (simp_all add: clientFor_def)
  have rp: "regions_refs_ok rp" and d0: "set (ringPeers lp0) \<inter> set (regionPeers rp0) = {}"
    using assms(1,2) by (simp_all add: refs_ok_def filling_def)
  obtain d r where "(d, r) \<in> set (rp_regions rp0)" "ringGetByPeerInfo r info = Some p"
    using firstByInfo_Some Some unfolding regionGetByPeerInfo_def by metis
  then have p: "p \<in> set (regionPeers rp0)"
    by (force simp: regionPeers_def ringPeers_def ringGetByPeerInfo_def dest: map_of_SomeD)
  have j: "joins (set (ringPeers lp) \<union> set (regionPeers rp)) p s" by (rule joins_old [OF assms(1,2)]) (use p in simp)
  have b: "pr_id p < v_nextClient s0" by (rule refs_ok_bound(1) [OF assms(2)]) (use p in simp)
  have "p \<notin> set (ringPeers lp)" using filling_cases(2) [OF assms(1,2), of p] p d0 b by auto
  then have "refs_ok lp (regionAdd p rp) s" using refs_ok_joinRegion [OF _ j] assms(1) by (simp add: filling_def)
  then have "filling lp0 rp0 s0 lp (regionAdd p rp) s"
    using assms(1) p region_Add_refs(2) [OF rp, of p] unfolding filling_def by fastforce
  then show thesis using e by (intro that) simp_all
qed

lemma fillPickers_result:
  assumes "filling lp0 rp0 s0 lp rp s" "refs_ok lp0 rp0 s0" "c_LocalPicker (v_conf s0) = Some lp0" "c_RegionPicker (v_conf s0) = Some rp0"
    and "fillPickers ec (\<lambda>_ _. None) hasTLS infos (lp, rp, s) = (res, s')"
  shows "\<exists>lp' rp'. res = Some (lp', rp') \<and> filling lp0 rp0 s0 lp' rp' s' \<and>
    addr ` set (ringPeers lp') = addr ` set (ringPeers lp) \<union> pi_GRPCAddress ` {i \<in> set infos. pi_DataCenter i = c_DataCenter (v_conf s0)}"
  using assms(1,5)
proof (induction infos arbitrary: lp rp s)
  case Nil
  then show ?case by auto
next
  case (Cons info infos)
  have conf: "v_conf s = v_conf s0" using Cons.prems(1) by (simp add: filling_def)
  show ?case
  proof (cases "pi_DataCenter info = c_DataCenter (v_conf s0)")
    case True
    obtain r1 s1 where c: "clientFor ec (\<lambda>_ _. None) hasTLS (ringGetByPeerInfo lp0 info) info s = (r1, s1)" by fastforce
    obtain p where p: "r1 = Some p" "addr p = pi_GRPCAddress info" "filling lp0 rp0 s0 (ringAdd p lp) rp s1"
      by (rule filling_local [OF Cons.prems(1) assms(2) c])
    have "fillPickers ec (\<lambda>_ _. None) hasTLS infos (ringAdd p lp, rp, s1) = (res, s')"
      using Cons.prems(2) True c p(1) by (simp add: conf assms(3))
    from Cons.IH [OF p(3) this] obtain lp' rp' where r: "res = Some (lp', rp')" "filling lp0 rp0 s0 lp' rp' s'"
      "addr ` set (ringPeers lp') = addr ` set (ringPeers (ringAdd p lp)) \<union>
         pi_GRPCAddress ` {i \<in> set infos. pi_DataCenter i = c_DataCenter (v_conf s0)}" by blast
    have lp: "ring_refs_ok lp" using Cons.prems(1) by (simp add: filling_def refs_ok_def)
    have "addr ` set (ringPeers (ringAdd p lp)) = insert (pi_GRPCAddress info) (addr ` set (ringPeers lp))"
      using p(2) by (auto simp: ringPeers_Add [OF lp])
    moreover have "{i \<in> set (info # infos). pi_DataCenter i = c_DataCenter (v_conf s0)} =
        insert info {i \<in> set infos. pi_DataCenter i = c_DataCenter (v_conf s0)}" using True by auto
    ultimately show ?thesis using r by simp
  next
    case False
    obtain r1 s1 where c: "clientFor ec (\<lambda>_ _. None) hasTLS (regionGetByPeerInfo rp0 info) info s = (r1, s1)" by fastforce
    obtain p where p: "r1 = Some p" "filling lp0 rp0 s0 lp (regionAdd p rp) s1"
      by (rule filling_region [OF Cons.prems(1) assms(2) c])
    have "fillPickers ec (\<lambda>_ _. None) hasTLS infos (lp, regionAdd p rp, s1) = (res, s')"
      using Cons.prems(2) False c p(1) by (simp add: conf assms(4))
    from Cons.IH [OF p(2) this] show ?thesis using False by (auto simp: image_iff)
  qed
qed

lemma shutdownOne_sel:
  "shutdownOne ec ctxErr p cl (pr_id p) = map_option (\<lambda>c. snd (ShutdownClient ec ctxErr c)) (cl (pr_id p))"
  "i \<noteq> pr_id p \<Longrightarrow> shutdownOne ec ctxErr p cl i = cl i"
  by (simp_all add: shutdownOne_def split: option.split)

lemma shutdownAll_other: "i \<notin> pr_id ` set ps \<Longrightarrow> shutdownAll ec ctxErr ps cl i = cl i"
  by (induction ps arbitrary: cl) (auto simp: shutdownOne_sel)

lemma Shutdown_sets: "pc_isShutdown (snd (ShutdownClient ec ctxErr c))"
  by (simp add: ShutdownClient_def drainQueue_def Let_def split: option.split)

lemma shutdownAll_keeps:
  "cl i = Some c \<Longrightarrow> pc_isShutdown c \<Longrightarrow> \<exists>c'. shutdownAll ec ctxErr ps cl i = Some c' \<and> pc_isShutdown c'"
proof (induction ps arbitrary: cl c)
  case (Cons p ps)
  have "\<exists>d. shutdownOne ec ctxErr p cl i = Some d \<and> pc_isShutdown d"
    using Cons.prems Shutdown_sets [of ec ctxErr c] by (cases "i = pr_id p") (auto simp: shutdownOne_sel)
  then obtain d where "shutdownOne ec ctxErr p cl i = Some d" "pc_isShutdown d" by blast
  from Cons.IH [of "shutdownOne ec ctxErr p cl" d, OF this] show ?case by simp
qed simp

lemma shutdownAll_done:
  "p \<in> set ps \<Longrightarrow> cl (pr_id p) \<noteq> None \<Longrightarrow> \<exists>c. shutdownAll ec ctxErr ps cl (pr_id p) = Some c \<and> pc_isShutdown c"
proof (induction ps arbitrary: cl)
  case (Cons q ps)
  show ?case
  proof (cases "pr_id q = pr_id p")
    case True
    then obtain d where d: "cl (pr_id q) = Some d" using Cons.prems(2) by auto
    have "shutdownOne ec ctxErr q cl (pr_id p) = Some (snd (ShutdownClient ec ctxErr d))"
      using d shutdownOne_sel(1) [of ec ctxErr q cl] True by simp
    from shutdownAll_keeps [of "shutdownOne ec ctxErr q cl" "pr_id p", OF this Shutdown_sets] show ?thesis by simp
  next
    case False
    then have "p \<in> set ps" "shutdownOne ec ctxErr q cl (pr_id p) \<noteq> None"
      using Cons.prems shutdownOne_sel(2) [of "pr_id p" q ec ctxErr cl] by auto
    from Cons.IH [of "shutdownOne ec ctxErr q cl", OF this] show ?thesis by simp
  qed
qed simp

lemma fillingD:
  assumes "filling lp0 rp0 s0 lp rp s"
  shows "p \<in> set (ringPeers lp) \<Longrightarrow> map_of (ch_peers lp0) (addr p) = Some p \<or>
      map_of (ch_peers lp0) (addr p) = None \<and> v_nextClient s0 \<le> pr_id p"
    "p \<in> set (regionPeers rp) \<Longrightarrow> p \<in> set (regionPeers rp0) \<or> v_nextClient s0 \<le> pr_id p"
    "i < v_nextClient s0 \<Longrightarrow> v_clients s i = v_clients s0 i" "refs_ok lp rp s"
  using assms unfolding filling_def by blast+


text \<open>
  C27. A peer of another region that moves keeps its old region: told that the address of a known peer is
  now in another data centre, the instance reuses the client it has, whose information still names the
  old data centre, and files it there; the new region stays without a peer.
\<close>

theorem moved_peer_keeps_region:
  assumes "c_LocalPicker (v_conf s) = Some lp" "c_RegionPicker (v_conf s) = Some rp"
    and "regionGetByPeerInfo rp info = Some p" "pi_DataCenter info \<noteq> c_DataCenter (v_conf s)"
    and "pi_DataCenter info \<noteq> pi_DataCenter (pr_Info p)" "SetPeers ec dial hasTLS ctxErr [info] s = (res, s')"
  shows "\<exists>rp'. c_RegionPicker (v_conf s') = Some rp' \<and> map_of (rp_regions rp') (pi_DataCenter info) = None
    \<and> p \<in> set (ringPeers (regionRing rp' (pi_DataCenter (pr_Info p))))"
proof -
  let ?rp = "regionAdd p (regionNew rp)"
  have f: "fillPickers ec dial hasTLS [info] (ringNew lp, regionNew rp, s) = (Some (ringNew lp, ?rp), s)"
    using assms(2-4) by (simp add: clientFor_def)
  have "c_RegionPicker (v_conf s') = Some ?rp" using assms(1,2,6) f by (auto simp: SetPeers_def)
  moreover have "rp_regions ?rp = [(pi_DataCenter (pr_Info p), ringAdd p (ringNew (ringNew (rp_hash rp))))]"
    by (simp add: regionAdd_def regionNew_def regionRing_def Let_def)
  ultimately show ?thesis
    using assms(5) by (auto simp: regionRing_def ringPeers_Add)
qed

subsection \<open>Health\<close>

lemma peerErrors_reports:
  assumes "p \<in> set ps" "distinct (map pr_id ps)" "cl (pr_id p) = Some c" "fst (GetLastErr ec now c) \<noteq> []"
  shows "fst (peerErrors ec now kind ps cl) \<noteq> []"
  using assms
proof (induction ps arbitrary: cl)
  case (Cons q ps)
  show ?case
  proof (cases "cl (pr_id q)")
    case None
    then have "p \<in> set ps" using Cons.prems(1,3) by auto
    then show ?thesis using Cons.IH [of cl] Cons.prems None by simp
  next
    case (Some d)
    let ?cl = "cl(pr_id q \<mapsto> snd (GetLastErr ec now d))"
    have "fst (GetLastErr ec now d) \<noteq> [] \<or> fst (peerErrors ec now kind ps ?cl) \<noteq> []"
    proof (cases "q = p")
      case True
      then show ?thesis using Cons.prems(3,4) Some by simp
    next
      case False
      then have "p \<in> set ps" using Cons.prems(1) by simp
      moreover have "pr_id p \<noteq> pr_id q" using Cons.prems(2) calculation by (metis distinct.simps(2) imageI list.set_map list.simps(9))
      ultimately have "fst (peerErrors ec now kind ps ?cl) \<noteq> []"
        by (intro Cons.IH) (use Cons.prems in simp_all)
      then show ?thesis by blast
    qed
    then show ?thesis using Some by (auto simp only: peerErrors.simps option.case Let_def case_prod_beta fst_conv append_is_Nil_conv map_is_Nil_conv)
  qed
qed simp


subsection \<open>Examples\<close>

text \<open>An instance with given peers in its local ring, each with a client.\<close>

definition sampleRing :: "PeerRef list \<Rightarrow> ReplicatedConsistentHash" where
  "sampleRing peers = fold ringAdd peers (NewReplicatedConsistentHash (\<lambda>_. 0) None 1)"

definition sampleInst :: "(string \<times> goerr \<times> int) list PeerClient \<Rightarrow> PeerRef list \<Rightarrow> (unit, (string \<times> goerr \<times> int) list) V1Instance" where
  "sampleInst c peers =
     \<lparr>v_global = sampleGM,
      v_conf = (sampleConf 4 100)\<lparr>c_LocalPicker := Some (sampleRing peers), c_RegionPicker := Some (NewRegionPicker (\<lambda>_. 0) None)\<rparr>,
      v_isClosed = False, v_workerPool = poolOf 4 100 (\<lambda>_. 0), v_clients = (\<lambda>_. Some c), v_collectors = (\<lambda>_. None),
      v_nextClient = 10, v_checks = (\<lambda>_. 0), v_retries = (\<lambda>_. 0), v_updates = 0, v_events = []\<rparr>"

definition sampleAttempt :: attemptEnv where
  "sampleAttempt = \<lparr>ae_headers = [], ae_rpc = (\<lambda>_ _. Inl Canceled), ae_ctx = \<lparr>cc_start = None, cc_enqueue = None, cc_send = None, cc_await = None\<rparr>,
     ae_ch = 1, ae_reply = Inl Canceled, ae_ctxErr = None, ae_picker = None, ae_hand = Served, ae_delivered = True\<rparr>"

definition sampleItemEnv :: itemEnv where
  "sampleItemEnv = \<lparr>ie_ctxErr = None, ie_hand = Served, ie_delivered = True, ie_attempts = (\<lambda>_. sampleAttempt), ie_endErr = None\<rparr>"


theorem forwarding_bounded_witness:
  "v_retries (snd (asyncRequest stdErrCache time0 (\<lambda>_. sampleAttempt) None (req0\<lparr>rq_MaxWait := 5\<rparr>) ''n_k'' (samplePeer 1 ''a'')
     (sampleInst sampleClient []))) ''n'' = 0"
proof -
  let ?r = "req0\<lparr>rq_MaxWait := 5\<rparr>" and ?s = "sampleInst sampleClient []"
  have "0 < rq_MaxWait ?r" by simp
  from forwarding_bounded [of stdErrCache time0 "\<lambda>_. sampleAttempt" None ?r "''n_k''" "samplePeer 1 ''a''" ?s "''n''",
      THEN conjunct2, THEN mp, OF this, THEN conjunct1]
  show ?thesis by (simp add: sampleInst_def)
qed

theorem closed_client_not_retried_witness:
  "v_retries (snd (asyncRequest stdErrCache time0 (\<lambda>_. sampleAttempt) None req0 ''n_k'' (samplePeer 1 ''a'')
     (sampleInst (sampleClient\<lparr>pc_queueClosed := True\<rparr>) []))) = (\<lambda>_. 0)"
proof -
  let ?s = "sampleInst (sampleClient\<lparr>pc_queueClosed := True\<rparr>) []"
  have "v_clients ?s (pr_id (samplePeer 1 ''a'')) = Some (sampleClient\<lparr>pc_queueClosed := True\<rparr>)"
    "\<not> pi_IsOwner (pr_Info (samplePeer 1 ''a''))" by (simp_all add: sampleInst_def samplePeer_def)
  from closed_client_not_retried [OF this(1) _ this(2), of stdErrCache time0 "\<lambda>_. sampleAttempt" None req0 "''n_k''"]
  show ?thesis by (auto simp: sampleInst_def)
qed



definition sampleUpdate :: UpdatePeerGlobal where
  "sampleUpdate = \<lparr>ug_Key = ''n_k'', ug_Status = mkResp UNDER_LIMIT 5 3 1007, ug_Algorithm = TOKEN_BUCKET, ug_Duration = 1000, ug_CreatedAt = 7\<rparr>"


lemma sampleRing_one: "ch_peers (sampleRing [p]) = [(addr p, p)]" "ringPeers (sampleRing [p]) = [p]"
  by (simp_all add: sampleRing_def ringAdd_def NewReplicatedConsistentHash_def ringPeers_def)


theorem moved_peer_keeps_region_witness:
  "\<exists>rp'. c_RegionPicker (v_conf (snd (SetPeers stdErrCache (\<lambda>_ _. None) False None
       [\<lparr>pi_DataCenter = ''dc2'', pi_HTTPAddress = [], pi_GRPCAddress = ''a'', pi_IsOwner = False\<rparr>]
       ((sampleInst sampleClient [])\<lparr>v_conf := (sampleConf 4 100)\<lparr>c_LocalPicker := Some (sampleRing []),
          c_RegionPicker := Some (regionAdd \<lparr>pr_id = 1, pr_Info = \<lparr>pi_DataCenter = ''dc1'', pi_HTTPAddress = [], pi_GRPCAddress = ''a'', pi_IsOwner = False\<rparr>\<rparr>
            (NewRegionPicker (\<lambda>_. 0) None))\<rparr>\<rparr>)))) = Some rp' \<and> map_of (rp_regions rp') ''dc2'' = None"
proof -
  let ?p = "\<lparr>pr_id = 1, pr_Info = \<lparr>pi_DataCenter = ''dc1'', pi_HTTPAddress = [], pi_GRPCAddress = ''a'', pi_IsOwner = False\<rparr>\<rparr>"
  let ?rp = "regionAdd ?p (NewRegionPicker (\<lambda>_. 0) None)"
  let ?info = "\<lparr>pi_DataCenter = ''dc2'', pi_HTTPAddress = [], pi_GRPCAddress = ''a'', pi_IsOwner = False\<rparr>"
  let ?s = "(sampleInst sampleClient [])\<lparr>v_conf := (sampleConf 4 100)\<lparr>c_LocalPicker := Some (sampleRing []), c_RegionPicker := Some ?rp\<rparr>\<rparr>"
  have 1: "c_LocalPicker (v_conf ?s) = Some (sampleRing [])" "c_RegionPicker (v_conf ?s) = Some ?rp" by simp_all
  have 2: "regionGetByPeerInfo ?rp ?info = Some ?p"
    by (simp add: regionGetByPeerInfo_def regionAdd_def NewRegionPicker_def regionRing_def ringGetByPeerInfo_def ringAdd_def
        ringNew_def NewReplicatedConsistentHash_def Let_def)
  have 3: "pi_DataCenter ?info \<noteq> c_DataCenter (v_conf ?s)" "pi_DataCenter ?info \<noteq> pi_DataCenter (pr_Info ?p)"
    by (simp_all add: sampleConf_def)
  from moved_peer_keeps_region [OF 1 2 3 surjective_pairing, of stdErrCache "\<lambda>_ _. None" False None]
  show ?thesis by auto
qed


end
