(* ===== verification/Kubernetes.thy ===== *)
theory Kubernetes
  imports GoStrings
begin

text \<open>
  Discovery of peers through Kubernetes, \<^verbatim>\<open>kubernetes.go\<close>: the pool with its informer, and how the pods
  or the endpoint slices the informer knows become a list of peers. Of the objects of the Kubernetes API
  the model has the fields the program reads. The API client and the informer are parameters: whether
  they can be created, whether the informer synchronises, and the objects in its store.
\<close>

subsection \<open>Configuration\<close>

definition WatchEndpointSlices :: string where
  "WatchEndpointSlices = ''endpointslices''"

definition WatchPods :: string where
  "WatchPods = ''pods''"

definition WatchMechanismFromString :: "string \<Rightarrow> goerr + string" where
  "WatchMechanismFromString mechanism =
     (if mechanism = [] then Inr WatchEndpointSlices
      else if mechanism = WatchEndpointSlices then Inr WatchEndpointSlices
      else if mechanism = ''endpoints'' then Inr WatchEndpointSlices
      else if mechanism = WatchPods then Inr WatchPods
      else Inl (Errorf (''unknown watch mechanism specified: '' @ mechanism)))"

record K8sPoolConfig =
  kc_Mechanism :: string
  kc_Namespace :: string
  kc_Selector :: string
  kc_ServiceName :: string
  kc_PodIP :: string
  kc_PodPort :: string

subsection \<open>Objects of the API\<close>

record ContainerStatus =
  cs_Ready :: bool
  cs_Running :: bool

record Pod =
  pod_IP :: string
  pod_ContainerStatuses :: "ContainerStatus list"

record Endpoint =
  ep_Addresses :: "string list"
  ep_Ready :: "bool option"

record EndpointSlice =
  es_IPv4 :: bool
  es_Endpoints :: "Endpoint list"

datatype k8sObject = PodObject Pod | SliceObject EndpointSlice | OtherObject

subsection \<open>Peers from pods\<close>

definition k8sPeer :: "string \<Rightarrow> string \<Rightarrow> string \<Rightarrow> PeerInfo" where
  "k8sPeer podIP podPort ip =
     \<lparr>pi_DataCenter = [], pi_HTTPAddress = [], pi_GRPCAddress = ip @ '':'' @ podPort, pi_IsOwner = (ip = podIP)\<rparr>"

fun ExtractPeersFromPods :: "Pod list \<Rightarrow> string \<Rightarrow> string \<Rightarrow> PeerInfo list" where
  "ExtractPeersFromPods [] podIP podPort = []"
| "ExtractPeersFromPods (pod # pods) podIP podPort =
     (let peer = k8sPeer podIP podPort (pod_IP pod)
      in if \<not> pi_IsOwner peer \<and> list_ex (\<lambda>st. \<not> cs_Ready st \<or> \<not> cs_Running st) (pod_ContainerStatuses pod)
         then ExtractPeersFromPods pods podIP podPort
         else peer # ExtractPeersFromPods pods podIP podPort)"

definition podsOf :: "k8sObject list \<Rightarrow> Pod list" where
  "podsOf objs = List.map_filter (\<lambda>obj. case obj of PodObject p \<Rightarrow> Some p | _ \<Rightarrow> None) objs"

definition updatePeersFromPods :: "K8sPoolConfig \<Rightarrow> k8sObject list \<Rightarrow> PeerInfo list" where
  "updatePeersFromPods conf store = ExtractPeersFromPods (podsOf store) (kc_PodIP conf) (kc_PodPort conf)"

subsection \<open>Peers from endpoint slices\<close>

text \<open>The map from addresses to peers; the order in which Go iterates over it is not specified.\<close>

definition addEndpoint :: "string \<Rightarrow> string \<Rightarrow> Endpoint \<Rightarrow> (string \<times> PeerInfo) list \<Rightarrow> (string \<times> PeerInfo) list" where
  "addEndpoint podIP podPort endpoint peerMap =
     (case ep_Addresses endpoint of
        [] \<Rightarrow> peerMap
      | ip # _ \<Rightarrow>
          (let isReady = (case ep_Ready endpoint of None \<Rightarrow> True | Some r \<Rightarrow> r);
               isOwner = (ip = podIP);
               peer = k8sPeer podIP podPort ip
           in if \<not> isReady \<and> \<not> isOwner then peerMap
              else (case map_of peerMap ip of
                      Some existing \<Rightarrow> if \<not> pi_IsOwner existing \<and> isOwner then AList.update ip peer peerMap else peerMap
                    | None \<Rightarrow> AList.update ip peer peerMap)))"

definition addSlice :: "string \<Rightarrow> string \<Rightarrow> EndpointSlice \<Rightarrow> (string \<times> PeerInfo) list \<Rightarrow> (string \<times> PeerInfo) list" where
  "addSlice podIP podPort sl peerMap =
     (if \<not> es_IPv4 sl then peerMap else fold (addEndpoint podIP podPort) (es_Endpoints sl) peerMap)"

definition ExtractPeersFromEndpointSlices :: "EndpointSlice list \<Rightarrow> string \<Rightarrow> string \<Rightarrow> PeerInfo list" where
  "ExtractPeersFromEndpointSlices slices podIP podPort = map snd (fold (addSlice podIP podPort) slices [])"

definition slicesOf :: "k8sObject list \<Rightarrow> EndpointSlice list" where
  "slicesOf objs = List.map_filter (\<lambda>obj. case obj of SliceObject s \<Rightarrow> Some s | _ \<Rightarrow> None) objs"

definition updatePeersFromEndpointSlices :: "K8sPoolConfig \<Rightarrow> k8sObject list \<Rightarrow> PeerInfo list" where
  "updatePeersFromEndpointSlices conf store =
     ExtractPeersFromEndpointSlices (slicesOf store) (kc_PodIP conf) (kc_PodPort conf)"

subsection \<open>The pool\<close>

text \<open>
  The pool: its configuration, whether its watch was cancelled, whether its \<^verbatim>\<open>done\<close> channel is closed, and
  the lists it handed to \<^verbatim>\<open>OnUpdate\<close>, the last one first.
\<close>

record K8sPool =
  kp_conf :: K8sPoolConfig
  kp_cancelled :: bool
  kp_done :: bool
  kp_updates :: "PeerInfo list list"

text \<open>An event of the informer: whether the key of the object could be computed, and the store then.\<close>

definition k8sUpdate :: "k8sObject list \<Rightarrow> K8sPool \<Rightarrow> K8sPool" where
  "k8sUpdate store p =
     p\<lparr>kp_updates := (if kc_Mechanism (kp_conf p) = WatchPods then updatePeersFromPods (kp_conf p) store
                      else updatePeersFromEndpointSlices (kp_conf p) store) # kp_updates p\<rparr>"

definition k8sEvent :: "goerr option \<times> k8sObject list \<Rightarrow> K8sPool \<Rightarrow> K8sPool" where
  "k8sEvent = (\<lambda>(keyErr, store) p. if keyErr \<noteq> None then p else k8sUpdate store p)"

definition startGenericWatch ::
  "bool \<Rightarrow> (goerr option \<times> k8sObject list) list \<Rightarrow> K8sPool \<Rightarrow> (goerr + unit) \<times> K8sPool" where
  "startGenericWatch synced events p =
     (let p = fold k8sEvent events p
      in if \<not> synced then (Inl (Errorf ''timed out waiting for caches to sync''), p\<lparr>kp_done := True\<rparr>)
         else (Inr (), p))"

definition startK8s ::
  "bool \<Rightarrow> (goerr option \<times> k8sObject list) list \<Rightarrow> K8sPool \<Rightarrow> (goerr + unit) \<times> K8sPool" where
  "startK8s synced events p =
     (if kc_Mechanism (kp_conf p) = WatchEndpointSlices \<or> kc_Mechanism (kp_conf p) = WatchPods
      then startGenericWatch synced events p
      else (Inl (Errorf (''unknown value for watch mechanism: '' @ kc_Mechanism (kp_conf p))), p))"

definition NewK8sPool ::
  "goerr option \<Rightarrow> goerr option \<Rightarrow> bool \<Rightarrow> (goerr option \<times> k8sObject list) list \<Rightarrow> K8sPoolConfig \<Rightarrow> (goerr + K8sPool)" where
  "NewK8sPool restErr clientErr synced events conf =
     (case restErr of
        Some e \<Rightarrow> Inl (WrapErr ''during InClusterConfig()'' e)
      | None \<Rightarrow>
          (case clientErr of
             Some e \<Rightarrow> Inl (WrapErr ''during NewForConfig()'' e)
           | None \<Rightarrow>
               (case startK8s synced events \<lparr>kp_conf = conf, kp_cancelled = False, kp_done = False, kp_updates = []\<rparr> of
                  (Inl e, _) \<Rightarrow> Inl e
                | (Inr _, p) \<Rightarrow> Inr p)))"

text \<open>Closing the channel a second time panics.\<close>

definition CloseK8s :: "K8sPool \<Rightarrow> goerr option \<times> K8sPool" where
  "CloseK8s p =
     (if kp_done p then (Some (Panic ''close of closed channel''), p\<lparr>kp_cancelled := True\<rparr>)
      else (None, p\<lparr>kp_cancelled := True, kp_done := True\<rparr>))"

subsection \<open>The peers are the ready addresses\<close>

text \<open>
  The reference: the first addresses of the endpoints of the IPv4 slices, without those that are not
  ready, except the own one.
\<close>

definition endpointIPs :: "string \<Rightarrow> Endpoint list \<Rightarrow> string set" where
  "endpointIPs podIP eps = {ip. \<exists>ep \<in> set eps. (\<exists>rest. ep_Addresses ep = ip # rest) \<and> (ep_Ready ep \<noteq> Some False \<or> ip = podIP)}"

definition readyIPs :: "string \<Rightarrow> EndpointSlice list \<Rightarrow> string set" where
  "readyIPs podIP slices = (\<Union>s \<in> {s \<in> set slices. es_IPv4 s}. endpointIPs podIP (es_Endpoints s))"

definition peer_map_ok :: "string \<Rightarrow> string \<Rightarrow> (string \<times> PeerInfo) list \<Rightarrow> bool" where
  "peer_map_ok podIP podPort m \<longleftrightarrow> distinct (map fst m) \<and> (\<forall>(ip, p) \<in> set m. p = k8sPeer podIP podPort ip)"

lemma peer_map_ok_find: "peer_map_ok podIP podPort m \<Longrightarrow> map_of m ip = Some p \<Longrightarrow> p = k8sPeer podIP podPort ip"
  by (auto simp: peer_map_ok_def dest!: map_of_SomeD)

lemma addEndpoint_ok:
  assumes "peer_map_ok podIP podPort m"
  shows "peer_map_ok podIP podPort (addEndpoint podIP podPort ep m) \<and>
    fst ` set (addEndpoint podIP podPort ep m) = fst ` set m \<union> endpointIPs podIP [ep]"
proof (cases "ep_Addresses ep")
  case Nil
  then show ?thesis using assms by (simp add: addEndpoint_def endpointIPs_def)
next
  case (Cons ip rest)
  show ?thesis
  proof (cases "ep_Ready ep = Some False \<and> ip \<noteq> podIP")
    case True
    then show ?thesis using assms Cons by (auto simp: addEndpoint_def endpointIPs_def)
  next
    case ready: False
    then have ips: "endpointIPs podIP [ep] = {ip}" using Cons by (auto simp: endpointIPs_def)
    show ?thesis
    proof (cases "map_of m ip")
      case None
      then have fresh: "ip \<notin> fst ` set m" by (simp add: map_of_eq_None_iff)
      then have "addEndpoint podIP podPort ep m = m @ [(ip, k8sPeer podIP podPort ip)]"
        using Cons ready None by (auto simp: addEndpoint_def Let_def update_fresh split: option.splits bool.splits)
      with assms fresh ips show ?thesis by (auto simp: peer_map_ok_def)
    next
      case (Some p)
      then have "p = k8sPeer podIP podPort ip" using assms by (rule peer_map_ok_find [rotated])
      then have "addEndpoint podIP podPort ep m = m"
        using Cons Some by (auto simp: addEndpoint_def Let_def k8sPeer_def)
      moreover have "ip \<in> fst ` set m" using Some by (metis domI dom_map_of_conv_image_fst)
      ultimately show ?thesis using assms ips by auto
    qed
  qed
qed

lemma endpointIPs_Cons: "endpointIPs podIP (ep # eps) = endpointIPs podIP [ep] \<union> endpointIPs podIP eps"
  by (auto simp: endpointIPs_def)

lemma fold_addEndpoint_ok:
  "peer_map_ok podIP podPort m \<Longrightarrow> peer_map_ok podIP podPort (fold (addEndpoint podIP podPort) eps m) \<and>
    fst ` set (fold (addEndpoint podIP podPort) eps m) = fst ` set m \<union> endpointIPs podIP eps"
proof (induction eps arbitrary: m)
  case Nil
  then show ?case by (simp add: endpointIPs_def)
next
  case (Cons ep eps)
  show ?case using Cons.IH addEndpoint_ok [OF Cons.prems, of ep] by (subst endpointIPs_Cons) auto
qed

lemma fold_addSlice_ok:
  "peer_map_ok podIP podPort m \<Longrightarrow> peer_map_ok podIP podPort (fold (addSlice podIP podPort) slices m) \<and>
    fst ` set (fold (addSlice podIP podPort) slices m) = fst ` set m \<union> readyIPs podIP slices"
proof (induction slices arbitrary: m)
  case Nil
  then show ?case by (simp add: readyIPs_def)
next
  case (Cons s slices)
  have "readyIPs podIP (s # slices) = (if es_IPv4 s then endpointIPs podIP (es_Endpoints s) else {}) \<union> readyIPs podIP slices"
    by (auto simp: readyIPs_def)
  moreover have "peer_map_ok podIP podPort (addSlice podIP podPort s m) \<and>
      fst ` set (addSlice podIP podPort s m) = fst ` set m \<union> (if es_IPv4 s then endpointIPs podIP (es_Endpoints s) else {})"
    using Cons.prems fold_addEndpoint_ok [OF Cons.prems, of "es_Endpoints s"] by (simp add: addSlice_def)
  ultimately show ?case using Cons.IH by auto
qed

lemma peer_map_values: "peer_map_ok podIP podPort m \<Longrightarrow> map snd m = map (k8sPeer podIP podPort) (map fst m)"
  by (auto simp: peer_map_ok_def)

lemma inj_k8sPeer: "inj (k8sPeer podIP podPort)"
  by (rule injI) (simp add: k8sPeer_def)

text \<open>
  C0. The list built from endpoint slices is the set of ready addresses: whatever the order of the slices
  and of their endpoints, and however often an address occurs, it holds exactly one peer for each
  address of an IPv4 endpoint that is ready, or that is the own one, and the own address alone is marked
  as owner.
\<close>

theorem endpoint_slices_equiv:
  "distinct (map pi_GRPCAddress (ExtractPeersFromEndpointSlices slices podIP podPort))
   \<and> set (ExtractPeersFromEndpointSlices slices podIP podPort) = k8sPeer podIP podPort ` readyIPs podIP slices"
proof -
  let ?m = "fold (addSlice podIP podPort) slices []"
  have ok: "peer_map_ok podIP podPort ?m \<and> fst ` set ?m = readyIPs podIP slices"
    using fold_addSlice_ok [of podIP podPort "[]" slices] by (simp add: peer_map_ok_def)
  have "map pi_GRPCAddress (map snd ?m) = map (\<lambda>ip. ip @ '':'' @ podPort) (map fst ?m)"
    using peer_map_values [OF conjunct1 [OF ok]] by (simp add: k8sPeer_def)
  moreover have "distinct (map (\<lambda>ip. ip @ '':'' @ podPort) (map fst ?m))"
    using ok by (subst distinct_map) (simp add: peer_map_ok_def inj_on_def)
  moreover have "set (map snd ?m) = k8sPeer podIP podPort ` (fst ` set ?m)"
    using peer_map_values [OF conjunct1 [OF ok]] by (metis set_map)
  ultimately show ?thesis using ok by (simp only: ExtractPeersFromEndpointSlices_def)
qed

lemma pods_peers:
  "p \<in> set (ExtractPeersFromPods pods podIP podPort) \<longleftrightarrow>
   (\<exists>pod \<in> set pods. p = k8sPeer podIP podPort (pod_IP pod) \<and>
      (pod_IP pod = podIP \<or> (\<forall>st \<in> set (pod_ContainerStatuses pod). cs_Ready st \<and> cs_Running st)))"
  by (induction pods) (auto simp: Let_def k8sPeer_def list_ex_iff)

text \<open>
  The address of a pod with an IPv6 address has no brackets: it cannot be split into host and port, and
  it is not the address the daemon advertises for the same pod, which \<^verbatim>\<open>JoinHostPort\<close> puts in brackets.
\<close>

lemma k8s_ipv6_address:
  assumes "CHR '':'' \<in> set podIP" "hostOk podIP" "portOk podPort"
  shows "SplitHostPort (pi_GRPCAddress (k8sPeer podIP podPort podIP)) =
      Inl (addrErr (podIP @ '':'' @ podPort) ''too many colons in address'')
    \<and> pi_GRPCAddress (k8sPeer podIP podPort podIP) \<noteq> JoinHostPort podIP podPort"
proof -
  have sl: "splitLast (CHR '':'') (podIP @ CHR '':'' # podPort) = Some (podIP, podPort)"
    using assms by (intro splitLast_append) (simp add: portOk_def)
  obtain c r where c: "podIP = c # r" "c \<noteq> CHR ''[''" using assms(1,2) by (cases podIP) (auto simp: hostOk_def)
  then show ?thesis using sl assms(1) by (simp add: k8sPeer_def SplitHostPort_def JoinHostPort_def)
qed

end
