(* ===== verification/Dns.thy ===== *)
theory Dns
  imports GoStrings
begin

text \<open>
  Discovery of peers through DNS, \<^verbatim>\<open>dns.go\<close>: the resolver, and the pool that polls the addresses of its
  names. Messages are exchanged by a package that is not part of the repository; the exchange, the
  completion of a name to its canonical form, the names of response codes and the contents of
  \<^verbatim>\<open>resolv.conf\<close> are parameters. An address of a record is the text that its \<^verbatim>\<open>String\<close> gives.
\<close>

subsection \<open>The resolver\<close>

datatype dnsType = TypeA | TypeAAAA

datatype dnsRecord = RecordA string nat | RecordAAAA string nat | RecordOther nat

fun recordTtl :: "dnsRecord \<Rightarrow> nat" where
  "recordTtl (RecordA ip ttl) = ttl"
| "recordTtl (RecordAAAA ip ttl) = ttl"
| "recordTtl (RecordOther ttl) = ttl"

fun recordIP :: "dnsRecord \<Rightarrow> string list" where
  "recordIP (RecordA ip ttl) = [ip]"
| "recordIP (RecordAAAA ip ttl) = [ip]"
| "recordIP (RecordOther ttl) = []"

record DNSResolver =
  dr_Servers :: "string list"

definition defaultPollDelay :: nat where
  "defaultPollDelay = 300"

definition noPeersRetryDelay :: nat where
  "noPeersRetryDelay = 5"

definition NewFromResolvConf :: "bool \<Rightarrow> goerr + string list \<Rightarrow> string \<Rightarrow> goerr + DNSResolver" where
  "NewFromResolvConf exists config path =
     (if \<not> exists then Inl (Errorf (''no such file or directory: '' @ path))
      else (case config of
              Inl e \<Rightarrow> Inl e
            | Inr servers \<Rightarrow>
                if servers = [] then Inl (Errorf ''no servers in config'')
                else Inr \<lparr>dr_Servers = map (\<lambda>ip. JoinHostPort ip ''53'') servers\<rparr>))"

definition NewDNSResolver :: "string list \<Rightarrow> DNSResolver" where
  "NewDNSResolver servers = \<lparr>dr_Servers = servers\<rparr>"

text \<open>
  The exchange answers a server's name, the name asked for and the type with an error, or a response
  code and records. Success is code 0. The server is picked by a random number, a parameter.
\<close>

type_synonym dnsExchange = "string \<Rightarrow> string \<Rightarrow> dnsType \<Rightarrow> goerr + nat \<times> dnsRecord list"

definition lookupHost ::
  "(string \<Rightarrow> string) \<Rightarrow> (nat \<Rightarrow> string) \<Rightarrow> dnsExchange \<Rightarrow> nat \<Rightarrow> DNSResolver \<Rightarrow> string \<Rightarrow> dnsType
   \<Rightarrow> goerr + string list \<times> nat" where
  "lookupHost fqdn rcodeToString exchange rnd r host dnsType =
     (if dr_Servers r = [] then Inl (Panic ''invalid argument to Intn'')
      else
        (case exchange (dr_Servers r ! (rnd mod length (dr_Servers r))) (fqdn host) dnsType of
           Inl e \<Rightarrow> Inl e
         | Inr (rcode, answer) \<Rightarrow>
             if rcode \<noteq> 0 then Inl (Errorf (rcodeToString rcode))
             else Inr (concat (map recordIP answer), fold (\<lambda>record ttl. min ttl (recordTtl record)) answer defaultPollDelay)))"

subsection \<open>The pool\<close>

record DNSPoolConfig =
  dc_FQDN :: string
  dc_ResolvConf :: string
  dc_ResolvServers :: "string list"
  dc_OwnAddress :: string
  dc_DataCenter :: string

text \<open>The last list handed to \<^verbatim>\<open>OnUpdate\<close> comes first.\<close>

record DNSPool =
  dp_resolver :: DNSResolver
  dp_fqdns :: "string list"
  dp_ownIP :: string
  dp_ownPort :: string
  dp_dataCenter :: string
  dp_cancelled :: bool
  dp_updates :: "PeerInfo list list"

definition newResolver :: "bool \<Rightarrow> goerr + string list \<Rightarrow> DNSPoolConfig \<Rightarrow> goerr + DNSResolver" where
  "newResolver exists config conf =
     (if dc_ResolvServers conf \<noteq> [] then Inr (NewDNSResolver (dc_ResolvServers conf))
      else NewFromResolvConf exists config (dc_ResolvConf conf))"

definition dnsNames :: "(string \<Rightarrow> string) \<Rightarrow> string \<Rightarrow> string list" where
  "dnsNames fqdn names = map fqdn (filter (\<lambda>n. n \<noteq> []) (map TrimSpace (Split (CHR '','') names)))"

definition NewDNSPool ::
  "(string \<Rightarrow> string) \<Rightarrow> bool \<Rightarrow> goerr + string list \<Rightarrow> DNSPoolConfig \<Rightarrow> goerr + DNSPool" where
  "NewDNSPool fqdn exists config conf =
     (if dc_OwnAddress conf = [] then Inl (Errorf ''Advertise.GRPCAddress is required'')
      else bindE (wrapE ''OwnAddress is invalid'' (SplitHostPort (dc_OwnAddress conf))) (\<lambda>(ip, port).
           bindE (newResolver exists config conf) (\<lambda>resolver.
             Inr \<lparr>dp_resolver = resolver, dp_fqdns = dnsNames fqdn (dc_FQDN conf), dp_ownIP = ip,
                  dp_ownPort = (if port = [] then ''1051'' else port), dp_dataCenter = dc_DataCenter conf,
                  dp_cancelled = False, dp_updates = []\<rparr>)))"

definition dnsPeer :: "DNSPool \<Rightarrow> string \<Rightarrow> string \<Rightarrow> bool \<Rightarrow> PeerInfo" where
  "dnsPeer p fqdn ip ipv6 =
     (let ip = (if ipv6 then ''['' @ ip @ '']'' else ip)
      in \<lparr>pi_DataCenter = (if dp_dataCenter p \<noteq> [] then fqdn else []), pi_HTTPAddress = [],
          pi_GRPCAddress = ip @ '':'' @ dp_ownPort p, pi_IsOwner = (dp_ownIP p = ip)\<rparr>)"

text \<open>
  One turn of the loop: the lookups of both types for every name, the list they give and the delay to
  the next turn in seconds. An empty list is not handed over.
\<close>

definition pollOne ::
  "(string \<Rightarrow> dnsType \<Rightarrow> goerr + string list \<times> nat) \<Rightarrow> DNSPool \<Rightarrow> string \<times> dnsType \<Rightarrow> nat \<times> PeerInfo list \<Rightarrow> nat \<times> PeerInfo list" where
  "pollOne lookup p = (\<lambda>(fqdn, t) (delay, update).
     (case lookup fqdn t of
        Inl e \<Rightarrow> (delay, update)
      | Inr (ips, d) \<Rightarrow>
          if ips = [] then (delay, update)
          else (min delay d, update @ map (\<lambda>ip. dnsPeer p fqdn ip (t = TypeAAAA)) ips)))"

definition dnsQueries :: "DNSPool \<Rightarrow> (string \<times> dnsType) list" where
  "dnsQueries p = concat (map (\<lambda>fqdn. [(fqdn, TypeA), (fqdn, TypeAAAA)]) (dp_fqdns p))"

definition dnsTask :: "(string \<Rightarrow> dnsType \<Rightarrow> goerr + string list \<times> nat) \<Rightarrow> DNSPool \<Rightarrow> nat \<times> DNSPool" where
  "dnsTask lookup p =
     (case fold (pollOne lookup p) (dnsQueries p) (defaultPollDelay, []) of
        (delay, update) \<Rightarrow>
          if update \<noteq> [] then (delay, p\<lparr>dp_updates := update # dp_updates p\<rparr>)
          else (noPeersRetryDelay, p))"

definition CloseDNS :: "DNSPool \<Rightarrow> DNSPool" where
  "CloseDNS p = p\<lparr>dp_cancelled := True\<rparr>"

subsection \<open>What a poll finds\<close>

definition found :: "(string \<Rightarrow> dnsType \<Rightarrow> goerr + string list \<times> nat) \<Rightarrow> DNSPool \<Rightarrow> string \<times> dnsType \<Rightarrow> PeerInfo list" where
  "found lookup p = (\<lambda>(fqdn, t). (case lookup fqdn t of Inl e \<Rightarrow> [] | Inr (ips, d) \<Rightarrow> map (\<lambda>ip. dnsPeer p fqdn ip (t = TypeAAAA)) ips))"

lemma fold_pollOne:
  assumes "fold (pollOne lookup p) qs (delay, update) = (delay', update')"
  shows "update' = update @ concat (map (found lookup p) qs) \<and> delay' \<le> delay
    \<and> (\<forall>(fqdn, t) \<in> set qs. \<forall>ips d. lookup fqdn t = Inr (ips, d) \<longrightarrow> ips \<noteq> [] \<longrightarrow> delay' \<le> d)"
  using assms
proof (induction qs arbitrary: delay update)
  case (Cons q qs)
  obtain fqdn t where q: "q = (fqdn, t)" by force
  obtain delay1 update1 where one: "pollOne lookup p q (delay, update) = (delay1, update1)" by force
  have "update1 = update @ found lookup p q \<and> delay1 \<le> delay
      \<and> (\<forall>ips d. lookup fqdn t = Inr (ips, d) \<longrightarrow> ips \<noteq> [] \<longrightarrow> delay1 \<le> d)"
    using one q by (auto simp: pollOne_def found_def split: sum.splits if_splits)
  with Cons.IH [of delay1 update1] Cons.prems one q show ?case by fastforce
qed simp

text \<open>
  C0. A DNS poll hands over what it found: the peers of all addresses that the lookups of the names
  returned, in order, unless there is none, and then the old peers stay. The next poll comes within
  300 seconds and no later than the time to live of any lookup that found addresses, and after five
  seconds when there was none.
\<close>

theorem dns_poll_exact:
  assumes "dnsTask lookup p = (delay, p')"
  shows "(let peers = concat (map (found lookup p) (dnsQueries p))
      in dp_updates p' = (if peers = [] then dp_updates p else peers # dp_updates p)
        \<and> (if peers = [] then delay = 5 else delay \<le> 300)
        \<and> (peers \<noteq> [] \<longrightarrow> (\<forall>(fqdn, t) \<in> set (dnsQueries p). \<forall>ips d.
             lookup fqdn t = Inr (ips, d) \<longrightarrow> ips \<noteq> [] \<longrightarrow> delay \<le> d)))"
proof -
  obtain delay1 update where f: "fold (pollOne lookup p) (dnsQueries p) (defaultPollDelay, []) = (delay1, update)" by force
  note F = fold_pollOne [OF f, simplified]
  show ?thesis
  proof (cases "update = []")
    case True
    with f F assms show ?thesis by (simp add: dnsTask_def noPeersRetryDelay_def Let_def)
  next
    case False
    then have "delay = delay1" "p' = p\<lparr>dp_updates := update # dp_updates p\<rparr>" using f assms by (simp_all add: dnsTask_def)
    with F False show ?thesis by (simp add: Let_def defaultPollDelay_def)
  qed
qed

text \<open>The time to live a lookup reports is that of its shortest record, and at most 300 seconds.\<close>

lemma lookupHost_ttl:
  assumes "lookupHost fqdn rcode exchange rnd r host t = Inr (ips, d)"
  shows "\<exists>answer. exchange (dr_Servers r ! (rnd mod length (dr_Servers r))) (fqdn host) t = Inr (0, answer)
    \<and> ips = concat (map recordIP answer) \<and> d \<le> 300 \<and> (\<forall>record \<in> set answer. d \<le> recordTtl record)"
proof -
  have "fold (\<lambda>record ttl. min ttl (recordTtl record)) answer n \<le> n \<and>
      (\<forall>record \<in> set answer. fold (\<lambda>record ttl. min ttl (recordTtl record)) answer n \<le> recordTtl record)" for answer n
  proof (induction answer arbitrary: n)
    case (Cons a answer)
    from Cons.IH [of "min n (recordTtl a)"] show ?case by auto
  qed simp
  with assms show ?thesis
    by (auto simp: lookupHost_def defaultPollDelay_def split: if_splits sum.splits)
qed

text \<open>A pool has a server to ask, so picking one never panics.\<close>

lemma NewDNSPool_servers: "NewDNSPool fqdn exists config conf = Inr p \<Longrightarrow> dr_Servers (dp_resolver p) \<noteq> []"
  by (auto simp: NewDNSPool_def newResolver_def NewFromResolvConf_def NewDNSResolver_def bindE_Inr_iff
      split: if_splits sum.splits)

text \<open>
  C0. An instance that is reached by IPv6 does not find itself: when DNS returns the address it
  advertises, the peer made of it has exactly the advertised address, yet it is not marked as the owner,
  because the own address is compared without its brackets.
\<close>

theorem dns_ipv6_never_owner:
  assumes "dc_OwnAddress conf = JoinHostPort ip port" "CHR '':'' \<in> set ip" "hostOk ip" "portOk port" "port \<noteq> []"
    and "NewDNSPool fqdn exists config conf = Inr p"
  shows "pi_GRPCAddress (dnsPeer p name ip True) = dc_OwnAddress conf \<and> \<not> pi_IsOwner (dnsPeer p name ip True)"
proof -
  have own: "dp_ownIP p = ip" "dp_ownPort p = port"
    using assms SplitHostPort_JoinHostPort [OF assms(3,4)]
    by (auto simp: NewDNSPool_def bindE_Inr_iff wrapE_def split: if_splits)
  moreover have "ip \<noteq> ''['' @ ip @ '']''"
  proof
    assume "ip = ''['' @ ip @ '']''"
    then have "length ip = length ip + 2" by (metis length_append length_Cons list.size(3) add.commute add_2_eq_Suc' add_Suc plus_nat.add_0)
    then show False by simp
  qed
  ultimately show ?thesis using assms(1,2) by (simp add: dnsPeer_def JoinHostPort_def)
qed

lemma dnsPeer_ipv4_marked: "pi_IsOwner (dnsPeer p name ip False) \<longleftrightarrow> pi_GRPCAddress (dnsPeer p name ip False) = dp_ownIP p @ '':'' @ dp_ownPort p"
  by (auto simp: dnsPeer_def)

definition samplePool :: DNSPool where
  "samplePool = \<lparr>dp_resolver = \<lparr>dr_Servers = [''10.0.0.1:53'']\<rparr>, dp_fqdns = [''a.''], dp_ownIP = ''10.0.0.7'', dp_ownPort = ''1051'',
     dp_dataCenter = [], dp_cancelled = False, dp_updates = []\<rparr>"

definition sampleLookup :: "string \<Rightarrow> dnsType \<Rightarrow> goerr + string list \<times> nat" where
  "sampleLookup name t = (if t = TypeA then Inr ([''10.0.0.7'', ''10.0.0.8''], 30) else Inl (Errorf ''NXDOMAIN''))"

theorem dns_poll_exact_witness:
  "\<exists>p'. dnsTask sampleLookup samplePool = (30, p') \<and> map pi_IsOwner (hd (dp_updates p')) = [True, False] \<and> (30::nat) \<le> 300"
proof -
  obtain delay p' where t: "dnsTask sampleLookup samplePool = (delay, p')" by force
  then have d: "delay = 30" by (simp add: dnsTask_def dnsQueries_def samplePool_def sampleLookup_def pollOne_def defaultPollDelay_def)
  have "dp_updates p' = [concat (map (found sampleLookup samplePool) (dnsQueries samplePool))]"
    using dns_poll_exact [OF t] by (simp add: Let_def dnsQueries_def samplePool_def sampleLookup_def found_def)
  then have "map pi_IsOwner (hd (dp_updates p')) = [True, False]"
    by (simp add: dnsQueries_def samplePool_def sampleLookup_def found_def dnsPeer_def)
  with t d show ?thesis by simp
qed

theorem dns_ipv6_never_owner_witness:
  "\<exists>p. NewDNSPool (\<lambda>n. n @ ''.'') True (Inr [''10.0.0.1''])
      \<lparr>dc_FQDN = ''a'', dc_ResolvConf = ''/etc/resolv.conf'', dc_ResolvServers = [], dc_OwnAddress = ''[fd00::7]:1051'', dc_DataCenter = []\<rparr> = Inr p
    \<and> pi_GRPCAddress (dnsPeer p ''a.'' ''fd00::7'' True) = ''[fd00::7]:1051'' \<and> \<not> pi_IsOwner (dnsPeer p ''a.'' ''fd00::7'' True)"
proof -
  let ?c = "\<lparr>dc_FQDN = ''a'', dc_ResolvConf = ''/etc/resolv.conf'', dc_ResolvServers = [], dc_OwnAddress = ''[fd00::7]:1051'', dc_DataCenter = []\<rparr>"
  have own: "dc_OwnAddress ?c = JoinHostPort ''fd00::7'' ''1051''" by (simp add: JoinHostPort_def)
  have ok: "CHR '':'' \<in> set ''fd00::7''" "hostOk ''fd00::7''" "portOk ''1051''" "''1051'' \<noteq> []"
    by (simp_all add: hostOk_def portOk_def)
  have "SplitHostPort ''[fd00::7]:1051'' = Inr (''fd00::7'', ''1051'')"
    using SplitHostPort_JoinHostPort [OF ok(2,3)] own by simp
  then obtain p where p: "NewDNSPool (\<lambda>n. n @ ''.'') True (Inr [''10.0.0.1'']) ?c = Inr p"
    by (auto simp: NewDNSPool_def newResolver_def NewFromResolvConf_def wrapE_def)
  with dns_ipv6_never_owner [OF own ok p, of "''a.''"] show ?thesis by simp
qed

end
