(* ===== verification/Network.thy ===== *)
theory Network
  imports GoStrings
begin

text \<open>
  The network of the host, \<^verbatim>\<open>net.go\<close>: its external addresses and the address that is advertised. What
  the system answers (host name, look-ups, interfaces) is a record of parameters. The search of a list
  for a string is a package that is not part of the repository; it is a parameter as well.
\<close>

subsection \<open>IP addresses\<close>

text \<open>\<^verbatim>\<open>net.ParseIP\<close>: whether a text is an IPv4 or an IPv6 address without a zone.\<close>

definition ipv4Field :: "string \<Rightarrow> bool" where
  "ipv4Field f \<longleftrightarrow> f \<noteq> [] \<and> list_all isDigit f \<and> (length f = 1 \<or> hd f \<noteq> CHR ''0'') \<and> digitsVal f \<le> 255"

definition isIPv4 :: "string \<Rightarrow> bool" where
  "isIPv4 s \<longleftrightarrow> (let fs = Split CHR ''.'' s in length fs = 4 \<and> list_all ipv4Field fs)"

definition isHex :: "char \<Rightarrow> bool" where
  "isHex c \<longleftrightarrow> isDigit c \<or> c \<in> set ''abcdefABCDEF''"

definition ipv6End :: "nat \<Rightarrow> bool \<Rightarrow> string \<Rightarrow> bool" where
  "ipv6End i ellipsis s \<longleftrightarrow> s = [] \<and> (if i < 16 then ellipsis else \<not> ellipsis)"

function ipv6Rest :: "nat \<Rightarrow> bool \<Rightarrow> string \<Rightarrow> bool" where
  "ipv6Rest i ellipsis s =
     (if 16 \<le> i then ipv6End i ellipsis s
      else
        (let off = length (takeWhile isHex s); rest = drop off s
         in if off = 0 \<or> off > 4 then False
            else if rest \<noteq> [] \<and> hd rest = CHR ''.'' then
              (ellipsis \<or> i = 12) \<and> i + 4 \<le> 16 \<and> isIPv4 s \<and> ipv6End (i + 4) ellipsis []
            else (case rest of
                    [] \<Rightarrow> ipv6End (i + 2) ellipsis []
                  | [c] \<Rightarrow> False
                  | c # d # r \<Rightarrow>
                      if c \<noteq> CHR '':'' then False
                      else if d = CHR '':'' then
                        \<not> ellipsis \<and> (if r = [] then ipv6End (i + 2) True [] else ipv6Rest (i + 2) True r)
                      else ipv6Rest (i + 2) ellipsis (d # r))))"
  by pat_completeness auto
termination by (relation "measure (\<lambda>(i, e, s). 16 - i)") auto

declare ipv6Rest.simps [simp del]

definition isIPv6 :: "string \<Rightarrow> bool" where
  "isIPv6 s \<longleftrightarrow> (if HasPrefix s ''::'' then drop 2 s = [] \<or> ipv6Rest 0 True (drop 2 s) else ipv6Rest 0 False s)"

definition isIP :: "string \<Rightarrow> bool" where
  "isIP s \<longleftrightarrow>
     (case filter (\<lambda>c. c \<in> set ''.:%'') s of
        [] \<Rightarrow> False
      | c # _ \<Rightarrow> CHR ''%'' \<notin> set s \<and> (if c = CHR ''.'' then isIPv4 s else isIPv6 s))"

lemma isIP_examples:
  "isIP ''10.0.0.1'' \<and> isIP ''::1'' \<and> isIP ''fe80::1:2'' \<and> isIP ''::ffff:10.0.0.1'' \<and> isIP ''1:2:3:4:5:6:7:8''
   \<and> \<not> isIP ''10.0.0.01'' \<and> \<not> isIP ''10.0.0.256'' \<and> \<not> isIP ''1::2::3'' \<and> \<not> isIP ''fe80::1%eth0'' \<and> \<not> isIP ''localhost''"
  by code_simp

lemma isIPv4_no_colon: "isIPv4 s \<Longrightarrow> CHR '':'' \<notin> set s"
proof -
  assume ok: "isIPv4 s"
  have pieces: "\<exists>p \<in> set (Split sep s). c \<in> set p" if "c \<in> set s" "c \<noteq> sep" for c sep and s :: string
    using that
  proof (induction sep s rule: Split.induct)
    case (2 sep d s)
    then show ?case by (cases "Split sep s") (auto split: if_splits)
  qed simp
  show ?thesis
  proof
    assume "CHR '':'' \<in> set s"
    with pieces [of "CHR '':''" s "CHR ''.''"] obtain f where "f \<in> set (Split CHR ''.'' s)" "CHR '':'' \<in> set f" by auto
    moreover have "\<not> isDigit CHR '':''" by code_simp
    ultimately show False using ok by (auto simp: isIPv4_def ipv4Field_def list_all_iff Let_def)
  qed
qed

subsection \<open>Interfaces\<close>

text \<open>An address of an interface is its list of bytes, empty for an address of another kind.\<close>

type_synonym netIP = "nat list"

definition To4 :: "netIP \<Rightarrow> netIP" where
  "To4 ip =
     (if length ip = 4 then ip
      else if length ip = 16 \<and> take 12 ip = replicate 10 0 @ [255, 255] then drop 12 ip else [])"

definition IsLoopback :: "netIP \<Rightarrow> bool" where
  "IsLoopback ip \<longleftrightarrow> (if To4 ip \<noteq> [] then hd (To4 ip) = 127 else ip = replicate 15 0 @ [1])"

definition ipv4String :: "netIP \<Rightarrow> string" where
  "ipv4String ip = Join ''.'' (map itoa ip)"

record netInterface =
  if_up :: bool
  if_loopback :: bool
  if_Addrs :: "goerr + netIP list"

record hostNet =
  hn_Hostname :: "goerr + string"
  hn_LookupHost :: "string \<Rightarrow> goerr + string list"
  hn_LookupAddr :: "string \<Rightarrow> string list"
  hn_Interfaces :: "goerr + netInterface list"

definition external4 :: "netIP \<Rightarrow> bool" where
  "external4 ip \<longleftrightarrow> ip \<noteq> [] \<and> \<not> IsLoopback ip \<and> To4 ip \<noteq> []"

fun interfaceAddresses :: "netInterface list \<Rightarrow> string list \<Rightarrow> goerr + string list" where
  "interfaceAddresses [] results = Inr results"
| "interfaceAddresses (i # is) results =
     (if \<not> if_up i then interfaceAddresses is results
      else if if_loopback i then interfaceAddresses is results
      else (case if_Addrs i of
              Inl e \<Rightarrow> Inl e
            | Inr ips \<Rightarrow> interfaceAddresses is (results @ map (ipv4String \<circ> To4) (filter external4 ips))))"

definition discoverNetworkAddresses :: "hostNet \<Rightarrow> goerr + string list" where
  "discoverNetworkAddresses net = bindE (hn_Interfaces net) (\<lambda>ifaces. interfaceAddresses ifaces [])"

record netInfo =
  ni_IPAddresses :: "string list"
  ni_DNSNames :: "string list"

definition discoverNetwork :: "hostNet \<Rightarrow> goerr + netInfo" where
  "discoverNetwork net =
     bindE (discoverNetworkAddresses net) (\<lambda>ips.
       Inr \<lparr>ni_IPAddresses = ips, ni_DNSNames = concat (map (hn_LookupAddr net) ips)\<rparr>)"

definition discoverIP :: "hostNet \<Rightarrow> goerr + string" where
  "discoverIP net =
     (case discoverNetworkAddresses net of
        Inl e \<Rightarrow> Inl (WrapErr ''while detecting external ip address'' e)
      | Inr [] \<Rightarrow> Inl (Errorf ''No external ip address found; please set `GUBER_ADVERTISE_ADDRESS`'')
      | Inr (a # _) \<Rightarrow> Inr a)"

text \<open>
  A look-up without addresses returns the empty address and no error: the error that is wrapped is nil.
  The address in the message of a failed discovery has been overwritten by the discovery.
\<close>

definition ResolveHostIP :: "(string \<Rightarrow> string list \<Rightarrow> bool) \<Rightarrow> hostNet \<Rightarrow> string \<Rightarrow> goerr + string" where
  "ResolveHostIP contains net address =
     (if contains address [''0.0.0.0'', ''::'', ''0:0:0:0:0:0:0:0'', ''''] then
        (case hn_Hostname net of
           Inl _ \<Rightarrow> wrapE (''while discovering ip for '' @ quoted '''') (discoverIP net)
         | Inr domainName \<Rightarrow>
             (case hn_LookupHost net domainName of
                Inl e \<Rightarrow> Inl (WrapErr (''while preforming host lookup for '' @ quoted domainName) e)
              | Inr [] \<Rightarrow> Inr ''''
              | Inr (a # _) \<Rightarrow> Inr a))
      else Inr address)"

definition good_contains :: "(string \<Rightarrow> string list \<Rightarrow> bool) \<Rightarrow> bool" where
  "good_contains contains \<longleftrightarrow> (\<forall>s ss. contains s ss \<longleftrightarrow> s \<in> set ss)"

subsection \<open>Properties\<close>

definition usable :: "netInterface \<Rightarrow> bool" where
  "usable i \<longleftrightarrow> if_up i \<and> \<not> if_loopback i"

definition addressesOf :: "netInterface \<Rightarrow> string list" where
  "addressesOf i = (case if_Addrs i of Inl _ \<Rightarrow> [] | Inr ips \<Rightarrow> map (ipv4String \<circ> To4) (filter external4 ips))"

text \<open>
  Discovery returns, in order, the IPv4 addresses that are not loopback addresses of all interfaces that
  are up and not loopback interfaces, and it fails exactly if the addresses of one of them cannot be read.
\<close>

lemma interfaceAddresses_eq:
  "interfaceAddresses is results = Inr rs \<longleftrightarrow>
     (\<forall>i \<in> set is. usable i \<longrightarrow> \<not> isl (if_Addrs i)) \<and> rs = results @ concat (map addressesOf (filter usable is))"
  by (induction "is" results rule: interfaceAddresses.induct)
    (auto simp: usable_def addressesOf_def split: sum.splits)

lemma discoverNetworkAddresses_eq:
  assumes "hn_Interfaces net = Inr ifaces"
  shows "discoverNetworkAddresses net = Inr rs \<longleftrightarrow>
    (\<forall>i \<in> set ifaces. usable i \<longrightarrow> \<not> isl (if_Addrs i)) \<and> rs = concat (map addressesOf (filter usable ifaces))"
  using assms by (simp add: discoverNetworkAddresses_def interfaceAddresses_eq)

text \<open>An address with a port is never one of the unspecified addresses, so it is never resolved.\<close>

lemma ResolveHostIP_with_port:
  assumes "good_contains contains" "portOk p"
  shows "ResolveHostIP contains net (JoinHostPort h p) = Inr (JoinHostPort h p)"
proof -
  have "hd (JoinHostPort h p) = CHR ''['' \<or> length (filter (\<lambda>c. c = CHR '':'') (JoinHostPort h p)) = 1"
    using assms(2) by (auto simp: JoinHostPort_def portOk_def filter_empty_conv)
  moreover have "CHR '':'' \<in> set (JoinHostPort h p)" by (simp add: JoinHostPort_def)
  ultimately have "JoinHostPort h p \<notin> {''0.0.0.0'', ''::'', ''0:0:0:0:0:0:0:0'', ''''}" by auto
  with assms(1) show ?thesis by (simp add: ResolveHostIP_def good_contains_def)
qed

lemma ResolveHostIP_keeps:
  "good_contains contains \<Longrightarrow> a \<notin> {''0.0.0.0'', ''::'', ''0:0:0:0:0:0:0:0'', ''''} \<Longrightarrow> ResolveHostIP contains net a = Inr a"
  by (simp add: ResolveHostIP_def good_contains_def)

end
