(* ===== verification/MemberList.thy ===== *)
theory MemberList
  imports Network
begin

text \<open>
  Discovery of peers by gossip, \<^verbatim>\<open>memberlist.go\<close>: the configuration of the member list, joining it, and
  the handler that turns its events into lists of peers. The gossip protocol itself is a package that is
  not part of the repository: whether a list can be created and joined, and the order of its events, are
  parameters. The encodings of the metadata (JSON, gob, base64) and the network of the host are
  parameters as well.
\<close>

subsection \<open>Configuration\<close>

record MemberListEncryptionConfig =
  me_SecretKeys :: "string list"
  me_GossipVerifyIncoming :: bool
  me_GossipVerifyOutgoing :: bool

record MemberListPoolConfig =
  mc_Advertise :: PeerInfo
  mc_MemberListBindAddress :: string
  mc_MemberListAddress :: string
  mc_KnownNodes :: "string list"
  mc_NodeName :: string
  mc_EncryptionConfig :: MemberListEncryptionConfig

text \<open>The fields the program sets in the configuration of the package; the others keep their defaults.\<close>

record mlConfig =
  ml_AdvertiseAddr :: string
  ml_AdvertisePort :: int
  ml_Bind :: "(string \<times> int) option"
  ml_Verify :: "(bool \<times> bool) option"
  ml_Keyring :: "string list"
  ml_SecretKey :: "string option"
  ml_Name :: "string option"

subsection \<open>Addresses\<close>

definition splitAddress :: "string \<Rightarrow> goerr + string \<times> int" where
  "splitAddress address =
     (case SplitHostPort address of
        Inl e \<Rightarrow> Inl (Errorf '' expected format is `address:port`'')
      | Inr (host, port) \<Rightarrow>
          (case Atoi port of Inl e \<Rightarrow> Inl (WrapErr ''port must be a number'' e) | Inr n \<Rightarrow> Inr (host, n)))"

definition makeAddress :: "string \<Rightarrow> int \<Rightarrow> string" where
  "makeAddress ip port = JoinHostPort ip (Itoa port)"

definition getIP :: "string \<Rightarrow> string" where
  "getIP address = (case SplitHostPort address of Inl e \<Rightarrow> [] | Inr (host, _) \<Rightarrow> host)"

subsection \<open>Metadata of a node\<close>

record metaCodec =
  cd_json :: "string \<Rightarrow> goerr + PeerInfo"
  cd_gob :: "string \<Rightarrow> PeerInfo \<Rightarrow> goerr + PeerInfo"
  cd_marshal :: "PeerInfo \<Rightarrow> string"
  cd_base64 :: "string \<Rightarrow> goerr + string"

record memberListMetadata =
  md_DataCenter :: string
  md_AdvertiseAddress :: string
  md_GubernatorPort :: int

definition zeroPeer :: PeerInfo where
  "zeroPeer = \<lparr>pi_DataCenter = [], pi_HTTPAddress = [], pi_GRPCAddress = [], pi_IsOwner = False\<rparr>"

text \<open>The metadata variable of the source is declared, and the decoder is given \<^verbatim>\<open>&peer\<close>.\<close>

definition unmarshallPeer :: "metaCodec \<Rightarrow> string \<Rightarrow> string \<Rightarrow> goerr + PeerInfo" where
  "unmarshallPeer cd b ip =
     (case cd_json cd b of
        Inr peer \<Rightarrow> Inr peer
      | Inl _ \<Rightarrow>
          (let metadata = \<lparr>md_DataCenter = [], md_AdvertiseAddress = [], md_GubernatorPort = 0\<rparr>
           in case cd_gob cd b zeroPeer of
                Inl e \<Rightarrow> Inl (WrapErr ''error decoding peer'' e)
              | Inr peer \<Rightarrow>
                  (let metadata = (if md_AdvertiseAddress metadata = []
                                   then metadata\<lparr>md_AdvertiseAddress := makeAddress ip (md_GubernatorPort metadata)\<rparr> else metadata)
                   in Inr (zeroPeer\<lparr>pi_GRPCAddress := md_AdvertiseAddress metadata, pi_DataCenter := md_DataCenter metadata\<rparr>))))"

subsection \<open>The event handler\<close>

record mlNode =
  nd_Address :: string
  nd_Meta :: string

text \<open>The lists handed to \<^verbatim>\<open>OnUpdate\<close>, the last one first.\<close>

record memberListEventHandler =
  eh_peers :: "(string \<times> PeerInfo) list"
  eh_own :: string
  eh_updates :: "PeerInfo list list"

definition newMemberListEventHandler :: "MemberListPoolConfig \<Rightarrow> memberListEventHandler" where
  "newMemberListEventHandler conf = \<lparr>eh_peers = [], eh_own = pi_GRPCAddress (mc_Advertise conf), eh_updates = []\<rparr>"

definition markOwn :: "string \<Rightarrow> PeerInfo \<Rightarrow> PeerInfo" where
  "markOwn own p = (if pi_GRPCAddress p = own then p\<lparr>pi_IsOwner := True\<rparr> else p)"

definition callOnUpdate :: "memberListEventHandler \<Rightarrow> memberListEventHandler" where
  "callOnUpdate e = e\<lparr>eh_updates := map (markOwn (eh_own e) \<circ> snd) (eh_peers e) # eh_updates e\<rparr>"

definition putPeer :: "string \<Rightarrow> PeerInfo \<Rightarrow> memberListEventHandler \<Rightarrow> memberListEventHandler" where
  "putPeer ip peer e = callOnUpdate (e\<lparr>eh_peers := AList.update ip peer (eh_peers e)\<rparr>)"

definition addPeer :: "metaCodec \<Rightarrow> mlNode \<Rightarrow> memberListEventHandler \<Rightarrow> memberListEventHandler" where
  "addPeer cd node e =
     (let ip = getIP (nd_Address node)
      in case unmarshallPeer cd (nd_Meta node) ip of Inl _ \<Rightarrow> e | Inr peer \<Rightarrow> putPeer ip peer e)"

definition NotifyJoin :: "metaCodec \<Rightarrow> mlNode \<Rightarrow> memberListEventHandler \<Rightarrow> memberListEventHandler" where
  "NotifyJoin cd node e =
     (let ip = getIP (nd_Address node)
      in case unmarshallPeer cd (nd_Meta node) ip of
           Inl _ \<Rightarrow> e
         | Inr peer \<Rightarrow> putPeer ip (peer\<lparr>pi_IsOwner := False\<rparr>) e)"

definition NotifyLeave :: "mlNode \<Rightarrow> memberListEventHandler \<Rightarrow> memberListEventHandler" where
  "NotifyLeave node e = callOnUpdate (e\<lparr>eh_peers := AList.delete (getIP (nd_Address node)) (eh_peers e)\<rparr>)"

text \<open>An update whose metadata cannot be read is logged, and goes on with the zero value.\<close>

definition NotifyUpdate :: "metaCodec \<Rightarrow> mlNode \<Rightarrow> memberListEventHandler \<Rightarrow> memberListEventHandler" where
  "NotifyUpdate cd node e =
     (let ip = getIP (nd_Address node);
          peer = (case unmarshallPeer cd (nd_Meta node) ip of Inl _ \<Rightarrow> zeroPeer | Inr peer \<Rightarrow> peer)
      in putPeer ip (peer\<lparr>pi_IsOwner := False\<rparr>) e)"

subsection \<open>The pool\<close>

record MemberListPool =
  mp_config :: mlConfig
  mp_events :: memberListEventHandler
  mp_left :: bool

text \<open>
  A host that is not an IP address is looked up. When the lookup returns no address, the error that is
  wrapped is nil, and so is the result of \<^verbatim>\<open>errors.Wrapf\<close>: the constructor returns neither a pool nor an
  error. The inner result is \<^term>\<open>None\<close> then.
\<close>

definition resolveHost :: "hostNet \<Rightarrow> string \<Rightarrow> string \<Rightarrow> goerr + string option" where
  "resolveHost net what host =
     (if isIP host then Inr (Some host)
      else (case hn_LookupHost net host of
              Inl e \<Rightarrow> Inl (WrapErr (what @ quoted host) e)
            | Inr [] \<Rightarrow> Inr None
            | Inr (a # _) \<Rightarrow> Inr (Some a)))"

fun addKeys :: "metaCodec \<Rightarrow> (string \<Rightarrow> goerr option) \<Rightarrow> nat \<Rightarrow> string list \<Rightarrow> mlConfig \<Rightarrow> goerr + mlConfig" where
  "addKeys cd addKey i [] config = Inr config"
| "addKeys cd addKey i (key # rest) config =
     (case cd_base64 cd (TrimSpace key) of
        Inl e \<Rightarrow> Inl (WrapErr (''unable to base64 decode memberlist encryption key at index '' @ itoa i) e)
      | Inr secret \<Rightarrow>
          (case addKey secret of
             Some e \<Rightarrow> Inl (WrapErr (''unable to add secret key at index '' @ itoa i @ '' to memberlist'') e)
           | None \<Rightarrow>
               addKeys cd addKey (Suc i) rest
                 (config\<lparr>ml_Keyring := ml_Keyring config @ [secret],
                         ml_SecretKey := (if i = 0 then Some secret else ml_SecretKey config)\<rparr>)))"

definition encryptionOf :: "metaCodec \<Rightarrow> (string \<Rightarrow> goerr option) \<Rightarrow> MemberListPoolConfig \<Rightarrow> mlConfig \<Rightarrow> goerr + mlConfig" where
  "encryptionOf cd addKey conf config =
     (let enc = mc_EncryptionConfig conf
      in if me_SecretKeys enc = [] then Inr config
         else addKeys cd addKey 0 (me_SecretKeys enc)
                (config\<lparr>ml_Verify := Some (me_GossipVerifyIncoming enc, me_GossipVerifyOutgoing enc)\<rparr>))"

definition bindOf :: "hostNet \<Rightarrow> MemberListPoolConfig \<Rightarrow> mlConfig \<Rightarrow> goerr + mlConfig option" where
  "bindOf net conf config =
     (if mc_MemberListBindAddress conf = [] then Inr (Some config)
      else bindE (wrapE ''MemberListBindAddress=`%s` is invalid;'' (splitAddress (mc_MemberListBindAddress conf))) (\<lambda>(host, port).
           bindE (resolveHost net ''while preforming bind host lookup for '' host) (\<lambda>h.
             Inr (case h of None \<Rightarrow> None | Some host \<Rightarrow> Some (config\<lparr>ml_Bind := Some (host, port)\<rparr>)))))"

text \<open>
  Joining: the metadata of the local node is set, the list is joined (the result of the retries is
  a parameter), and the local node becomes a peer.
\<close>

definition joinPool ::
  "metaCodec \<Rightarrow> goerr option \<Rightarrow> string \<Rightarrow> MemberListPoolConfig \<Rightarrow> memberListEventHandler \<Rightarrow> goerr + memberListEventHandler" where
  "joinPool cd joinErr localAddr conf e =
     (case joinErr of
        Some err \<Rightarrow> Inl (WrapErr ''timed out attempting to join member list'' err)
      | None \<Rightarrow> Inr (addPeer cd \<lparr>nd_Address = localAddr, nd_Meta = cd_marshal cd (mc_Advertise conf)\<rparr> e))"

text \<open>The events that the list delivers while it is created and joined are a function on the handler.\<close>

definition NewMemberListPool ::
  "metaCodec \<Rightarrow> hostNet \<Rightarrow> (string \<Rightarrow> goerr option) \<Rightarrow> (mlConfig \<Rightarrow> goerr option) \<Rightarrow> goerr option \<Rightarrow> string
   \<Rightarrow> (memberListEventHandler \<Rightarrow> memberListEventHandler) \<Rightarrow> MemberListPoolConfig \<Rightarrow> goerr + MemberListPool option" where
  "NewMemberListPool cd net addKey create joinErr localAddr early conf =
     bindE (wrapE ''MemberListAddress=`%s` is invalid;'' (splitAddress (mc_MemberListAddress conf))) (\<lambda>(host, port).
     bindE (resolveHost net ''while preforming host lookup for '' host) (\<lambda>h.
       case h of
         None \<Rightarrow> Inr None
       | Some host \<Rightarrow>
           bindE (bindOf net conf \<lparr>ml_AdvertiseAddr = host, ml_AdvertisePort = port, ml_Bind = None, ml_Verify = None,
                                   ml_Keyring = [], ml_SecretKey = None, ml_Name = None\<rparr>) (\<lambda>c.
             case c of
               None \<Rightarrow> Inr None
             | Some config \<Rightarrow>
                 bindE (encryptionOf cd addKey conf config) (\<lambda>config.
                   let config = (if mc_NodeName conf \<noteq> [] then config\<lparr>ml_Name := Some (mc_NodeName conf)\<rparr> else config)
                   in case create config of
                        Some e \<Rightarrow> Inl e
                      | None \<Rightarrow>
                          bindE (wrapE ''while attempting to join the member-list pool''
                                   (joinPool cd joinErr localAddr conf (early (newMemberListEventHandler conf)))) (\<lambda>e.
                            Inr (Some \<lparr>mp_config = config, mp_events = e, mp_left = False\<rparr>))))))"

text \<open>Leaving: an error is logged only.\<close>

definition CloseMemberList :: "MemberListPool \<Rightarrow> MemberListPool" where
  "CloseMemberList m = m\<lparr>mp_left := True\<rparr>"

subsection \<open>The peers follow the members\<close>

datatype mlEvent = NodeJoined mlNode | NodeLeft mlNode | NodeUpdated mlNode

fun eventNode :: "mlEvent \<Rightarrow> mlNode" where
  "eventNode (NodeJoined n) = n"
| "eventNode (NodeLeft n) = n"
| "eventNode (NodeUpdated n) = n"

fun handleEvent :: "metaCodec \<Rightarrow> mlEvent \<Rightarrow> memberListEventHandler \<Rightarrow> memberListEventHandler" where
  "handleEvent cd (NodeJoined n) = NotifyJoin cd n"
| "handleEvent cd (NodeLeft n) = NotifyLeave n"
| "handleEvent cd (NodeUpdated n) = NotifyUpdate cd n"

declare handleEvent.simps [simp del]

text \<open>The specification: the members that are there, by address, with their last metadata.\<close>

fun memberStep :: "mlEvent \<Rightarrow> (string \<rightharpoonup> string) \<Rightarrow> (string \<rightharpoonup> string)" where
  "memberStep (NodeJoined n) m = m(nd_Address n \<mapsto> nd_Meta n)"
| "memberStep (NodeUpdated n) m = m(nd_Address n \<mapsto> nd_Meta n)"
| "memberStep (NodeLeft n) m = m(nd_Address n := None)"

definition peerOf :: "metaCodec \<Rightarrow> string \<Rightarrow> PeerInfo" where
  "peerOf cd b = (case cd_json cd b of Inl _ \<Rightarrow> zeroPeer | Inr p \<Rightarrow> p\<lparr>pi_IsOwner := False\<rparr>)"

definition readable :: "metaCodec \<Rightarrow> mlEvent \<Rightarrow> bool" where
  "readable cd ev \<longleftrightarrow> (\<exists>p. cd_json cd (nd_Meta (eventNode ev)) = Inr p)"

definition mirrors_map :: "metaCodec \<Rightarrow> (string \<rightharpoonup> PeerInfo) \<Rightarrow> (string \<rightharpoonup> string) \<Rightarrow> bool" where
  "mirrors_map cd pm m \<longleftrightarrow> (\<forall>a b. m a = Some b \<longrightarrow> pm (getIP a) = Some (peerOf cd b)) \<and>
     (\<forall>ip p. pm ip = Some p \<longrightarrow> (\<exists>a. m a \<noteq> None \<and> getIP a = ip))"

definition mirrors :: "metaCodec \<Rightarrow> memberListEventHandler \<Rightarrow> (string \<rightharpoonup> string) \<Rightarrow> bool" where
  "mirrors cd e m \<longleftrightarrow> distinct (map fst (eh_peers e)) \<and> mirrors_map cd (map_of (eh_peers e)) m"

lemma mirrors_map_put:
  assumes "mirrors_map cd pm m" "\<And>a. m a \<noteq> None \<Longrightarrow> a \<noteq> x \<Longrightarrow> getIP a \<noteq> getIP x"
  shows "mirrors_map cd (pm(getIP x \<mapsto> peerOf cd b)) (m(x \<mapsto> b))"
  unfolding mirrors_map_def
proof (intro conjI allI impI)
  fix a c assume "(m(x \<mapsto> b)) a = Some c"
  then show "(pm(getIP x \<mapsto> peerOf cd b)) (getIP a) = Some (peerOf cd c)"
    using assms unfolding mirrors_map_def by (cases "a = x") auto
next
  fix ip p assume p: "(pm(getIP x \<mapsto> peerOf cd b)) ip = Some p"
  show "\<exists>a. (m(x \<mapsto> b)) a \<noteq> None \<and> getIP a = ip"
  proof (cases "ip = getIP x")
    case False
    then have "pm ip = Some p" using p by simp
    then obtain a where "m a \<noteq> None" "getIP a = ip" using assms(1) unfolding mirrors_map_def by blast
    then show ?thesis by (intro exI [of _ a]) simp
  qed (auto intro: exI [of _ x])
qed

lemma mirrors_map_del:
  assumes "mirrors_map cd pm m" "\<And>a. m a \<noteq> None \<Longrightarrow> a \<noteq> x \<Longrightarrow> getIP a \<noteq> getIP x"
  shows "mirrors_map cd (pm(getIP x := None)) (m(x := None))"
  unfolding mirrors_map_def
proof (intro conjI allI impI)
  fix a c assume "(m(x := None)) a = Some c"
  then show "(pm(getIP x := None)) (getIP a) = Some (peerOf cd c)"
    using assms unfolding mirrors_map_def by (cases "a = x") auto
next
  fix ip p assume p: "(pm(getIP x := None)) ip = Some p"
  then have "ip \<noteq> getIP x" "pm ip = Some p" by (auto split: if_splits)
  then obtain a where "m a \<noteq> None" "getIP a = ip" using assms(1) unfolding mirrors_map_def by blast
  then show "\<exists>a. (m(x := None)) a \<noteq> None \<and> getIP a = ip"
    using \<open>ip \<noteq> getIP x\<close> by (intro exI [of _ a]) auto
qed

lemma handleEvent_peers:
  assumes "readable cd ev"
  shows "eh_peers (handleEvent cd ev e) = (case ev of
      NodeLeft n \<Rightarrow> AList.delete (getIP (nd_Address n)) (eh_peers e)
    | _ \<Rightarrow> AList.update (getIP (nd_Address (eventNode ev))) (peerOf cd (nd_Meta (eventNode ev))) (eh_peers e))"
    and "eh_own (handleEvent cd ev e) = eh_own e"
    and "hd (eh_updates (handleEvent cd ev e)) = map (markOwn (eh_own e) \<circ> snd) (eh_peers (handleEvent cd ev e))"
  using assms
  by (cases ev; auto simp: readable_def NotifyJoin_def NotifyLeave_def NotifyUpdate_def putPeer_def callOnUpdate_def
      handleEvent.simps unmarshallPeer_def peerOf_def Let_def)+

lemma mirrors_step:
  assumes "mirrors cd e m" "readable cd ev" "inj_on getIP (insert (nd_Address (eventNode ev)) (dom m))"
  shows "mirrors cd (handleEvent cd ev e) (memberStep ev m)"
proof -
  let ?a = "nd_Address (eventNode ev)"
  have other: "getIP a \<noteq> getIP ?a" if "m a \<noteq> None" "a \<noteq> ?a" for a
    using inj_onD [OF assms(3), of a ?a] that by auto
  have d: "distinct (map fst (eh_peers e))" and m: "mirrors_map cd (map_of (eh_peers e)) m"
    using assms(1) by (simp_all add: mirrors_def)
  show ?thesis
  proof (cases ev)
    case (NodeLeft n)
    then have "map_of (eh_peers (handleEvent cd ev e)) = (map_of (eh_peers e))(getIP ?a := None)"
      "distinct (map fst (eh_peers (handleEvent cd ev e)))" "memberStep ev m = m(?a := None)"
      using d unfolding handleEvent_peers(1) [OF assms(2)] by (simp_all add: delete_conv' distinct_delete)
    with mirrors_map_del [OF m other] show ?thesis by (simp add: mirrors_def)
  next
    case (NodeJoined n)
    then have "map_of (eh_peers (handleEvent cd ev e)) = (map_of (eh_peers e))(getIP ?a \<mapsto> peerOf cd (nd_Meta n))"
      "distinct (map fst (eh_peers (handleEvent cd ev e)))" "memberStep ev m = m(?a \<mapsto> nd_Meta n)"
      using d unfolding handleEvent_peers(1) [OF assms(2)] by (simp_all add: update_conv' distinct_update)
    with mirrors_map_put [OF m other] show ?thesis by (simp add: mirrors_def)
  next
    case (NodeUpdated n)
    then have "map_of (eh_peers (handleEvent cd ev e)) = (map_of (eh_peers e))(getIP ?a \<mapsto> peerOf cd (nd_Meta n))"
      "distinct (map fst (eh_peers (handleEvent cd ev e)))" "memberStep ev m = m(?a \<mapsto> nd_Meta n)"
      using d unfolding handleEvent_peers(1) [OF assms(2)] by (simp_all add: update_conv' distinct_update)
    with mirrors_map_put [OF m other] show ?thesis by (simp add: mirrors_def)
  qed
qed

lemma memberStep_dom: "dom (memberStep ev m) \<subseteq> insert (nd_Address (eventNode ev)) (dom m)"
  by (cases ev) auto

lemma mirrors_run:
  assumes "\<And>ev. ev \<in> set es \<Longrightarrow> readable cd ev" "inj_on getIP (dom m \<union> (nd_Address \<circ> eventNode) ` set es)" "mirrors cd e m"
  shows "mirrors cd (fold (handleEvent cd) es e) (fold memberStep es m) \<and> eh_own (fold (handleEvent cd) es e) = eh_own e
    \<and> (es \<noteq> [] \<longrightarrow> hd (eh_updates (fold (handleEvent cd) es e)) =
         map (markOwn (eh_own e) \<circ> snd) (eh_peers (fold (handleEvent cd) es e)))"
  using assms
proof (induction es arbitrary: e m)
  case (Cons ev es)
  have r: "readable cd ev" using Cons.prems(1) by simp
  note dom = memberStep_dom [of ev m]
  have inj: "inj_on getIP (insert (nd_Address (eventNode ev)) (dom m) \<union> (nd_Address \<circ> eventNode) ` set es)"
    using Cons.prems(2) by simp
  have "inj_on getIP (dom (memberStep ev m) \<union> (nd_Address \<circ> eventNode) ` set es)"
    by (rule inj_on_subset [OF inj]) (use dom in auto)
  moreover have "mirrors cd (handleEvent cd ev e) (memberStep ev m)"
    by (rule mirrors_step [OF Cons.prems(3) r inj_on_subset [OF inj]]) auto
  ultimately show ?case
    using Cons.IH [of "memberStep ev m" "handleEvent cd ev e"] Cons.prems(1) handleEvent_peers(2,3) [OF r, of e]
    by (cases "es = []") simp_all
qed simp

lemma mirrors_values:
  assumes "mirrors cd e m" "inj_on getIP (dom m)" "finite (dom m)"
  shows "snd ` set (eh_peers e) = {peerOf cd b |a b. m a = Some b} \<and> length (eh_peers e) = card (dom m)"
proof -
  have M: "distinct (map fst (eh_peers e))" "\<And>a b. m a = Some b \<Longrightarrow> map_of (eh_peers e) (getIP a) = Some (peerOf cd b)"
    "\<And>ip p. map_of (eh_peers e) ip = Some p \<Longrightarrow> \<exists>a. m a \<noteq> None \<and> getIP a = ip"
    using assms(1) unfolding mirrors_def mirrors_map_def by blast+
  have "dom (map_of (eh_peers e)) = getIP ` dom m"
  proof
    show "dom (map_of (eh_peers e)) \<subseteq> getIP ` dom m" using M(3) by (fastforce simp: dom_def)
    show "getIP ` dom m \<subseteq> dom (map_of (eh_peers e))" using M(2) by (auto simp: dom_def)
  qed
  then have keys: "fst ` set (eh_peers e) = getIP ` dom m" by (simp add: dom_map_of_conv_image_fst)
  have "length (eh_peers e) = card (fst ` set (eh_peers e))"
    using M(1) distinct_card [of "map fst (eh_peers e)"] by simp
  then have "length (eh_peers e) = card (dom m)" using keys assms(2) by (simp add: card_image)
  moreover have "p \<in> {peerOf cd b |a b. m a = Some b}" if p: "p \<in> snd ` set (eh_peers e)" for p
  proof -
    obtain ip where "map_of (eh_peers e) ip = Some p" using p M(1) by (auto intro: map_of_is_SomeI)
    moreover from M(3) [OF this] obtain a b where "m a = Some b" "getIP a = ip" by auto
    ultimately show ?thesis using M(2) [of a b] by auto
  qed
  moreover have "p \<in> snd ` set (eh_peers e)" if p: "p \<in> {peerOf cd b |a b. m a = Some b}" for p
  proof -
    obtain a b where ab: "m a = Some b" "p = peerOf cd b" using p by blast
    from map_of_SomeD [OF M(2) [OF ab(1)]] show ?thesis unfolding ab(2) by (rule image_eqI [rotated]) simp
  qed
  ultimately have "snd ` set (eh_peers e) = {peerOf cd b |a b. m a = Some b}" "length (eh_peers e) = card (dom m)"
    by blast+
  then show ?thesis by simp
qed

lemma finite_members: "finite (dom m) \<Longrightarrow> finite (dom (fold memberStep es m))"
proof (induction es arbitrary: m)
  case (Cons ev es)
  then have "finite (dom (memberStep ev m))" using finite_subset [OF memberStep_dom] by simp
  from Cons.IH [OF this] show ?case by simp
qed simp

lemma dom_members: "dom (fold memberStep es m) \<subseteq> dom m \<union> (nd_Address \<circ> eventNode) ` set es"
proof (induction es arbitrary: m)
  case (Cons ev es)
  show ?case using Cons.IH [of "memberStep ev m"] memberStep_dom [of ev m] by (simp add: subset_iff) blast
qed simp

text \<open>
  C0. The peers follow the members: while every node has an IP address of its own and metadata that can be
  read, then after any sequence of events the last list handed to the instance has exactly one peer for
  every node that is a member, as its last metadata describes it, and marks as owner exactly the one
  with the advertised address.
\<close>

theorem members_refine:
  assumes "\<And>ev. ev \<in> set es \<Longrightarrow> readable cd ev" "inj_on getIP ((nd_Address \<circ> eventNode) ` set es)" "es \<noteq> []"
  shows "(let peers = hd (eh_updates (fold (handleEvent cd) es (newMemberListEventHandler conf)));
              members = fold memberStep es Map.empty; own = pi_GRPCAddress (mc_Advertise conf)
      in set peers = markOwn own ` peerOf cd ` ran members \<and> length peers = card (dom members)
        \<and> (\<forall>p \<in> set peers. pi_IsOwner p \<longleftrightarrow> pi_GRPCAddress p = own))"
proof -
  let ?e = "fold (handleEvent cd) es (newMemberListEventHandler conf)" and ?m = "fold memberStep es Map.empty"
  let ?own = "pi_GRPCAddress (mc_Advertise conf)"
  have "mirrors cd (newMemberListEventHandler conf) Map.empty" by (simp add: mirrors_def mirrors_map_def newMemberListEventHandler_def)
  then have run: "mirrors cd ?e ?m" "hd (eh_updates ?e) = map (markOwn ?own \<circ> snd) (eh_peers ?e)"
    using mirrors_run [of es cd Map.empty "newMemberListEventHandler conf"] assms
    by (simp_all add: newMemberListEventHandler_def)
  have "inj_on getIP (dom ?m)" using dom_members [of es Map.empty] inj_on_subset [OF assms(2)] by simp
  then have v: "snd ` set (eh_peers ?e) = peerOf cd ` ran ?m" "length (eh_peers ?e) = card (dom ?m)"
    using mirrors_values [OF run(1)] finite_members [of Map.empty es] by (auto simp: ran_def)
  have "set (hd (eh_updates ?e)) = markOwn ?own ` snd ` set (eh_peers ?e)" by (simp add: run(2) image_comp)
  then have s: "set (hd (eh_updates ?e)) = markOwn ?own ` peerOf cd ` ran ?m" unfolding v(1) .
  have "pi_IsOwner (markOwn ?own (peerOf cd b)) \<longleftrightarrow> pi_GRPCAddress (markOwn ?own (peerOf cd b)) = ?own" for b
    by (auto simp: markOwn_def peerOf_def zeroPeer_def split: sum.splits)
  then show ?thesis unfolding Let_def s using v(2) run(2) by auto
qed

definition sampleCodec :: metaCodec where
  "sampleCodec = \<lparr>cd_json = (\<lambda>b. if b = [] then Inl (Errorf ''unexpected end of JSON input'') else Inr (zeroPeer\<lparr>pi_GRPCAddress := b\<rparr>)),
     cd_gob = (\<lambda>b p. Inr p), cd_marshal = pi_GRPCAddress, cd_base64 = Inr\<rparr>"

definition sampleMLConf :: MemberListPoolConfig where
  "sampleMLConf = \<lparr>mc_Advertise = zeroPeer\<lparr>pi_GRPCAddress := ''a:1''\<rparr>, mc_MemberListBindAddress = [], mc_MemberListAddress = ''a:7'',
     mc_KnownNodes = [], mc_NodeName = [], mc_EncryptionConfig = \<lparr>me_SecretKeys = [], me_GossipVerifyIncoming = True, me_GossipVerifyOutgoing = True\<rparr>\<rparr>"

definition sampleEvents :: "mlEvent list" where
  "sampleEvents = [NodeJoined \<lparr>nd_Address = ''a:7'', nd_Meta = ''a:1''\<rparr>, NodeJoined \<lparr>nd_Address = ''b:7'', nd_Meta = ''b:1''\<rparr>]"

theorem members_refine_witness:
  "set (hd (eh_updates (fold (handleEvent sampleCodec) sampleEvents (newMemberListEventHandler sampleMLConf)))) =
     {zeroPeer\<lparr>pi_GRPCAddress := ''a:1'', pi_IsOwner := True\<rparr>, zeroPeer\<lparr>pi_GRPCAddress := ''b:1''\<rparr>}"
proof -
  have r: "\<And>ev. ev \<in> set sampleEvents \<Longrightarrow> readable sampleCodec ev"
    by (auto simp: sampleEvents_def readable_def sampleCodec_def)
  have i: "inj_on getIP ((nd_Address \<circ> eventNode) ` set sampleEvents)"
    by (simp add: sampleEvents_def getIP_def SplitHostPort_def)
  have m: "fold memberStep sampleEvents Map.empty = [''a:7'' \<mapsto> ''a:1'', ''b:7'' \<mapsto> ''b:1'']"
    by (simp add: sampleEvents_def)
  have ne: "sampleEvents \<noteq> []" by (simp add: sampleEvents_def)
  have "ran (fold memberStep sampleEvents Map.empty) = {''a:1'', ''b:1''}" unfolding m by (auto simp: ran_map_upd)
  with members_refine [OF r i ne, of sampleMLConf]
  have s: "set (hd (eh_updates (fold (handleEvent sampleCodec) sampleEvents (newMemberListEventHandler sampleMLConf)))) =
      markOwn (pi_GRPCAddress (mc_Advertise sampleMLConf)) ` peerOf sampleCodec ` {''a:1'', ''b:1''}"
    by (simp only: Let_def)
  show ?thesis unfolding s by (auto simp: sampleMLConf_def markOwn_def peerOf_def sampleCodec_def zeroPeer_def)
qed

subsection \<open>Metadata that is lost\<close>

text \<open>
  C0. A peer of an older version is not understood: metadata that is not JSON is decoded, but into another
  variable than the one that is read afterwards. Whatever address and port it advertises, the peer gets
  the IP address of its node with port 0, and no data centre.
\<close>

theorem legacy_metadata_lost:
  assumes "cd_json cd b = Inl e" "cd_gob cd b zeroPeer = Inr p"
  shows "unmarshallPeer cd b ip = Inr (zeroPeer\<lparr>pi_GRPCAddress := JoinHostPort ip ''0''\<rparr>)"
proof -
  have "Itoa 0 = ''0''" by code_simp
  with assms show ?thesis by (simp add: unmarshallPeer_def makeAddress_def zeroPeer_def)
qed

theorem legacy_metadata_lost_witness:
  "unmarshallPeer (sampleCodec\<lparr>cd_gob := \<lambda>b p. Inr (p\<lparr>pi_DataCenter := ''dc''\<rparr>)\<rparr>) [] ''10.0.0.7'' =
    Inr (zeroPeer\<lparr>pi_GRPCAddress := ''10.0.0.7:0''\<rparr>)"
  using legacy_metadata_lost [of "sampleCodec\<lparr>cd_gob := \<lambda>b p. Inr (p\<lparr>pi_DataCenter := ''dc''\<rparr>)\<rparr>" "[]"]
  by (simp add: sampleCodec_def JoinHostPort_def)

text \<open>An update with metadata that cannot be read replaces the peer by one without an address.\<close>

lemma unreadable_update_empties_peer:
  assumes "unmarshallPeer cd (nd_Meta n) (getIP (nd_Address n)) = Inl err"
  shows "map_of (eh_peers (NotifyUpdate cd n e)) (getIP (nd_Address n)) = Some zeroPeer"
  using assms by (simp add: NotifyUpdate_def putPeer_def callOnUpdate_def update_conv' zeroPeer_def Let_def)

text \<open>Two members on one host share an entry: when one of them leaves, the peer of the other is gone.\<close>

lemma same_host_members_collide:
  assumes "getIP (nd_Address n) = getIP (nd_Address n')" "readable cd (NodeJoined n)" "readable cd (NodeJoined n')"
  shows "map_of (eh_peers (NotifyLeave n' (NotifyJoin cd n (NotifyJoin cd n' e)))) (getIP (nd_Address n)) = None"
  using assms by (simp add: NotifyLeave_def callOnUpdate_def delete_conv')

text \<open>When the lookup of a host returns no address, there is neither a pool nor an error.\<close>

lemma no_pool_no_error:
  assumes "splitAddress (mc_MemberListAddress conf) = Inr (host, port)" "\<not> isIP host" "hn_LookupHost net host = Inr []"
  shows "NewMemberListPool cd net addKey create joinErr localAddr early conf = Inr None"
  using assms by (simp add: NewMemberListPool_def resolveHost_def wrapE_def)

end
