(* ===== verification/Tls.thy ===== *)
theory Tls
  imports Network GoTime
begin

text \<open>
  The TLS configuration, \<^verbatim>\<open>tls.go\<close>: \<^verbatim>\<open>SetupTLS\<close> with the files it loads, the certificates it generates and the
  pools of certificate authorities it builds, and the reloading of key pairs. Cryptography, the file system
  and the system's certificates are a record of parameters, and certificates and keys are opaque texts. The
  package that sets defaults is a parameter, here at the type of pointers to a TLS configuration.
\<close>

subsection \<open>Records\<close>

datatype ClientAuthType = NoClientCert | RequestClientCert | RequireAnyClientCert | VerifyClientCertIfGiven | RequireAndVerifyClientCert

record Certificate =
  ce_chain :: "string list"
  ce_PrivateKey :: string

text \<open>
  Of \<^verbatim>\<open>tls.Config\<close> the fields that the program sets. A certificate function is the number of the reloader
  whose certificate it returns.
\<close>

record tlsConf =
  tls_CipherSuites :: "string list"
  tls_ClientAuth :: ClientAuthType
  tls_MinVersion :: int
  tls_NextProtos :: "string list"
  tls_RootCAs :: "string list option"
  tls_ClientCAs :: "string list option"
  tls_Certificates :: "Certificate list"
  tls_GetCertificate :: "nat option"
  tls_GetClientCertificate :: "nat option"
  tls_ServerName :: string
  tls_InsecureSkipVerify :: bool

definition emptyTLS :: tlsConf where
  "emptyTLS =
     \<lparr>tls_CipherSuites = [], tls_ClientAuth = NoClientCert, tls_MinVersion = 0, tls_NextProtos = [], tls_RootCAs = None,
      tls_ClientCAs = None, tls_Certificates = [], tls_GetCertificate = None, tls_GetClientCertificate = None,
      tls_ServerName = '''', tls_InsecureSkipVerify = False\<rparr>"

record TLSConfig =
  tl_CaFile :: string
  tl_CaKeyFile :: string
  tl_KeyFile :: string
  tl_CertFile :: string
  tl_AutoTLS :: bool
  tl_MinVersion :: int
  tl_ClientAuth :: ClientAuthType
  tl_ClientAuthCaFile :: string
  tl_ClientAuthKeyFile :: string
  tl_ClientAuthCertFile :: string
  tl_InsecureSkipVerify :: bool
  tl_CaPEM :: "string option"
  tl_CaKeyPEM :: "string option"
  tl_KeyPEM :: "string option"
  tl_CertPEM :: "string option"
  tl_ClientAuthCaPEM :: "string option"
  tl_ClientAuthServerName :: string
  tl_ServerTLS :: "tlsConf option"
  tl_ClientTLS :: "tlsConf option"

text \<open>Of an X.509 certificate, the fields of the templates.\<close>

record certTemplate =
  ct_SerialNumber :: int
  ct_Organization :: "string list"
  ct_NotBefore :: Time
  ct_NotAfter :: Time
  ct_KeyUsage :: "string list"
  ct_ExtKeyUsage :: "string list"
  ct_DNSNames :: "string list"
  ct_IPAddresses :: "string list"
  ct_IsCA :: bool

text \<open>
  Private keys are generated at most twice, by \<^verbatim>\<open>selfCA\<close> and by \<^verbatim>\<open>selfCert\<close>; the generator is given which
  one it is. \<^verbatim>\<open>pem.Encode\<close> of a block without headers into a buffer does not fail.
\<close>

record crypto =
  cy_now :: Time
  cy_ReadFile :: "string \<Rightarrow> goerr + string"
  cy_SystemCertPool :: "goerr + string list"
  cy_certsIn :: "string \<Rightarrow> string list"
  cy_X509KeyPair :: "string \<Rightarrow> string \<Rightarrow> goerr + Certificate"
  cy_GenerateKey :: "nat \<Rightarrow> goerr + string"
  cy_CreateCertificate :: "certTemplate \<Rightarrow> certTemplate \<Rightarrow> string \<Rightarrow> string \<Rightarrow> goerr + string"
  cy_ParseCertificate :: "string \<Rightarrow> goerr + certTemplate"
  cy_MarshalECPrivateKey :: "string \<Rightarrow> goerr + string"
  cy_Encode :: "string \<Rightarrow> string \<Rightarrow> string"

definition blockTypeEC :: string where "blockTypeEC = ''EC PRIVATE KEY''"
definition blockTypeCert :: string where "blockTypeCert = ''CERTIFICATE''"

text \<open>\<^verbatim>\<open>tls.LoadX509KeyPair\<close> reads both files and parses their contents.\<close>

definition LoadX509KeyPair :: "crypto \<Rightarrow> string \<Rightarrow> string \<Rightarrow> goerr + Certificate" where
  "LoadX509KeyPair cy certFile keyFile =
     bindE (cy_ReadFile cy certFile) (\<lambda>c. bindE (cy_ReadFile cy keyFile) (\<lambda>k. cy_X509KeyPair cy c k))"

subsection \<open>Reloading key pairs\<close>

record keypairReloader =
  kr_cert :: Certificate
  kr_certPath :: string
  kr_keyPath :: string

definition NewKeypairReloader :: "crypto \<Rightarrow> string \<Rightarrow> string \<Rightarrow> goerr + keypairReloader" where
  "NewKeypairReloader cy certPath keyPath =
     bindE (wrapE ''error loading keypair'' (LoadX509KeyPair cy certPath keyPath)) (\<lambda>c.
       Inr \<lparr>kr_cert = c, kr_certPath = certPath, kr_keyPath = keyPath\<rparr>)"

text \<open>The effect of a SIGHUP; \<^term>\<open>cy\<close> reads the files as they are then.\<close>

definition maybeReload :: "crypto \<Rightarrow> keypairReloader \<Rightarrow> goerr option \<times> keypairReloader" where
  "maybeReload cy kpr =
     (case LoadX509KeyPair cy (kr_certPath kpr) (kr_keyPath kpr) of
        Inl e \<Rightarrow> (Some e, kpr)
      | Inr c \<Rightarrow> (None, kpr\<lparr>kr_cert := c\<rparr>))"

definition UpdatePath :: "string \<Rightarrow> string \<Rightarrow> keypairReloader \<Rightarrow> keypairReloader" where
  "UpdatePath certPath keyPath kpr = kpr\<lparr>kr_certPath := certPath, kr_keyPath := keyPath\<rparr>"

definition GetCertificateFunc :: "nat \<Rightarrow> keypairReloader list \<Rightarrow> Certificate" where
  "GetCertificateFunc i rs = kr_cert (rs ! i)"

definition GetClientCertificateFunc :: "nat \<Rightarrow> keypairReloader list \<Rightarrow> Certificate" where
  "GetClientCertificateFunc i rs = kr_cert (rs ! i)"

definition sighup :: "crypto \<Rightarrow> keypairReloader list \<Rightarrow> keypairReloader list" where
  "sighup cy = map (\<lambda>kpr. snd (maybeReload cy kpr))"

subsection \<open>Generated certificates\<close>

definition caTemplate :: "Time \<Rightarrow> certTemplate" where
  "caTemplate now =
     \<lparr>ct_SerialNumber = 2319, ct_Organization = [''gubernator''], ct_NotBefore = now, ct_NotAfter = AddDate now 10 0 0,
      ct_KeyUsage = [''DigitalSignature'', ''CertSign''], ct_ExtKeyUsage = [''ClientAuth'', ''ServerAuth''],
      ct_DNSNames = [], ct_IPAddresses = [], ct_IsCA = True\<rparr>"

definition selfCA :: "crypto \<Rightarrow> TLSConfig \<Rightarrow> goerr + TLSConfig" where
  "selfCA cy conf =
     (if tl_CaPEM conf \<noteq> None \<and> tl_CaKeyPEM conf \<noteq> None then Inr conf
      else
        bindE (wrapE ''while generating pubic/private key pair'' (cy_GenerateKey cy 0)) (\<lambda>privKey.
        bindE (wrapE ''while self signing CA certificate''
                 (cy_CreateCertificate cy (caTemplate (cy_now cy)) (caTemplate (cy_now cy)) privKey privKey)) (\<lambda>b.
        bindE (wrapE ''while marshalling EC private key'' (cy_MarshalECPrivateKey cy privKey)) (\<lambda>k.
          Inr (conf\<lparr>tl_CaPEM := Some (cy_Encode cy blockTypeCert b), tl_CaKeyPEM := Some (cy_Encode cy blockTypeEC k)\<rparr>)))))"

definition serverTemplate :: "crypto \<Rightarrow> netInfo \<Rightarrow> certTemplate" where
  "serverTemplate cy network =
     \<lparr>ct_SerialNumber = 12648430, ct_Organization = [''gubernator''], ct_NotBefore = cy_now cy,
      ct_NotAfter = Add_dur (cy_now cy) (365 * 24 * ns_per_hour),
      ct_KeyUsage = [''KeyEncipherment'', ''DigitalSignature''], ct_ExtKeyUsage = [''ClientAuth'', ''ServerAuth''],
      ct_DNSNames = ''localhost'' # ni_DNSNames network, ct_IPAddresses = ''127.0.0.1'' # filter isIP (ni_IPAddresses network),
      ct_IsCA = False\<rparr>"

text \<open>The CA that signs; a nil buffer panics.\<close>

definition signingCA :: "crypto \<Rightarrow> TLSConfig \<Rightarrow> goerr + Certificate" where
  "signingCA cy conf =
     (case (tl_CaPEM conf, tl_CaKeyPEM conf) of
        (None, None) \<Rightarrow> Inl (Errorf ''unable to generate server certs without a signing CA'')
      | (Some c, Some k) \<Rightarrow> wrapE ''while reading generated PEMs'' (cy_X509KeyPair cy c k)
      | _ \<Rightarrow> Inl (Panic ''invalid memory address or nil pointer dereference''))"

definition selfCert :: "crypto \<Rightarrow> hostNet \<Rightarrow> TLSConfig \<Rightarrow> goerr + TLSConfig" where
  "selfCert cy net conf =
     (if tl_CertPEM conf \<noteq> None \<and> tl_KeyPEM conf \<noteq> None then Inr conf
      else
        bindE (wrapE ''while detecting ip and host names'' (discoverNetwork net)) (\<lambda>network.
        bindE (wrapE ''while generating pubic/private key pair'' (cy_GenerateKey cy 1)) (\<lambda>privKey.
        bindE (signingCA cy conf) (\<lambda>keyPair.
        bindE (guardE (ce_chain keyPair \<noteq> []) (Errorf ''no certificates found in CA PEM'')) (\<lambda>_.
        bindE (wrapE ''while parsing CA Cert'' (cy_ParseCertificate cy (hd (ce_chain keyPair)))) (\<lambda>caCert.
        bindE (wrapE ''while self signing server cert''
                 (cy_CreateCertificate cy (serverTemplate cy network) caCert privKey (ce_PrivateKey keyPair))) (\<lambda>signedBytes.
        bindE (wrapE ''while encoding EC Marshalling'' (cy_MarshalECPrivateKey cy privKey)) (\<lambda>b.
          Inr (conf\<lparr>tl_CertPEM := Some (cy_Encode cy blockTypeCert signedBytes), tl_KeyPEM := Some (cy_Encode cy blockTypeEC b)\<rparr>)))))))))"

subsection \<open>SetupTLS\<close>

definition fromFile :: "crypto \<Rightarrow> string \<Rightarrow> goerr + string option" where
  "fromFile cy name =
     (if name = '''' then Inr None
      else bindE (wrapE (''while reading file '' @ quoted name) (cy_ReadFile cy name)) (\<lambda>b. Inr (Some b)))"

definition VersionTLS13 :: int where "VersionTLS13 = 772"

definition cipherSuites :: "string list" where
  "cipherSuites =
     [''TLS_ECDHE_ECDSA_WITH_AES_128_GCM_SHA256'', ''TLS_ECDHE_RSA_WITH_AES_128_GCM_SHA256'',
      ''TLS_ECDHE_ECDSA_WITH_AES_256_GCM_SHA384'', ''TLS_ECDHE_RSA_WITH_AES_256_GCM_SHA384'',
      ''TLS_ECDHE_ECDSA_WITH_CHACHA20_POLY1305'', ''TLS_ECDHE_RSA_WITH_CHACHA20_POLY1305'',
      ''TLS_ECDHE_ECDSA_WITH_AES_128_CBC_SHA256'', ''TLS_ECDHE_RSA_WITH_AES_128_CBC_SHA256'',
      ''TLS_ECDHE_ECDSA_WITH_AES_128_CBC_SHA'', ''TLS_ECDHE_RSA_WITH_AES_128_CBC_SHA'',
      ''TLS_ECDHE_ECDSA_WITH_AES_256_CBC_SHA'', ''TLS_ECDHE_RSA_WITH_AES_256_CBC_SHA'',
      ''TLS_RSA_WITH_AES_128_GCM_SHA256'', ''TLS_RSA_WITH_AES_256_GCM_SHA384'',
      ''TLS_RSA_WITH_AES_128_CBC_SHA256'', ''TLS_RSA_WITH_AES_128_CBC_SHA'', ''TLS_RSA_WITH_AES_256_CBC_SHA'']"

definition serverDefaults :: "TLSConfig \<Rightarrow> tlsConf" where
  "serverDefaults conf =
     emptyTLS\<lparr>tls_CipherSuites := cipherSuites, tls_ClientAuth := tl_ClientAuth conf,
       tls_MinVersion := (if tl_MinVersion conf = 0 then VersionTLS13 else tl_MinVersion conf),
       tls_NextProtos := [''h2'', ''http/1.1'']\<rparr>"

definition loadFiles :: "crypto \<Rightarrow> TLSConfig \<Rightarrow> goerr + TLSConfig" where
  "loadFiles cy conf =
     bindE (fromFile cy (tl_CaFile conf)) (\<lambda>ca.
     bindE (fromFile cy (tl_CaKeyFile conf)) (\<lambda>caKey.
     bindE (fromFile cy (tl_KeyFile conf)) (\<lambda>key.
     bindE (fromFile cy (tl_CertFile conf)) (\<lambda>cert.
     bindE (fromFile cy (tl_ClientAuthCaFile conf)) (\<lambda>clientCa.
       Inr (conf\<lparr>tl_CaPEM := ca, tl_CaKeyPEM := caKey, tl_KeyPEM := key, tl_CertPEM := cert, tl_ClientAuthCaPEM := clientCa\<rparr>))))))"

definition generated :: "crypto \<Rightarrow> hostNet \<Rightarrow> TLSConfig \<Rightarrow> goerr + TLSConfig" where
  "generated cy net conf =
     (if \<not> tl_AutoTLS conf then Inr conf
      else bindE (wrapE ''while generating self signed CA certs'' (selfCA cy conf)) (\<lambda>conf.
           wrapE ''while generating self signed server certs'' (selfCert cy net conf)))"

definition onServer :: "(tlsConf \<Rightarrow> tlsConf) \<Rightarrow> TLSConfig \<Rightarrow> TLSConfig" where
  "onServer f conf = conf\<lparr>tl_ServerTLS := map_option f (tl_ServerTLS conf)\<rparr>"

definition onClient :: "(tlsConf \<Rightarrow> tlsConf) \<Rightarrow> TLSConfig \<Rightarrow> TLSConfig" where
  "onClient f conf = conf\<lparr>tl_ClientTLS := map_option f (tl_ClientTLS conf)\<rparr>"

definition withRoots :: "crypto \<Rightarrow> TLSConfig \<Rightarrow> TLSConfig" where
  "withRoots cy conf =
     (case tl_CaPEM conf of
        None \<Rightarrow> conf
      | Some pem \<Rightarrow>
          (let rootPool = (case cy_SystemCertPool cy of Inl _ \<Rightarrow> [] | Inr pool \<Rightarrow> pool) @ cy_certsIn cy pem
           in onClient (tls_RootCAs_update (\<lambda>_. Some rootPool)) (onServer (tls_RootCAs_update (\<lambda>_. Some rootPool)) conf)))"

type_synonym tlsSetup = "TLSConfig \<times> keypairReloader list"

definition withKeypair :: "crypto \<Rightarrow> tlsSetup \<Rightarrow> goerr + tlsSetup" where
  "withKeypair cy s =
     (case s of (conf, rs) \<Rightarrow>
        case (tl_KeyPEM conf, tl_CertPEM conf) of
          (Some key, Some cert) \<Rightarrow>
            bindE (wrapE ''while parsing server certificate and private key'' (cy_X509KeyPair cy cert key)) (\<lambda>serverCert.
              if tl_AutoTLS conf then
                Inr (onClient (tls_Certificates_update (\<lambda>_. [serverCert])) (onServer (tls_Certificates_update (\<lambda>_. [serverCert])) conf), rs)
              else
                bindE (wrapE ''error creating tls reloader'' (NewKeypairReloader cy (tl_CertFile conf) (tl_KeyFile conf))) (\<lambda>kpr.
                  Inr (onClient (tls_GetClientCertificate_update (\<lambda>_. Some (length rs)))
                        (onServer (tls_GetCertificate_update (\<lambda>_. Some (length rs))) conf), rs @ [kpr])))
        | _ \<Rightarrow> Inr (conf, rs))"

definition clientPool :: "crypto \<Rightarrow> TLSConfig \<Rightarrow> string list" where
  "clientPool cy conf =
     (case tl_ClientAuthCaPEM conf of
        Some pem \<Rightarrow> cy_certsIn cy pem
      | None \<Rightarrow> (case tl_CaPEM conf of Some pem \<Rightarrow> cy_certsIn cy pem | None \<Rightarrow> []))"

definition withClientAuth :: "crypto \<Rightarrow> tlsSetup \<Rightarrow> goerr + tlsSetup" where
  "withClientAuth cy s =
     (case s of (conf, rs) \<Rightarrow>
        if tl_ClientAuth conf = NoClientCert then Inr (conf, rs)
        else if clientPool cy conf = [] then Inl (Errorf (''client auth enabled, but no CA'' @ [CHR 0x27] @ ''s provided''))
        else
          (let conf' = onServer (tls_ClientCAs_update (\<lambda>_. Some (clientPool cy conf))) conf
           in if tl_ClientAuthCertFile conf \<noteq> '''' \<and> tl_ClientAuthKeyFile conf \<noteq> '''' then
                bindE (wrapE ''error creating tls reloader''
                         (NewKeypairReloader cy (tl_ClientAuthCertFile conf) (tl_ClientAuthKeyFile conf))) (\<lambda>kpr.
                  Inr (onClient (tls_GetClientCertificate_update (\<lambda>_. Some (length rs))) conf', rs @ [kpr]))
              else Inr (conf', rs)))"

text \<open>
  The configuration after a success, with the reloaders it refers to. A failure leaves the configuration
  partly filled in; its callers give up then. The defaults are pointers, and a nil pointer would panic.
\<close>

definition SetupTLS ::
  "(tlsConf option \<Rightarrow> tlsConf option \<Rightarrow> tlsConf option) \<Rightarrow> crypto \<Rightarrow> hostNet \<Rightarrow> TLSConfig option
   \<Rightarrow> goerr + TLSConfig option \<times> keypairReloader list" where
  "SetupTLS setDefault cy net c =
     (case c of
        None \<Rightarrow> Inr (None, [])
      | Some conf \<Rightarrow>
          if tl_ServerTLS conf \<noteq> None \<and> tl_ClientTLS conf \<noteq> None then Inr (Some conf, [])
          else
            (let conf = conf\<lparr>tl_ServerTLS := setDefault (tl_ServerTLS conf) (Some (serverDefaults conf)),
                             tl_ClientTLS := setDefault (tl_ClientTLS conf) (Some emptyTLS)\<rparr>
             in bindE (guardE (tl_ServerTLS conf \<noteq> None \<and> tl_ClientTLS conf \<noteq> None)
                        (Panic ''invalid memory address or nil pointer dereference'')) (\<lambda>_.
                bindE (loadFiles cy conf) (\<lambda>conf.
                bindE (generated cy net conf) (\<lambda>conf.
                bindE (withKeypair cy (withRoots cy conf, [])) (\<lambda>s.
                bindE (withClientAuth cy s) (\<lambda>(conf, rs).
                  Inr (Some (onClient (\<lambda>t. t\<lparr>tls_ServerName := tl_ClientAuthServerName conf,
                                            tls_InsecureSkipVerify := tl_InsecureSkipVerify conf\<rparr>) conf), rs))))))))"

definition good_default :: "('a option \<Rightarrow> 'a option \<Rightarrow> 'a option) \<Rightarrow> bool" where
  "good_default f \<longleftrightarrow> (\<forall>x d. f (Some x) d = Some x) \<and> (\<forall>d. f None (Some d) = Some d)"

subsection \<open>What the steps keep\<close>

lemma onServer_simps [simp]:
  "tl_ServerTLS (onServer f c) = map_option f (tl_ServerTLS c)" "tl_ClientTLS (onServer f c) = tl_ClientTLS c"
  "tl_ClientAuth (onServer f c) = tl_ClientAuth c" "tl_CaPEM (onServer f c) = tl_CaPEM c" "tl_ClientAuthCaPEM (onServer f c) = tl_ClientAuthCaPEM c"
  "tl_AutoTLS (onServer f c) = tl_AutoTLS c" "tl_KeyPEM (onServer f c) = tl_KeyPEM c" "tl_CertPEM (onServer f c) = tl_CertPEM c"
  "tl_CertFile (onServer f c) = tl_CertFile c" "tl_KeyFile (onServer f c) = tl_KeyFile c"
  by (simp_all add: onServer_def)

lemma onClient_simps [simp]:
  "tl_ClientTLS (onClient f c) = map_option f (tl_ClientTLS c)" "tl_ServerTLS (onClient f c) = tl_ServerTLS c"
  "tl_ClientAuth (onClient f c) = tl_ClientAuth c" "tl_CaPEM (onClient f c) = tl_CaPEM c" "tl_ClientAuthCaPEM (onClient f c) = tl_ClientAuthCaPEM c"
  "tl_AutoTLS (onClient f c) = tl_AutoTLS c" "tl_KeyPEM (onClient f c) = tl_KeyPEM c" "tl_CertPEM (onClient f c) = tl_CertPEM c"
  "tl_CertFile (onClient f c) = tl_CertFile c" "tl_KeyFile (onClient f c) = tl_KeyFile c"
  by (simp_all add: onClient_def)

text \<open>What no step after the loading of the files changes: the policy of the server and the pools' sources.\<close>

definition samePolicy :: "TLSConfig \<Rightarrow> TLSConfig \<Rightarrow> bool" where
  "samePolicy c c' \<longleftrightarrow>
     tl_ClientAuth c' = tl_ClientAuth c \<and> tl_ClientAuthCaPEM c' = tl_ClientAuthCaPEM c \<and>
     map_option tls_ClientAuth (tl_ServerTLS c') = map_option tls_ClientAuth (tl_ServerTLS c) \<and>
     map_option tls_MinVersion (tl_ServerTLS c') = map_option tls_MinVersion (tl_ServerTLS c)"

lemma samePolicy_trans: "samePolicy a b \<Longrightarrow> samePolicy b c \<Longrightarrow> samePolicy a c"
  by (simp add: samePolicy_def)

lemma fromFile_iff:
  "fromFile cy name = Inr p \<longleftrightarrow> (if name = '''' then p = None else \<exists>b. p = Some b \<and> cy_ReadFile cy name = Inr b)"
  by (auto simp: fromFile_def bindE_Inr_iff)

lemma loadFiles_ok:
  assumes "loadFiles cy c = Inr c'"
  shows "fromFile cy (tl_CaFile c) = Inr (tl_CaPEM c')" "fromFile cy (tl_CaKeyFile c) = Inr (tl_CaKeyPEM c')"
    "fromFile cy (tl_ClientAuthCaFile c) = Inr (tl_ClientAuthCaPEM c')"
    "tl_AutoTLS c' = tl_AutoTLS c" "tl_ClientAuth c' = tl_ClientAuth c" "tl_ServerTLS c' = tl_ServerTLS c" "tl_ClientTLS c' = tl_ClientTLS c"
  using assms by (auto simp: loadFiles_def bindE_Inr_iff)

lemma selfCA_ok:
  assumes "selfCA cy c = Inr c'"
  shows "samePolicy c c'" "tl_CaPEM c' \<noteq> None" "tl_CaKeyPEM c' \<noteq> None"
    "tl_CaPEM c \<noteq> None \<and> tl_CaKeyPEM c \<noteq> None \<Longrightarrow> c' = c"
  using assms by (auto simp: selfCA_def bindE_Inr_iff samePolicy_def split: if_splits)

lemma selfCert_ok:
  assumes "selfCert cy net c = Inr c'"
  shows "samePolicy c c'" "tl_CaPEM c' = tl_CaPEM c"
  using assms by (auto simp: selfCert_def bindE_Inr_iff samePolicy_def split: if_splits)

text \<open>The authority that signs the certificate of the server is always there: the nil buffers are not reached.\<close>

lemma selfCert_has_signer:
  assumes "selfCA cy c = Inr c'"
  obtains pem key where "signingCA cy c' = wrapE ''while reading generated PEMs'' (cy_X509KeyPair cy pem key)"
  using selfCA_ok(2,3) [OF assms] that by (auto simp: signingCA_def)

lemma generated_ok:
  assumes "generated cy net c = Inr c'"
  shows "samePolicy c c'" "tl_AutoTLS c \<and> (tl_CaPEM c = None \<or> tl_CaKeyPEM c = None) \<or> tl_CaPEM c' = tl_CaPEM c"
proof -
  consider "c' = c" | c1 where "selfCA cy c = Inr c1" "selfCert cy net c1 = Inr c'" "tl_AutoTLS c"
    using assms by (auto simp: generated_def bindE_Inr_iff split: if_splits)
  then have "samePolicy c c' \<and> (tl_AutoTLS c \<and> (tl_CaPEM c = None \<or> tl_CaKeyPEM c = None) \<or> tl_CaPEM c' = tl_CaPEM c)"
  proof cases
    case 2
    then show ?thesis
      using selfCA_ok(1,4) [OF 2(1)] selfCert_ok [OF 2(2)] by (metis samePolicy_trans)
  qed (simp add: samePolicy_def)
  then show "samePolicy c c'" "tl_AutoTLS c \<and> (tl_CaPEM c = None \<or> tl_CaKeyPEM c = None) \<or> tl_CaPEM c' = tl_CaPEM c" by simp_all
qed

lemma withRoots_ok: "samePolicy c (withRoots cy c)" "tl_CaPEM (withRoots cy c) = tl_CaPEM c"
  by (auto simp: withRoots_def samePolicy_def Let_def option.map_comp comp_def split: option.splits)

lemma withKeypair_ok:
  assumes "withKeypair cy (c, rs) = Inr (c', rs')"
  shows "samePolicy c c'" "tl_CaPEM c' = tl_CaPEM c"
  using assms by (auto simp: withKeypair_def bindE_Inr_iff samePolicy_def option.map_comp comp_def split: option.splits if_splits)

lemma withClientAuth_ok:
  assumes "withClientAuth cy (c, rs) = Inr (c', rs')" "tl_ClientAuth c \<noteq> NoClientCert"
  shows "samePolicy c c'" "tl_CaPEM c' = tl_CaPEM c" "clientPool cy c \<noteq> []"
    "\<And>s. tl_ServerTLS c = Some s \<Longrightarrow> tl_ServerTLS c' = Some (s\<lparr>tls_ClientCAs := Some (clientPool cy c)\<rparr>)"
  using assms by (auto simp: withClientAuth_def bindE_Inr_iff samePolicy_def option.map_comp comp_def Let_def split: if_splits)

subsection \<open>Client authentication\<close>

lemma SetupTLS_client_auth:
  assumes "good_default setDefault" "tl_ServerTLS conf = None" "tl_ClientAuth conf \<noteq> NoClientCert"
    "SetupTLS setDefault cy net (Some conf) = Inr (Some conf', rs)"
  obtains c c1 c2 c3 s where "loadFiles cy c = Inr c1" "generated cy net c1 = Inr c2" "samePolicy c1 c3" "tl_CaPEM c3 = tl_CaPEM c2"
    "tl_CaFile c = tl_CaFile conf" "tl_CaKeyFile c = tl_CaKeyFile conf" "tl_ClientAuthCaFile c = tl_ClientAuthCaFile conf" "tl_AutoTLS c = tl_AutoTLS conf"
    "tl_ServerTLS conf' = Some s" "tls_ClientAuth s = tl_ClientAuth conf" "tls_ClientCAs s = Some (clientPool cy c3)" "clientPool cy c3 \<noteq> []"
    "tls_MinVersion s = (if tl_MinVersion conf = 0 then VersionTLS13 else tl_MinVersion conf)" "tl_CaPEM conf' = tl_CaPEM c2"
proof -
  let ?c = "conf\<lparr>tl_ServerTLS := setDefault (tl_ServerTLS conf) (Some (serverDefaults conf)),
                  tl_ClientTLS := setDefault (tl_ClientTLS conf) (Some emptyTLS)\<rparr>"
  let ?fin = "\<lambda>conf. onClient (\<lambda>t. t\<lparr>tls_ServerName := tl_ClientAuthServerName conf,
                                            tls_InsecureSkipVerify := tl_InsecureSkipVerify conf\<rparr>) conf"
  have d: "tl_ServerTLS ?c = Some (serverDefaults conf)" using assms(1,2) by (simp add: good_default_def)
  from assms obtain c1 c2 c3 rs3 c4 where
    1: "loadFiles cy ?c = Inr c1" and 2: "generated cy net c1 = Inr c2" and
    3: "withKeypair cy (withRoots cy c2, []) = Inr (c3, rs3)" and 4: "withClientAuth cy (c3, rs3) = Inr (c4, rs)" and
    5: "conf' = ?fin c4"
    by (auto simp: SetupTLS_def bindE_Inr_iff Let_def)
  note L = loadFiles_ok [OF 1]
  have pol: "samePolicy c1 c3" "tl_CaPEM c3 = tl_CaPEM c2"
    using generated_ok(1) [OF 2] withRoots_ok [where c = c2 and cy = cy] withKeypair_ok [OF 3] by (auto dest: samePolicy_trans)
  have "tl_ServerTLS c1 = Some (serverDefaults conf)" "tl_ClientAuth c1 = tl_ClientAuth conf" using L d by simp_all
  with pol(1) obtain s where s: "tl_ServerTLS c3 = Some s" "tls_ClientAuth s = tl_ClientAuth conf"
      "tls_MinVersion s = (if tl_MinVersion conf = 0 then VersionTLS13 else tl_MinVersion conf)" "tl_ClientAuth c3 = tl_ClientAuth conf"
    by (auto simp: samePolicy_def serverDefaults_def)
  from s(4) assms(3) have "tl_ClientAuth c3 \<noteq> NoClientCert" by simp
  note W = withClientAuth_ok [OF 4 this]
  have "tl_ServerTLS conf' = Some (s\<lparr>tls_ClientCAs := Some (clientPool cy c3)\<rparr>)" using 5 W(4) [OF s(1)] by simp
  from that [OF 1 2 pol _ _ _ _ this] show thesis using s(2,3) W(2,3) 5 pol(2) by simp
qed

text \<open>
  C0. Client authentication is never dropped silently: whenever the set-up succeeds with a client
  authentication type, the server asks for certificates of that type, its pool of client authorities is
  not empty, and it holds exactly the certificates of \<^verbatim>\<open>ClientAuthCaFile\<close>, or of the CA when that file is
  not given; the CA is the one of \<^verbatim>\<open>CaFile\<close> unless one had to be generated.
\<close>

theorem client_auth_enforced:
  assumes "good_default setDefault" "tl_ServerTLS conf = None" "tl_ClientAuth conf \<noteq> NoClientCert"
    "SetupTLS setDefault cy net (Some conf) = Inr (Some conf', rs)"
  shows "\<exists>s pem. tl_ServerTLS conf' = Some s \<and> tls_ClientAuth s = tl_ClientAuth conf
    \<and> tls_MinVersion s = (if tl_MinVersion conf = 0 then VersionTLS13 else tl_MinVersion conf)
    \<and> tls_ClientCAs s = Some (cy_certsIn cy pem) \<and> cy_certsIn cy pem \<noteq> []
    \<and> (if tl_ClientAuthCaFile conf \<noteq> '''' then cy_ReadFile cy (tl_ClientAuthCaFile conf) = Inr pem
        else tl_CaPEM conf' = Some pem \<and>
             (tl_CaFile conf \<noteq> '''' \<and> (tl_CaKeyFile conf \<noteq> '''' \<or> \<not> tl_AutoTLS conf) \<longrightarrow> cy_ReadFile cy (tl_CaFile conf) = Inr pem))"
proof -
  from assms obtain c c1 c2 c3 s where 1: "loadFiles cy c = Inr c1" and 2: "generated cy net c1 = Inr c2"
    and pol: "samePolicy c1 c3" "tl_CaPEM c3 = tl_CaPEM c2"
    and c: "tl_CaFile c = tl_CaFile conf" "tl_CaKeyFile c = tl_CaKeyFile conf" "tl_ClientAuthCaFile c = tl_ClientAuthCaFile conf" "tl_AutoTLS c = tl_AutoTLS conf"
    and s: "tl_ServerTLS conf' = Some s" "tls_ClientAuth s = tl_ClientAuth conf" "tls_ClientCAs s = Some (clientPool cy c3)" "clientPool cy c3 \<noteq> []"
      "tls_MinVersion s = (if tl_MinVersion conf = 0 then VersionTLS13 else tl_MinVersion conf)" "tl_CaPEM conf' = tl_CaPEM c2"
    by (rule SetupTLS_client_auth)
  note L = loadFiles_ok [OF 1]
  obtain pem where pem: "clientPool cy c3 = cy_certsIn cy pem"
      "tl_ClientAuthCaPEM c1 = Some pem \<or> tl_ClientAuthCaPEM c1 = None \<and> tl_CaPEM c2 = Some pem"
    using s(4) pol by (auto simp: clientPool_def samePolicy_def split: option.splits)
  have "if tl_ClientAuthCaFile conf \<noteq> '''' then cy_ReadFile cy (tl_ClientAuthCaFile conf) = Inr pem
        else tl_CaPEM conf' = Some pem \<and>
             (tl_CaFile conf \<noteq> '''' \<and> (tl_CaKeyFile conf \<noteq> '''' \<or> \<not> tl_AutoTLS conf) \<longrightarrow> cy_ReadFile cy (tl_CaFile conf) = Inr pem)"
    using L generated_ok(2) [OF 2] pem(2) s(6) c by (auto simp: fromFile_iff split: if_splits)
  with s pem(1) show ?thesis by (intro exI [of _ s] exI [of _ pem]) simp
qed

definition sampleCrypto :: crypto where
  "sampleCrypto =
     \<lparr>cy_now = \<lparr>t_ns = 0, t_loc = UTC\<rparr>, cy_ReadFile = (\<lambda>n. Inr (''contents of '' @ n)), cy_SystemCertPool = Inr [],
      cy_certsIn = (\<lambda>p. [p]), cy_X509KeyPair = (\<lambda>c k. Inr \<lparr>ce_chain = [c], ce_PrivateKey = k\<rparr>),
      cy_GenerateKey = (\<lambda>i. Inr (if i = 0 then ''key 0'' else ''key 1'')), cy_CreateCertificate = (\<lambda>t p k s. Inr (''signed with '' @ s)),
      cy_ParseCertificate = (\<lambda>c. Inr (caTemplate \<lparr>t_ns = 0, t_loc = UTC\<rparr>)),
      cy_MarshalECPrivateKey = (\<lambda>k. Inr k), cy_Encode = (\<lambda>t b. t @ b)\<rparr>"

definition sampleTLS :: TLSConfig where
  "sampleTLS =
     \<lparr>tl_CaFile = ''ca.pem'', tl_CaKeyFile = '''', tl_KeyFile = ''key.pem'', tl_CertFile = ''cert.pem'', tl_AutoTLS = False, tl_MinVersion = 0,
      tl_ClientAuth = RequireAndVerifyClientCert, tl_ClientAuthCaFile = '''', tl_ClientAuthKeyFile = '''', tl_ClientAuthCertFile = '''',
      tl_InsecureSkipVerify = False, tl_CaPEM = None, tl_CaKeyPEM = None, tl_KeyPEM = None, tl_CertPEM = None, tl_ClientAuthCaPEM = None,
      tl_ClientAuthServerName = '''', tl_ServerTLS = None, tl_ClientTLS = None\<rparr>"

definition sampleNet :: hostNet where
  "sampleNet = \<lparr>hn_Hostname = Inr ''host'', hn_LookupHost = (\<lambda>_. Inr [''10.0.0.1'']), hn_LookupAddr = (\<lambda>_. []), hn_Interfaces = Inr []\<rparr>"

definition stdDefault :: "'a option \<Rightarrow> 'a option \<Rightarrow> 'a option" where
  "stdDefault x d = (case x of None \<Rightarrow> d | Some _ \<Rightarrow> x)"

lemma good_stdDefault: "good_default stdDefault"
  by (simp add: good_default_def stdDefault_def)

text \<open>A server that requires and verifies certificates against its own CA.\<close>

theorem client_auth_enforced_witness:
  "\<exists>conf' rs s. SetupTLS stdDefault sampleCrypto sampleNet (Some sampleTLS) = Inr (Some conf', rs)
     \<and> tl_ServerTLS conf' = Some s \<and> tls_ClientAuth s = RequireAndVerifyClientCert \<and> tls_ClientCAs s = Some [''contents of ca.pem'']"
proof -
  obtain conf' rs where ok: "SetupTLS stdDefault sampleCrypto sampleNet (Some sampleTLS) = Inr (Some conf', rs)"
    by (simp add: SetupTLS_def stdDefault_def sampleTLS_def sampleCrypto_def loadFiles_def fromFile_def generated_def withRoots_def
        withKeypair_def withClientAuth_def clientPool_def NewKeypairReloader_def LoadX509KeyPair_def wrapE_def guardE_def onServer_def onClient_def Let_def)
  have "tl_ServerTLS sampleTLS = None" "tl_ClientAuth sampleTLS \<noteq> NoClientCert" by (simp_all add: sampleTLS_def)
  from client_auth_enforced [OF good_stdDefault this ok] ok show ?thesis by (auto simp: sampleTLS_def sampleCrypto_def)
qed

subsection \<open>Certificates in memory\<close>

text \<open>
  C0. Certificates and keys given in memory are not used: what the set-up does with a configuration does
  not depend on its PEM buffers, although they are documented as used when the file is not set.
\<close>

theorem pem_buffers_ignored:
  assumes "tl_ServerTLS conf = None \<or> tl_ClientTLS conf = None"
  shows "SetupTLS setDefault cy net (Some (conf\<lparr>tl_CaPEM := ca, tl_CaKeyPEM := caKey, tl_KeyPEM := key, tl_CertPEM := cert, tl_ClientAuthCaPEM := clientCa\<rparr>))
       = SetupTLS setDefault cy net (Some conf)"
proof -
  let ?c = "conf\<lparr>tl_CaPEM := ca, tl_CaKeyPEM := caKey, tl_KeyPEM := key, tl_CertPEM := cert, tl_ClientAuthCaPEM := clientCa\<rparr>"
  have L: "loadFiles cy (?c\<lparr>tl_ServerTLS := s, tl_ClientTLS := c\<rparr>) = loadFiles cy (conf\<lparr>tl_ServerTLS := s, tl_ClientTLS := c\<rparr>)" for s c
    by (simp add: loadFiles_def)
  have D: "serverDefaults ?c = serverDefaults conf" by (simp add: serverDefaults_def)
  from assms show ?thesis by (elim disjE) (simp_all add: SetupTLS_def L D)
qed

text \<open>A key pair given in memory leaves the server without a certificate.\<close>

theorem pem_buffers_ignored_witness:
  "SetupTLS stdDefault sampleCrypto sampleNet
     (Some (sampleTLS\<lparr>tl_KeyFile := '''', tl_CertFile := '''', tl_ClientAuth := NoClientCert,
              tl_CaPEM := None, tl_CaKeyPEM := None, tl_KeyPEM := Some ''key'', tl_CertPEM := Some ''cert'', tl_ClientAuthCaPEM := None\<rparr>))
   = SetupTLS stdDefault sampleCrypto sampleNet (Some (sampleTLS\<lparr>tl_KeyFile := '''', tl_CertFile := '''', tl_ClientAuth := NoClientCert\<rparr>))"
  by (rule pem_buffers_ignored) (simp add: sampleTLS_def)

subsection \<open>Reloading\<close>

text \<open>
  A server with a certificate of its own reloads it: the certificate it presents is the one loaded from its
  files at the start or at a later signal, and a signal at which the files cannot be loaded keeps it.
\<close>

lemma sighup_nth:
  "i < length rs \<Longrightarrow> length (sighup cy rs) = length rs \<and> kr_certPath (sighup cy rs ! i) = kr_certPath (rs ! i)
    \<and> kr_keyPath (sighup cy rs ! i) = kr_keyPath (rs ! i)
    \<and> kr_cert (sighup cy rs ! i) =
        (case LoadX509KeyPair cy (kr_certPath (rs ! i)) (kr_keyPath (rs ! i)) of Inl _ \<Rightarrow> kr_cert (rs ! i) | Inr c \<Rightarrow> c)"
  by (simp add: sighup_def maybeReload_def split: sum.splits)

lemma reloaded_certificate:
  assumes "i < length rs"
  shows "GetCertificateFunc i (fold sighup cys rs) = GetCertificateFunc i rs \<or>
    (\<exists>cy \<in> set cys. LoadX509KeyPair cy (kr_certPath (rs ! i)) (kr_keyPath (rs ! i)) = Inr (GetCertificateFunc i (fold sighup cys rs)))"
  using assms
proof (induction cys arbitrary: rs)
  case (Cons cy cys)
  note n = sighup_nth [OF Cons.prems, of cy]
  with Cons.IH [of "sighup cy rs"] Cons.prems show ?case
    by (auto simp: GetCertificateFunc_def split: sum.splits)
qed simp

end
