(* ===== verification/Etcd.thy ===== *)
theory Etcd
  imports Tls Config
begin

text \<open>
  Discovery of peers through etcd, \<^verbatim>\<open>etcd.go\<close>: the registration of an instance with its lease and
  keep-alive, and the watch that keeps the list of peers. The etcd client is not part of the repository:
  the results of its calls are parameters, as is the JSON encoding of a peer.
\<close>

subsection \<open>Configuration and state\<close>

definition etcdTimeout :: i64 where
  "etcdTimeout = 10 * ns_per_s"

definition backOffTimeout :: i64 where
  "backOffTimeout = 5 * ns_per_s"

definition leaseTTL :: int where
  "leaseTTL = 30"

definition defaultBaseKey :: string where
  "defaultBaseKey = ''/gubernator/peers/''"

record EtcdPoolConfig =
  et_Advertise :: PeerInfo
  et_hasClient :: bool
  et_KeyPrefix :: string
  et_Endpoints :: "string list"
  et_DialTimeout :: i64
  et_Username :: string
  et_Password :: string
  et_TLS :: "tlsConf option"

text \<open>The last list handed to \<^verbatim>\<open>OnUpdate\<close> comes first; \<^verbatim>\<open>ep_watches\<close> counts the watches that were started.\<close>

record EtcdPool =
  ep_peers :: "(string \<times> PeerInfo) list"
  ep_conf :: EtcdPoolConfig
  ep_cancelled :: bool
  ep_watches :: nat
  ep_updates :: "PeerInfo list list"

subsection \<open>The list of peers\<close>

definition addressOnly :: "string \<Rightarrow> PeerInfo" where
  "addressOnly a = \<lparr>pi_DataCenter = [], pi_HTTPAddress = [], pi_GRPCAddress = a, pi_IsOwner = False\<rparr>"

definition unMarshallValue :: "(string \<Rightarrow> goerr + PeerInfo) \<Rightarrow> string \<Rightarrow> PeerInfo" where
  "unMarshallValue json v = (case json v of Inl e \<Rightarrow> addressOnly v | Inr p \<Rightarrow> p)"

definition markOwner :: "string \<Rightarrow> PeerInfo \<Rightarrow> PeerInfo" where
  "markOwner own p = (if pi_GRPCAddress p = own then p\<lparr>pi_IsOwner := True\<rparr> else p)"

definition callOnUpdateEtcd :: "EtcdPool \<Rightarrow> EtcdPool" where
  "callOnUpdateEtcd e =
     e\<lparr>ep_updates := map (markOwner (pi_GRPCAddress (et_Advertise (ep_conf e))) \<circ> snd) (ep_peers e) # ep_updates e\<rparr>"

definition fetchError :: "string \<Rightarrow> goerr \<Rightarrow> goerr" where
  "fetchError prefix e = WrapErr (''while fetching peer listing from '' @ quoted prefix) e"

definition putValue :: "(string \<Rightarrow> goerr + PeerInfo) \<Rightarrow> string \<Rightarrow> (string \<times> PeerInfo) list \<Rightarrow> (string \<times> PeerInfo) list" where
  "putValue json v peers = (let p = unMarshallValue json v in AList.update (pi_GRPCAddress p) p peers)"

definition peersOf :: "(string \<Rightarrow> goerr + PeerInfo) \<Rightarrow> string list \<Rightarrow> (string \<times> PeerInfo) list" where
  "peersOf json values = fold (putValue json) values []"

definition collectPeers ::
  "(string \<Rightarrow> goerr + PeerInfo) \<Rightarrow> (string \<Rightarrow> goerr + string list \<times> int) \<Rightarrow> EtcdPool \<Rightarrow> (goerr + int) \<times> EtcdPool" where
  "collectPeers json getPrefix e =
     (case getPrefix (et_KeyPrefix (ep_conf e)) of
        Inl err \<Rightarrow> (Inl (fetchError (et_KeyPrefix (ep_conf e)) err), e)
      | Inr (values, revision) \<Rightarrow> (Inr revision, callOnUpdateEtcd (e\<lparr>ep_peers := peersOf json values\<rparr>)))"

definition GetPeers ::
  "(string \<Rightarrow> goerr + PeerInfo) \<Rightarrow> (string \<Rightarrow> goerr + string list \<times> int) \<Rightarrow> EtcdPool \<Rightarrow> goerr + PeerInfo list" where
  "GetPeers json getPrefix e =
     (case getPrefix (et_KeyPrefix (ep_conf e)) of
        Inl err \<Rightarrow> Inl (fetchError (et_KeyPrefix (ep_conf e)) err)
      | Inr (values, _) \<Rightarrow> Inr (map (unMarshallValue json) values))"

subsection \<open>Watching\<close>

text \<open>Whether the new watch is there within the timeout is a parameter.\<close>

definition watchPeers ::
  "(string \<Rightarrow> goerr + PeerInfo) \<Rightarrow> (string \<Rightarrow> goerr + string list \<times> int) \<Rightarrow> bool \<Rightarrow> EtcdPool \<Rightarrow> (goerr + unit) \<times> EtcdPool" where
  "watchPeers json getPrefix ready e =
     (case collectPeers json getPrefix e of
        (Inl err, e') \<Rightarrow> (Inl err, e')
      | (Inr _, e') \<Rightarrow>
          (let e' = e'\<lparr>ep_watches := Suc (ep_watches e')\<rparr>
           in if ready then (Inr (), e')
              else (Inl (Errorf ''timed out while waiting for watcher.Watch() to start''), e')))"

text \<open>
  The responses of a watch: it was cancelled, it failed, or something changed (with what a listing
  returns then). \<^term>\<open>None\<close> is the graceful end of the watch; otherwise it has to be restarted.
\<close>

datatype watchResponse = WatchCanceled | WatchError goerr | WatchChange "string \<Rightarrow> goerr + string list \<times> int"

fun watchResponses :: "(string \<Rightarrow> goerr + PeerInfo) \<Rightarrow> watchResponse list \<Rightarrow> EtcdPool \<Rightarrow> bool \<times> EtcdPool" where
  "watchResponses json [] e = (True, e)"
| "watchResponses json (WatchCanceled # rs) e = (False, e)"
| "watchResponses json (WatchError err # rs) e = (True, e)"
| "watchResponses json (WatchChange getPrefix # rs) e = watchResponses json rs (snd (collectPeers json getPrefix e))"

text \<open>One turn of the loop: whether it goes on, and the pool. A failed restart backs off.\<close>

definition watchTurn ::
  "(string \<Rightarrow> goerr + PeerInfo) \<Rightarrow> watchResponse list \<Rightarrow> bool \<Rightarrow> (string \<Rightarrow> goerr + string list \<times> int) \<Rightarrow> bool
   \<Rightarrow> bool \<Rightarrow> EtcdPool \<Rightarrow> bool \<times> EtcdPool" where
  "watchTurn json responses shutdown getPrefix ready doneWhileBackingOff e =
     (case watchResponses json responses e of
        (False, e') \<Rightarrow> (False, e')
      | (True, e') \<Rightarrow>
          if shutdown \<or> ep_cancelled e' then (False, e')
          else (case watchPeers json getPrefix ready e' of
                  (Inl err, e'') \<Rightarrow> (\<not> doneWhileBackingOff, e'')
                | (Inr _, e'') \<Rightarrow> (True, e'')))"

definition watchEtcd ::
  "(string \<Rightarrow> goerr + PeerInfo) \<Rightarrow> (string \<Rightarrow> goerr + string list \<times> int) \<Rightarrow> bool \<Rightarrow> EtcdPool \<Rightarrow> (goerr + unit) \<times> EtcdPool" where
  "watchEtcd json getPrefix ready e =
     (case watchPeers json getPrefix ready e of
        (Inl err, e') \<Rightarrow> (Inl (WrapErr ''while attempting to start watch'' err), e')
      | (Inr _, e') \<Rightarrow> (Inr (), e'))"

subsection \<open>Registration\<close>

text \<open>The calls of one registration: grant of a lease, put of the peer, keep-alive of the lease.\<close>

record registerCalls =
  rc_Grant :: "goerr option"
  rc_Put :: "goerr option"
  rc_KeepAlive :: "goerr option"

definition registerOnce :: "registerCalls \<Rightarrow> goerr option" where
  "registerOnce rc =
     (case rc_Grant rc of
        Some e \<Rightarrow> Some (WrapErr ''during grant lease'' e)
      | None \<Rightarrow> (case rc_Put rc of Some e \<Rightarrow> Some (WrapErr ''during put'' e) | None \<Rightarrow> rc_KeepAlive rc))"

text \<open>
  The keep-alive loop: whether there is a keep-alive channel, the time of the last beat, how often the
  instance was registered, and whether its key was deleted at the end.
\<close>

record keepState =
  ks_keepAlive :: bool
  ks_last :: Time
  ks_registered :: nat
  ks_deleted :: bool

datatype keepEvent = Beat Time | BeatsLost | StopKeeping

definition zeroTime :: Time where
  "zeroTime = \<lparr>t_ns = - (62135596800 * ns_per_s), t_loc = UTC\<rparr>"

text \<open>A turn of the loop: whether it goes on, and the new state.\<close>

definition keepTurn ::
  "bool \<Rightarrow> registerCalls \<Rightarrow> bool \<Rightarrow> keepEvent \<Rightarrow> keepState \<Rightarrow> bool \<times> keepState" where
  "keepTurn cancelled rc doneWhileBackingOff ev k =
     (if \<not> ks_keepAlive k \<and> registerOnce rc \<noteq> None then (\<not> doneWhileBackingOff, k)
      else
        (let k = (if ks_keepAlive k then k else k\<lparr>ks_keepAlive := True, ks_registered := Suc (ks_registered k)\<rparr>)
         in case ev of
              BeatsLost \<Rightarrow> if cancelled then (True, k) else (True, k\<lparr>ks_keepAlive := False\<rparr>)
            | Beat now \<Rightarrow>
                if Sub_dur (ks_last k) now > leaseTTL * ns_per_s then (True, k\<lparr>ks_keepAlive := False\<rparr>)
                else (True, k\<lparr>ks_last := now\<rparr>)
            | StopKeeping \<Rightarrow> (False, k\<lparr>ks_deleted := True\<rparr>)))"

definition registerEtcd :: "registerCalls \<Rightarrow> goerr + keepState" where
  "registerEtcd rc =
     (case registerOnce rc of
        Some e \<Rightarrow> Inl (WrapErr ''during initial peer registration'' e)
      | None \<Rightarrow> Inr \<lparr>ks_keepAlive = True, ks_last = zeroTime, ks_registered = 1, ks_deleted = False\<rparr>)"

definition instanceKey :: "EtcdPool \<Rightarrow> string" where
  "instanceKey e = et_KeyPrefix (ep_conf e) @ pi_GRPCAddress (et_Advertise (ep_conf e))"

subsection \<open>The pool\<close>

definition NewEtcdPool ::
  "Setter \<Rightarrow> (string \<Rightarrow> goerr + PeerInfo) \<Rightarrow> registerCalls \<Rightarrow> (string \<Rightarrow> goerr + string list \<times> int) \<Rightarrow> bool
   \<Rightarrow> EtcdPoolConfig \<Rightarrow> goerr + EtcdPool \<times> keepState" where
  "NewEtcdPool st json rc getPrefix ready conf =
     (let conf = conf\<lparr>et_KeyPrefix := sd_str st (et_KeyPrefix conf) [defaultBaseKey]\<rparr>
      in if pi_GRPCAddress (et_Advertise conf) = [] then Inl (Errorf ''Advertise.GRPCAddress is required'')
         else if \<not> et_hasClient conf then Inl (Errorf ''Client is required'')
         else bindE (registerEtcd rc) (\<lambda>k.
              (case watchEtcd json getPrefix ready \<lparr>ep_peers = [], ep_conf = conf, ep_cancelled = False, ep_watches = 0, ep_updates = []\<rparr> of
                 (Inl err, _) \<Rightarrow> Inl err
               | (Inr _, e) \<Rightarrow> Inr (e, k))))"

definition CloseEtcd :: "EtcdPool option \<Rightarrow> EtcdPool option" where
  "CloseEtcd p = (case p of None \<Rightarrow> None | Some e \<Rightarrow> Some (e\<lparr>ep_cancelled := True\<rparr>))"

subsection \<open>One peer per address\<close>

lemma putValue_ok:
  fixes m :: "(string \<times> PeerInfo) list"
  defines "P \<equiv> \<lambda>m. distinct (map fst m) \<and> (\<forall>(a, p) \<in> set m. a = pi_GRPCAddress p)"
  assumes "P m"
  shows "P (fold (putValue json) vs m) \<and> fst ` set (fold (putValue json) vs m) =
      fst ` set m \<union> (\<lambda>v. pi_GRPCAddress (unMarshallValue json v)) ` set vs
    \<and> snd ` set (fold (putValue json) vs m) \<subseteq> snd ` set m \<union> unMarshallValue json ` set vs"
  using assms(2)
proof (induction vs arbitrary: m)
  case (Cons v vs)
  let ?p = "unMarshallValue json v" and ?m = "putValue json v m"
  have sub: "set ?m \<subseteq> insert (pi_GRPCAddress ?p, ?p) (set m)" unfolding putValue_def Let_def by (induction m) auto
  then have "P ?m" using Cons.prems by (auto simp: P_def putValue_def distinct_update Let_def)
  note IH = Cons.IH [OF this]
  have "fst ` set ?m = insert (pi_GRPCAddress ?p) (fst ` set m)" by (simp add: putValue_def dom_update Let_def)
  then have f: "fst ` set (fold (putValue json) (v # vs) m)
      = fst ` set m \<union> (\<lambda>v. pi_GRPCAddress (unMarshallValue json v)) ` set (v # vs)"
    using conjunct1 [OF conjunct2 [OF IH]] by auto
  have "snd ` set ?m \<subseteq> insert ?p (snd ` set m)" using sub by auto
  then have "snd ` set (fold (putValue json) (v # vs) m) \<subseteq> snd ` set m \<union> unMarshallValue json ` set (v # vs)"
    using conjunct2 [OF conjunct2 [OF IH]] unfolding fold_Cons comp_apply list.set image_insert by blast
  then show ?case using f conjunct1 [OF IH] unfolding fold_Cons comp_apply by blast
qed simp

lemma peersOf_ok:
  "distinct (map fst (peersOf json vs)) \<and> (\<forall>(a, p) \<in> set (peersOf json vs). a = pi_GRPCAddress p)
   \<and> fst ` set (peersOf json vs) = (\<lambda>v. pi_GRPCAddress (unMarshallValue json v)) ` set vs
   \<and> snd ` set (peersOf json vs) \<subseteq> unMarshallValue json ` set vs"
  using putValue_ok [of "[]" json vs] unfolding peersOf_def by simp

text \<open>A listing hands over one peer for every address that is registered, and marks the own one.\<close>

lemma collectPeers_update:
  assumes "getPrefix (et_KeyPrefix (ep_conf e)) = Inr (values, revision)" "collectPeers json getPrefix e = (res, e')"
  shows "distinct (map pi_GRPCAddress (hd (ep_updates e')))
    \<and> pi_GRPCAddress ` set (hd (ep_updates e')) = (\<lambda>v. pi_GRPCAddress (unMarshallValue json v)) ` set values
    \<and> (\<forall>p \<in> set (hd (ep_updates e')). \<exists>v \<in> set values. p = markOwner (pi_GRPCAddress (et_Advertise (ep_conf e))) (unMarshallValue json v))"
proof -
  let ?own = "pi_GRPCAddress (et_Advertise (ep_conf e))"
  have P1: "pi_GRPCAddress (snd x) = fst x" if "x \<in> set (peersOf json values)" for x
    using peersOf_ok [of json "values"] that by auto
  have P2: "distinct (map fst (peersOf json values))"
      "fst ` set (peersOf json values) = (\<lambda>v. pi_GRPCAddress (unMarshallValue json v)) ` set values"
      "snd ` set (peersOf json values) \<subseteq> unMarshallValue json ` set values"
    using peersOf_ok [of json "values"] by blast+
  have u: "hd (ep_updates e') = map (markOwner ?own \<circ> snd) (peersOf json values)"
    using assms by (auto simp: collectPeers_def callOnUpdateEtcd_def)
  have "map pi_GRPCAddress (hd (ep_updates e')) = map fst (peersOf json values)"
    unfolding u map_map by (rule map_cong [OF refl]) (use P1 in \<open>auto simp: markOwner_def\<close>)
  moreover from this have "pi_GRPCAddress ` set (hd (ep_updates e')) = fst ` set (peersOf json values)"
    by (metis set_map)
  moreover have "\<exists>v \<in> set values. p = markOwner ?own (unMarshallValue json v)" if pm: "p \<in> set (hd (ep_updates e'))" for p
  proof -
    obtain a q where q: "(a, q) \<in> set (peersOf json values)" "p = markOwner ?own q" using pm unfolding u by auto
    from imageI [OF q(1), of snd] have "q \<in> unMarshallValue json ` set values" using P2(3) by auto
    then show ?thesis using q(2) by blast
  qed
  ultimately show ?thesis using P2 by simp
qed

subsection \<open>Late beats\<close>

fun keepRun :: "registerCalls \<Rightarrow> Time list \<Rightarrow> keepState \<Rightarrow> keepState" where
  "keepRun rc [] k = k"
| "keepRun rc (t # ts) k = keepRun rc ts (snd (keepTurn False rc False (Beat t) k))"

text \<open>
  C0. Beats that come too late are not noticed: the time since the last beat is computed the wrong way
  round. However long the gaps between the beats of the lease are, a clock that does not go backwards
  never makes the instance register again.
\<close>

theorem late_keepalive_not_noticed:
  assumes "registerEtcd rc = Inr k" "sorted (map t_ns ts)" "\<And>t. t \<in> set ts \<Longrightarrow> t_ns zeroTime \<le> t_ns t"
  shows "ks_registered (keepRun rc ts k) = 1 \<and> ks_keepAlive (keepRun rc ts k)"
proof -
  have run: "ks_registered (keepRun rc ts k) = ks_registered k \<and> ks_keepAlive (keepRun rc ts k)"
    if "ks_keepAlive k" "sorted (map t_ns ts)" "\<And>t. t \<in> set ts \<Longrightarrow> t_ns (ks_last k) \<le> t_ns t" for k ts
    using that
  proof (induction ts arbitrary: k)
    case (Cons t ts)
    have "Sub_dur (ks_last k) t \<le> 0" using Cons.prems(3) [of t] by (simp add: Sub_dur_def minI64_def)
    then have "snd (keepTurn False rc False (Beat t) k) = k\<lparr>ks_last := t\<rparr>"
      using Cons.prems(1) by (simp add: keepTurn_def leaseTTL_def)
    with Cons.IH [of "k\<lparr>ks_last := t\<rparr>"] Cons.prems show ?case by simp
  qed simp
  have "k = \<lparr>ks_keepAlive = True, ks_last = zeroTime, ks_registered = 1, ks_deleted = False\<rparr>"
    using assms(1) by (simp add: registerEtcd_def split: option.splits)
  with run [of k ts] assms(2,3) show ?thesis by simp
qed

text \<open>A gap of an hour, twice.\<close>

theorem late_keepalive_not_noticed_witness:
  "ks_registered (keepRun \<lparr>rc_Grant = None, rc_Put = None, rc_KeepAlive = None\<rparr>
     (map (\<lambda>h. \<lparr>t_ns = h * ns_per_hour, t_loc = UTC\<rparr>) [0, 1, 2])
     \<lparr>ks_keepAlive = True, ks_last = zeroTime, ks_registered = 1, ks_deleted = False\<rparr>) = 1"
proof -
  let ?rc = "\<lparr>rc_Grant = None, rc_Put = None, rc_KeepAlive = None\<rparr>"
  let ?k = "\<lparr>ks_keepAlive = True, ks_last = zeroTime, ks_registered = 1, ks_deleted = False\<rparr>"
  let ?ts = "map (\<lambda>h. \<lparr>t_ns = h * ns_per_hour, t_loc = UTC\<rparr>) [0, 1, 2]"
  have "registerEtcd ?rc = Inr ?k" by (simp add: registerEtcd_def registerOnce_def)
  moreover have "sorted (map t_ns ?ts)" by simp
  moreover have "\<And>t. t \<in> set ?ts \<Longrightarrow> t_ns zeroTime \<le> t_ns t" by (auto simp: zeroTime_def)
  ultimately show ?thesis using late_keepalive_not_noticed [of ?rc ?k ?ts] by blast
qed

end
