(* ===== verification/Environment.thy ===== *)
theory Environment
  imports Kubernetes Dns MemberList Etcd
begin

text \<open>
  The configuration of a daemon from its environment, \<^verbatim>\<open>config.go\<close> from \<^verbatim>\<open>DaemonConfig\<close> on, and \<^verbatim>\<open>flags.go\<close>. The
  environment is an association list. The source fills the configuration in by one long sequence of defaults;
  the model has a definition for each part of it. Logging is left out except for the errors it can cause.
  Packages outside the repository (defaults, list search, log levels, tracing levels, hash functions, the
  canonical form of a domain name) are parameters.
\<close>

unbundle bit_operations_syntax

subsection \<open>The environment\<close>

type_synonym env = "(string \<times> string) list"

definition Getenv :: "env \<Rightarrow> string \<Rightarrow> string" where
  "Getenv env name = (case map_of env name of None \<Rightarrow> '''' | Some v \<Rightarrow> v)"

text \<open>\<^verbatim>\<open>os.Setenv\<close> refuses an empty key, a key with \<^verbatim>\<open>=\<close> or a zero byte, and a value with a zero byte.\<close>

definition Setenv :: "string \<Rightarrow> string \<Rightarrow> env \<Rightarrow> goerr + env" where
  "Setenv key v env =
     (if key = [] \<or> CHR ''='' \<in> set key \<or> CHR 0x00 \<in> set key \<or> CHR 0x00 \<in> set v
      then Inl (Errorf ''setenv: invalid argument'') else Inr (AList.update key v env))"

definition Environ :: "env \<Rightarrow> string list" where
  "Environ env = map (\<lambda>(k, v). k @ ''='' @ v) env"

definition anyHasPrefix :: "string \<Rightarrow> string list \<Rightarrow> bool" where
  "anyHasPrefix prefix texts \<longleftrightarrow> list_ex (\<lambda>i. HasPrefix i prefix) texts"

definition getEnvBool :: "env \<Rightarrow> string \<Rightarrow> bool" where
  "getEnvBool env name =
     (let v = Getenv env name
      in if v = '''' then False else (case ParseBool v of None \<Rightarrow> False | Some b \<Rightarrow> b))"

definition minVersions :: "(string \<times> int) list" where
  "minVersions = [(''1.0'', 769), (''1.1'', 770), (''1.2'', 771), (''1.3'', 772)]"

definition getEnvMinVersion :: "env \<Rightarrow> string \<Rightarrow> int" where
  "getEnvMinVersion env name =
     (let v = Getenv env name
      in if v = '''' then VersionTLS13 else (case map_of minVersions v of None \<Rightarrow> VersionTLS13 | Some n \<Rightarrow> n))"

definition getEnvInteger :: "env \<Rightarrow> string \<Rightarrow> int" where
  "getEnvInteger env name =
     (let v = Getenv env name in if v = '''' then 0 else (case ParseInt v of None \<Rightarrow> 0 | Some i \<Rightarrow> i))"

definition getEnvDuration :: "env \<Rightarrow> string \<Rightarrow> i64" where
  "getEnvDuration env name =
     (let v = Getenv env name in if v = '''' then 0 else (case ParseDuration v of None \<Rightarrow> 0 | Some d \<Rightarrow> d))"

definition getEnvSlice :: "env \<Rightarrow> string \<Rightarrow> string list" where
  "getEnvSlice env name = (let v = Getenv env name in if v = '''' then [] else Split CHR '','' v)"

subsection \<open>The configuration file\<close>

definition skipped :: "string \<Rightarrow> bool" where
  "skipped line \<longleftrightarrow> HasPrefix line ''#'' \<or> HasPrefix line '' '' \<or> HasPrefix line [CHR 0x09] \<or> line = []"

fun envLines :: "nat \<Rightarrow> string list \<Rightarrow> env \<Rightarrow> goerr + env" where
  "envLines i [] env = Inr env"
| "envLines i (line # rest) env =
     (if skipped line then envLines (Suc i) rest env
      else (case SplitN2 CHR ''='' line of
              (_, None) \<Rightarrow> Inl (Errorf (''malformed key=value on line '' @ quoted (itoa i)))
            | (key, Some v) \<Rightarrow>
                bindE (wrapE (''while settings environ for '' @ quoted (key @ ''='' @ v)) (Setenv (TrimSpace key) (TrimSpace v) env)) (\<lambda>env.
                  envLines (Suc i) rest env)))"

text \<open>The file is the result of reading it; its name in the message is left out.\<close>

definition fromEnvFile :: "goerr + string \<Rightarrow> env \<Rightarrow> goerr + env" where
  "fromEnvFile contents env =
     (case contents of
        Inl e \<Rightarrow> Inl (Errorf (''while reading config file: '' @ err_msg e))
      | Inr contents \<Rightarrow> envLines 0 (Split CHR 0x0A contents) env)"

subsection \<open>Metric flags\<close>

type_synonym MetricFlags = i64

definition FlagOSMetrics :: MetricFlags where "FlagOSMetrics = 1"
definition FlagGolangMetrics :: MetricFlags where "FlagGolangMetrics = 2"

definition flagSet :: "MetricFlags \<Rightarrow> bool \<Rightarrow> MetricFlags \<Rightarrow> MetricFlags" where
  "flagSet flag on f = (if on then f OR flag else (let mask = f XOR flag in f AND mask))"

definition flagHas :: "MetricFlags \<Rightarrow> MetricFlags \<Rightarrow> bool" where
  "flagHas f flag \<longleftrightarrow> f AND flag \<noteq> 0"

definition getEnvMetricFlags :: "env \<Rightarrow> string \<Rightarrow> MetricFlags" where
  "getEnvMetricFlags env name =
     fold (\<lambda>f result. if f = ''os'' then flagSet FlagOSMetrics True result
                      else if f = ''golang'' then flagSet FlagGolangMetrics True result else result)
       (getEnvSlice env name) 0"

subsection \<open>The inst\<close>

text \<open>Splitting at a text. The name of the container is cut to 12 bytes; a shorter one panics.\<close>

function splitText :: "string \<Rightarrow> string \<Rightarrow> string list" where
  "splitText sep [] = [[]]"
| "splitText sep (c # s) =
     (if sep \<noteq> [] \<and> HasPrefix (c # s) sep then [] # splitText sep (drop (length sep) (c # s))
      else (case splitText sep s of [] \<Rightarrow> [[c]] | p # ps \<Rightarrow> (c # p) # ps))"
  by pat_completeness auto
termination by (relation "measure (\<lambda>(sep, s). length s)") (auto simp: neq_Nil_conv)

fun dockerLines :: "string list \<Rightarrow> goerr + string" where
  "dockerLines [] = Inr ''''"
| "dockerLines (line # rest) =
     (case splitText ''/docker/'' line of
        [_, cid] \<Rightarrow> if length cid < 12 then Inl (Panic ''slice bounds out of range'') else Inr (take 12 cid)
      | _ \<Rightarrow> dockerLines rest)"

definition getDockerCID :: "string list option \<Rightarrow> goerr + string" where
  "getDockerCID cgroup = (case cgroup of None \<Rightarrow> Inr '''' | Some ls \<Rightarrow> dockerLines ls)"

definition hexDigit :: "nat \<Rightarrow> char" where
  "hexDigit n = ''0123456789abcdef'' ! n"

definition generateID :: "nat list \<Rightarrow> string" where
  "generateID token = concat (map (\<lambda>b. [hexDigit (b div 16), hexDigit (b mod 16)]) token)"

text \<open>What the host contributes.\<close>

record hostInfo =
  ho_darwin :: bool
  ho_cgroup :: "string list option"
  ho_random :: "nat list"
  ho_net :: hostNet

definition GetInstanceID :: "Setter \<Rightarrow> hostInfo \<Rightarrow> env \<Rightarrow> goerr + string" where
  "GetInstanceID st host env =
     bindE (getDockerCID (ho_cgroup host)) (\<lambda>cid.
       Inr (sd_str st '''' [Getenv env ''GUBER_INSTANCE_ID'', cid, generateID (ho_random host)]))"

definition LocalHost :: "hostInfo \<Rightarrow> env \<Rightarrow> string" where
  "LocalHost host env =
     (if ho_darwin host then ''127.0.0.1'' else if Getenv env ''RUNNER_OS'' \<noteq> '''' then ''127.0.0.1'' else ''localhost'')"

text \<open>The numbers of the tracing levels belong to a package outside the repository.\<close>

record tracingLevels =
  tr_ErrorLevel :: int
  tr_InfoLevel :: int
  tr_DebugLevel :: int

definition GetTracingLevel :: "tracingLevels \<Rightarrow> env \<Rightarrow> int" where
  "GetTracingLevel tr env =
     (case map_of [(''ERROR'', tr_ErrorLevel tr), (''INFO'', tr_InfoLevel tr), (''DEBUG'', tr_DebugLevel tr)] (Getenv env ''GUBER_TRACING_LEVEL'') of
        Some lvl \<Rightarrow> lvl
      | None \<Rightarrow> tr_InfoLevel tr)"

subsection \<open>The configuration of the daemon\<close>

record DaemonConfig =
  dm_GRPCListenAddress :: string
  dm_HTTPListenAddress :: string
  dm_HTTPStatusListenAddress :: string
  dm_GRPCMaxConnectionAgeSeconds :: int
  dm_GracefulTerminationDelaySeconds :: int
  dm_AdvertiseAddress :: string
  dm_CacheSize :: int
  dm_Workers :: int
  dm_Behaviors :: BehaviorConfig
  dm_DataCenter :: string
  dm_PeerDiscoveryType :: string
  dm_EtcdPoolConf :: EtcdPoolConfig
  dm_K8PoolConf :: K8sPoolConfig
  dm_DNSPoolConf :: DNSPoolConfig
  dm_MemberListPoolConf :: MemberListPoolConfig
  dm_Picker :: "ReplicatedConsistentHash option"
  dm_TLS :: "TLSConfig option"
  dm_MetricFlags :: MetricFlags
  dm_InstanceID :: string
  dm_TraceLevel :: int
  dm_hasEventChannel :: bool
  dm_hasStore :: bool
  dm_hasLoader :: bool

definition ClientTLS :: "DaemonConfig \<Rightarrow> tlsConf option" where
  "ClientTLS d = (case dm_TLS d of Some t \<Rightarrow> tl_ClientTLS t | None \<Rightarrow> None)"

definition ServerTLS :: "DaemonConfig \<Rightarrow> tlsConf option" where
  "ServerTLS d = (case dm_TLS d of Some t \<Rightarrow> tl_ServerTLS t | None \<Rightarrow> None)"

text \<open>
  What the set-up is given from outside: the packages, the host, and the package variable \<^verbatim>\<open>DebugEnabled\<close>
  as it was before. \<^verbatim>\<open>SetDefault\<close> occurs at pointers, pools and lists of certificates as well.
\<close>

record outside =
  os_setter :: Setter
  os_setTLS :: "tlsConf option \<Rightarrow> tlsConf option \<Rightarrow> tlsConf option"
  os_setPool :: "string list option \<Rightarrow> string list option \<Rightarrow> string list option"
  os_setCerts :: "Certificate list \<Rightarrow> Certificate list \<Rightarrow> Certificate list"
  os_contains :: "string \<Rightarrow> string list \<Rightarrow> bool"
  os_ParseLevel :: "string \<Rightarrow> goerr option"
  os_Fqdn :: "string \<Rightarrow> string"
  os_fnv1a :: "string \<Rightarrow> 64 word"
  os_fnv1 :: "string \<Rightarrow> 64 word"
  os_tracing :: tracingLevels
  os_host :: hostInfo
  os_crypto :: crypto
  os_debug :: bool

subsubsection \<open>Logging\<close>

definition logConfig :: "outside \<Rightarrow> env \<Rightarrow> goerr + unit" where
  "logConfig x env =
     (let st = os_setter x; logFormat = sd_str st '''' [Getenv env ''GUBER_LOG_FORMAT'']
      in bindE (guardE (logFormat = '''' \<or> logFormat = ''json'' \<or> logFormat = ''text'')
                 (Errorf ''GUBER_LOG_FORMAT is invalid; expected value is either json or text'')) (\<lambda>_.
         let debug = sd_bool st (os_debug x) [getEnvBool env ''GUBER_DEBUG''];
             logLevel = sd_str st '''' [Getenv env ''GUBER_LOG_LEVEL'']
         in if debug then Inr ()
            else if logLevel \<noteq> '''' then
              (case os_ParseLevel x logLevel of Some e \<Rightarrow> Inl (WrapErr ''invalid log level'' e) | None \<Rightarrow> Inr ())
            else Inr ()))"

subsubsection \<open>The main part\<close>

definition discoveryTypes :: "string list" where
  "discoveryTypes = [''member-list'', ''k8s'', ''etcd'', ''dns'', ''none'']"

definition behaviorsFromEnv :: "Setter \<Rightarrow> env \<Rightarrow> BehaviorConfig" where
  "behaviorsFromEnv st env =
     \<lparr>bc_BatchTimeout = sd_int st 0 [getEnvDuration env ''GUBER_BATCH_TIMEOUT''],
      bc_BatchWait = sd_int st 0 [getEnvDuration env ''GUBER_BATCH_WAIT''],
      bc_BatchLimit = sd_int st 0 [getEnvInteger env ''GUBER_BATCH_LIMIT''],
      bc_DisableBatching = sd_bool st False [getEnvBool env ''GUBER_DISABLE_BATCHING''],
      bc_GlobalSyncWait = sd_int st 0 [getEnvDuration env ''GUBER_GLOBAL_SYNC_WAIT''],
      bc_GlobalTimeout = sd_int st 0 [getEnvDuration env ''GUBER_GLOBAL_TIMEOUT''],
      bc_GlobalBatchLimit = sd_int st 0 [getEnvInteger env ''GUBER_GLOBAL_BATCH_LIMIT''],
      bc_ForceGlobal = sd_bool st False [getEnvBool env ''GUBER_FORCE_GLOBAL''],
      bc_GlobalPeerRequestsConcurrency = 0,
      bc_ScheduleMaxWait = sd_int st 0 [getEnvDuration env ''GUBER_SCHEDULE_MAX_WAIT'']\<rparr>"

text \<open>The address that is advertised, with its host; it is not looked at for Kubernetes.\<close>

definition advertise :: "outside \<Rightarrow> string \<Rightarrow> string \<Rightarrow> goerr + string \<times> string" where
  "advertise x discovery address =
     (if discovery = ''k8s'' then Inr ('''', address)
      else
        bindE (wrapE ''GUBER_ADVERTISE_ADDRESS is invalid; expected format is `address:port`'' (SplitHostPort address)) (\<lambda>(host, port).
        bindE (wrapE ''failed to discover host ip for GUBER_ADVERTISE_ADDRESS'' (ResolveHostIP (os_contains x) (ho_net (os_host x)) host)) (\<lambda>host.
          Inr (host, JoinHostPort host port))))"

subsubsection \<open>TLS\<close>

definition clientAuthTypes :: "(string \<times> ClientAuthType) list" where
  "clientAuthTypes =
     [(''request-cert'', RequestClientCert), (''verify-cert'', VerifyClientCertIfGiven),
      (''require-any-cert'', RequireAnyClientCert), (''require-and-verify'', RequireAndVerifyClientCert)]"

text \<open>The order of the keys is the order of the iteration of a map, which is not specified.\<close>

definition validClientAuthTypes :: "(string \<times> ClientAuthType) list \<Rightarrow> string" where
  "validClientAuthTypes m = Join '','' (map fst m)"

definition clientAuthFromEnv :: "env \<Rightarrow> goerr + ClientAuthType" where
  "clientAuthFromEnv env =
     (let clientAuth = Getenv env ''GUBER_TLS_CLIENT_AUTH''
      in if clientAuth = '''' then Inr NoClientCert
         else (case map_of clientAuthTypes clientAuth of
                 Some t \<Rightarrow> Inr t
               | None \<Rightarrow> Inl (Errorf (quoted (''GUBER_TLS_CLIENT_AUTH='' @ clientAuth) @ '' is invalid; choices are ['' @
                                      validClientAuthTypes clientAuthTypes @ '']''))))"

definition tlsFromEnv :: "Setter \<Rightarrow> env \<Rightarrow> goerr + TLSConfig option" where
  "tlsFromEnv st env =
     (if \<not> anyHasPrefix ''GUBER_TLS_'' (Environ env) then Inr None
      else bindE (clientAuthFromEnv env) (\<lambda>t.
        Inr (Some
          \<lparr>tl_CaFile = sd_str st '''' [Getenv env ''GUBER_TLS_CA''],
           tl_CaKeyFile = sd_str st '''' [Getenv env ''GUBER_TLS_CA_KEY''],
           tl_KeyFile = sd_str st '''' [Getenv env ''GUBER_TLS_KEY''],
           tl_CertFile = sd_str st '''' [Getenv env ''GUBER_TLS_CERT''],
           tl_AutoTLS = sd_bool st False [getEnvBool env ''GUBER_TLS_AUTO''],
           tl_MinVersion = sd_int st 0 [getEnvMinVersion env ''GUBER_TLS_MIN_VERSION''],
           tl_ClientAuth = t,
           tl_ClientAuthCaFile = sd_str st '''' [Getenv env ''GUBER_TLS_CLIENT_AUTH_CA_CERT''],
           tl_ClientAuthKeyFile = sd_str st '''' [Getenv env ''GUBER_TLS_CLIENT_AUTH_KEY''],
           tl_ClientAuthCertFile = sd_str st '''' [Getenv env ''GUBER_TLS_CLIENT_AUTH_CERT''],
           tl_InsecureSkipVerify = sd_bool st False [getEnvBool env ''GUBER_TLS_INSECURE_SKIP_VERIFY''],
           tl_CaPEM = None, tl_CaKeyPEM = None, tl_KeyPEM = None, tl_CertPEM = None, tl_ClientAuthCaPEM = None,
           tl_ClientAuthServerName = sd_str st '''' [Getenv env ''GUBER_TLS_CLIENT_AUTH_SERVER_NAME''],
           tl_ServerTLS = None, tl_ClientTLS = None\<rparr>)))"

subsubsection \<open>The pools\<close>

definition etcdFromEnv :: "Setter \<Rightarrow> env \<Rightarrow> string \<Rightarrow> string \<Rightarrow> EtcdPoolConfig" where
  "etcdFromEnv st env advertised dataCenter =
     \<lparr>et_Advertise = \<lparr>pi_DataCenter = sd_str st '''' [Getenv env ''GUBER_ETCD_DATA_CENTER'', dataCenter], pi_HTTPAddress = '''',
        pi_GRPCAddress = sd_str st '''' [Getenv env ''GUBER_ETCD_ADVERTISE_ADDRESS'', advertised], pi_IsOwner = False\<rparr>,
      et_hasClient = False,
      et_KeyPrefix = sd_str st '''' [Getenv env ''GUBER_ETCD_KEY_PREFIX'', ''/gubernator-peers''],
      et_Endpoints = sd_strs st [] [getEnvSlice env ''GUBER_ETCD_ENDPOINTS'', [''localhost:2379'']],
      et_DialTimeout = sd_int st 0 [getEnvDuration env ''GUBER_ETCD_DIAL_TIMEOUT'', 5 * ns_per_s],
      et_Username = sd_str st '''' [Getenv env ''GUBER_ETCD_USER''],
      et_Password = sd_str st '''' [Getenv env ''GUBER_ETCD_PASSWORD''],
      et_TLS = None\<rparr>"

definition memberListFromEnv :: "Setter \<Rightarrow> env \<Rightarrow> string \<Rightarrow> string \<Rightarrow> string \<Rightarrow> MemberListPoolConfig" where
  "memberListFromEnv st env advAddr advertised dataCenter =
     \<lparr>mc_Advertise = \<lparr>pi_DataCenter = sd_str st '''' [dataCenter], pi_HTTPAddress = '''',
        pi_GRPCAddress = sd_str st '''' [Getenv env ''GUBER_MEMBERLIST_ADVERTISE_ADDRESS'', advertised], pi_IsOwner = False\<rparr>,
      mc_MemberListBindAddress = sd_str st '''' [Getenv env ''GUBER_MEMBERLIST_BIND_ADDRESS''],
      mc_MemberListAddress = sd_str st '''' [Getenv env ''GUBER_MEMBERLIST_ADDRESS'', advAddr @ '':7946''],
      mc_KnownNodes = sd_strs st [] [getEnvSlice env ''GUBER_MEMBERLIST_KNOWN_NODES'', []],
      mc_NodeName = sd_str st '''' [Getenv env ''GUBER_MEMBERLIST_NODE_NAME'', ''''],
      mc_EncryptionConfig =
        \<lparr>me_SecretKeys = sd_strs st [] [getEnvSlice env ''GUBER_MEMBERLIST_SECRET_KEYS'', []],
         me_GossipVerifyIncoming = sd_bool st False [getEnvBool env ''GUBER_MEMBERLIST_GOSSIP_VERIFY_INCOMING'', True],
         me_GossipVerifyOutgoing = sd_bool st False [getEnvBool env ''GUBER_MEMBERLIST_GOSSIP_VERIFY_OUTGOING'', True]\<rparr>\<rparr>"

definition k8sFromEnv :: "Setter \<Rightarrow> env \<Rightarrow> goerr + K8sPoolConfig" where
  "k8sFromEnv st env =
     (let selector = Getenv env ''GUBER_K8S_SELECTOR'';
          selector = (if selector = '''' then Getenv env ''GUBER_K8S_ENDPOINTS_SELECTOR'' else selector)
      in case WatchMechanismFromString (Getenv env ''GUBER_K8S_WATCH_MECHANISM'') of
           Inl _ \<Rightarrow> Inl (Errorf (''invalid value for watch mechanism `GUBER_K8S_WATCH_MECHANISM` needs to be either '' @ quoted ''endpointslices''
                               @ '' or '' @ quoted ''pods'' @ '' (defaults to '' @ quoted ''endpointslices'' @ '')''))
         | Inr mechanism \<Rightarrow>
             Inr \<lparr>kc_Mechanism = mechanism, kc_Namespace = sd_str st '''' [Getenv env ''GUBER_K8S_NAMESPACE'', ''default''], kc_Selector = selector,
                  kc_ServiceName = Getenv env ''GUBER_K8S_SERVICE_NAME'', kc_PodIP = Getenv env ''GUBER_K8S_POD_IP'',
                  kc_PodPort = Getenv env ''GUBER_K8S_POD_PORT''\<rparr>)"

definition dnsFromEnv :: "Setter \<Rightarrow> env \<Rightarrow> string \<Rightarrow> string \<Rightarrow> DNSPoolConfig" where
  "dnsFromEnv st env advertised dataCenter =
     \<lparr>dc_FQDN = sd_str st '''' [Getenv env ''GUBER_DNS_FQDN''],
      dc_ResolvConf = sd_str st '''' [Getenv env ''GUBER_RESOLV_CONF'', ''/etc/resolv.conf''], dc_ResolvServers = [],
      dc_OwnAddress = sd_str st '''' [advertised], dc_DataCenter = sd_str st '''' [dataCenter]\<rparr>"

text \<open>For DNS the data centre is brought to the canonical form of a domain name.\<close>

definition canonicalDC :: "(string \<Rightarrow> string) \<Rightarrow> DaemonConfig \<Rightarrow> DaemonConfig" where
  "canonicalDC fqdn d =
     (if dm_PeerDiscoveryType d = ''dns'' \<and> dm_DataCenter d \<noteq> ''''
      then d\<lparr>dm_DataCenter := fqdn (dm_DataCenter d),
             dm_DNSPoolConf := (dm_DNSPoolConf d)\<lparr>dc_DataCenter := fqdn (dm_DataCenter d)\<rparr>\<rparr>
      else d)"

subsubsection \<open>The picker\<close>

definition validHash64Keys :: "(string \<times> (string \<Rightarrow> 64 word)) list \<Rightarrow> string" where
  "validHash64Keys m = Join '','' (map fst m)"

definition pickerFromEnv :: "outside \<Rightarrow> env \<Rightarrow> goerr + ReplicatedConsistentHash option" where
  "pickerFromEnv x env =
     (let pp = Getenv env ''GUBER_PEER_PICKER''; st = os_setter x
      in if pp = '''' then Inr None
         else if pp = ''replicated-hash'' then
           (let replicas = sd_int st 0 [getEnvInteger env ''GUBER_REPLICATED_HASH_REPLICAS'', defaultReplicas];
                hash = sd_str st '''' [Getenv env ''GUBER_PEER_PICKER_HASH'', ''fnv1a''];
                hashFuncs = [(''fnv1a'', os_fnv1a x), (''fnv1'', os_fnv1 x)]
            in case map_of hashFuncs hash of
                 None \<Rightarrow> Inl (Errorf (quoted (''GUBER_PEER_PICKER_HASH='' @ hash) @ '' is invalid; choices are ['' @ validHash64Keys hashFuncs @ '']''))
               | Some fn \<Rightarrow> Inr (Some (NewReplicatedConsistentHash (os_fnv1 x) (Some fn) replicas)))
         else Inl (Errorf (quoted (''GUBER_PEER_PICKER='' @ pp) @ '' is invalid; choices are ['' @ quoted ''replicated-hash'' @ '', '' @
                           quoted ''consistent-hash'' @ '']'')))"

subsubsection \<open>Checks of the pools\<close>

definition poolChecks :: "env \<Rightarrow> DaemonConfig \<Rightarrow> goerr + unit" where
  "poolChecks env d =
     (let k = dm_K8PoolConf d
      in bindE (guardE (\<not> (anyHasPrefix ''GUBER_K8S_'' (Environ env) \<and> (kc_Mechanism k = WatchEndpointSlices \<or> kc_Mechanism k = '''')
                           \<and> kc_ServiceName k = ''''))
                 (Errorf ''when using k8s for peer discovery with endpointslices, you MUST provide `GUBER_K8S_SERVICE_NAME` to identify the Service'')) (\<lambda>_.
         bindE (guardE (\<not> (anyHasPrefix ''GUBER_K8S_'' (Environ env) \<and> kc_Mechanism k = WatchPods \<and> kc_Selector k = ''''))
                 (Errorf ''when using k8s for peer discovery with pods, you MUST provide `GUBER_K8S_SELECTOR` to select the gubernator pods'')) (\<lambda>_.
         guardE (\<not> (anyHasPrefix ''GUBER_MEMBERLIST_'' (Environ env) \<and> mc_KnownNodes (dm_MemberListPoolConf d) = []))
           (Errorf (''when using `member-list` for peer discovery, you MUST provide a hostname of a known host in the cluster via '' @
                    ''`GUBER_MEMBERLIST_KNOWN_NODES`'')))))"

definition setupEtcdTLS :: "outside \<Rightarrow> env \<Rightarrow> tlsConf option \<Rightarrow> goerr + tlsConf option" where
  "setupEtcdTLS x env conf =
     (let st = os_setter x; cy = os_crypto x;
          t = os_setTLS x conf (Some emptyTLS);
          tlsCertFile = sd_str st '''' [Getenv env ''GUBER_ETCD_TLS_CERT''];
          tlsKeyFile = sd_str st '''' [Getenv env ''GUBER_ETCD_TLS_KEY''];
          tlsCAFile = sd_str st '''' [Getenv env ''GUBER_ETCD_TLS_CA'']
      in bindE (if tlsCAFile \<noteq> '''' then
                  bindE (wrapE (''while loading cert CA file '' @ quoted tlsCAFile) (cy_ReadFile cy tlsCAFile)) (\<lambda>pemBytes.
                    Inr (map_option (\<lambda>t. t\<lparr>tls_RootCAs := os_setPool x (tls_RootCAs t) (Some (cy_certsIn cy pemBytes)), tls_InsecureSkipVerify := False\<rparr>)
                          (os_setTLS x t (Some emptyTLS))))
                else Inr t) (\<lambda>t.
         bindE (if tlsCertFile \<noteq> '''' \<and> tlsKeyFile \<noteq> '''' then
                  bindE (wrapE (''while loading cert '' @ quoted tlsCertFile @ '' and key file '' @ quoted tlsKeyFile)
                           (LoadX509KeyPair cy tlsCertFile tlsKeyFile)) (\<lambda>tlsCert.
                    Inr (map_option (\<lambda>t. t\<lparr>tls_Certificates := os_setCerts x (tls_Certificates t) [tlsCert]\<rparr>) t))
                else Inr t) (\<lambda>t.
           if Getenv env ''GUBER_ETCD_TLS_SKIP_VERIFY'' \<noteq> ''''
           then Inr (map_option (tls_InsecureSkipVerify_update (\<lambda>_. True)) (os_setTLS x t (Some emptyTLS)))
           else Inr t)))"

definition etcdTLSFromEnv :: "outside \<Rightarrow> env \<Rightarrow> DaemonConfig \<Rightarrow> goerr + DaemonConfig" where
  "etcdTLSFromEnv x env d =
     (if \<not> anyHasPrefix ''GUBER_ETCD_TLS_'' (Environ env) then Inr d
      else bindE (setupEtcdTLS x env (et_TLS (dm_EtcdPoolConf d))) (\<lambda>t.
             Inr (d\<lparr>dm_EtcdPoolConf := (dm_EtcdPoolConf d)\<lparr>et_TLS := t\<rparr>\<rparr>)))"

subsubsection \<open>SetupDaemonConfig\<close>

definition mainFromEnv :: "outside \<Rightarrow> env \<Rightarrow> string \<Rightarrow> string \<Rightarrow> string \<times> string \<Rightarrow> TLSConfig option \<Rightarrow> K8sPoolConfig \<Rightarrow> DaemonConfig" where
  "mainFromEnv x env inst discovery adv tls k8s =
     (let st = os_setter x;
          dataCenter = sd_str st '''' [Getenv env ''GUBER_DATA_CENTER'', '''']
      in \<lparr>dm_GRPCListenAddress = sd_str st '''' [Getenv env ''GUBER_GRPC_ADDRESS'', LocalHost (os_host x) env @ '':1051''],
          dm_HTTPListenAddress = sd_str st '''' [Getenv env ''GUBER_HTTP_ADDRESS'', LocalHost (os_host x) env @ '':1050''],
          dm_HTTPStatusListenAddress = sd_str st '''' [Getenv env ''GUBER_STATUS_HTTP_ADDRESS'', ''''],
          dm_GRPCMaxConnectionAgeSeconds = sd_int st 0 [getEnvInteger env ''GUBER_GRPC_MAX_CONN_AGE_SEC'', 0],
          dm_GracefulTerminationDelaySeconds = sd_int st 0 [getEnvInteger env ''GUBER_GRACEFUL_TERMINATION_DELAY_SEC'', 0],
          dm_AdvertiseAddress = snd adv,
          dm_CacheSize = sd_int st 0 [getEnvInteger env ''GUBER_CACHE_SIZE'', 50000],
          dm_Workers = sd_int st 0 [getEnvInteger env ''GUBER_WORKER_COUNT'', 0],
          dm_Behaviors = behaviorsFromEnv st env,
          dm_DataCenter = dataCenter,
          dm_PeerDiscoveryType = discovery,
          dm_EtcdPoolConf = etcdFromEnv st env (snd adv) dataCenter,
          dm_K8PoolConf = k8s,
          dm_DNSPoolConf = dnsFromEnv st env (snd adv) dataCenter,
          dm_MemberListPoolConf = memberListFromEnv st env (fst adv) (snd adv) dataCenter,
          dm_Picker = None, dm_TLS = tls,
          dm_MetricFlags = sd_int st 0 [getEnvMetricFlags env ''GUBER_METRIC_FLAGS''],
          dm_InstanceID = sd_str st '''' [inst],
          dm_TraceLevel = 0, dm_hasEventChannel = False, dm_hasStore = False, dm_hasLoader = False\<rparr>)"

definition setupFromEnv :: "outside \<Rightarrow> env \<Rightarrow> goerr + DaemonConfig" where
  "setupFromEnv x env =
     (let st = os_setter x;
          grpc = sd_str st '''' [Getenv env ''GUBER_GRPC_ADDRESS'', LocalHost (os_host x) env @ '':1051''];
          discovery = sd_str st '''' [Getenv env ''GUBER_PEER_DISCOVERY_TYPE'', ''member-list'']
      in bindE (logConfig x env) (\<lambda>_.
         bindE (GetInstanceID st (os_host x) env) (\<lambda>inst.
         bindE (guardE (os_contains x discovery discoveryTypes)
                 (Errorf (''GUBER_PEER_DISCOVERY_TYPE is invalid; choices are ['' @ Join '','' discoveryTypes @ '']`''))) (\<lambda>_.
         bindE (advertise x discovery (sd_str st '''' [Getenv env ''GUBER_ADVERTISE_ADDRESS'', grpc])) (\<lambda>adv.
         bindE (tlsFromEnv st env) (\<lambda>tls.
         bindE (k8sFromEnv st env) (\<lambda>k8s.
           let d = canonicalDC (os_Fqdn x) (mainFromEnv x env inst discovery adv tls k8s)
           in bindE (pickerFromEnv x env) (\<lambda>picker.
                let d = d\<lparr>dm_Picker := picker\<rparr>
                in bindE (poolChecks env d) (\<lambda>_.
                   bindE (etcdTLSFromEnv x env d) (\<lambda>d.
                     Inr (d\<lparr>dm_TraceLevel := sd_int st 0 [GetTracingLevel (os_tracing x) env]\<rparr>)))))))))))"

definition SetupDaemonConfig :: "outside \<Rightarrow> (goerr + string) option \<Rightarrow> env \<Rightarrow> goerr + DaemonConfig \<times> env" where
  "SetupDaemonConfig x configFile env =
     bindE (case configFile of None \<Rightarrow> Inr env | Some contents \<Rightarrow> fromEnvFile contents env) (\<lambda>env.
     bindE (setupFromEnv x env) (\<lambda>d. Inr (d, env)))"

subsection \<open>Metric flags are independent bits\<close>

lemma flag_laws:
  shows "flag \<noteq> 0 \<Longrightarrow> flagHas (flagSet flag True f) flag" "\<not> flagHas (flagSet flag False f) flag"
    "flag AND other = 0 \<Longrightarrow> flagHas (flagSet flag on f) other = flagHas f other"
proof -
  show "flag \<noteq> 0 \<Longrightarrow> flagHas (flagSet flag True f) flag"
    by (auto simp: flagHas_def flagSet_def bit_eq_iff bit_and_iff bit_or_iff)
  show "\<not> flagHas (flagSet flag False f) flag"
    by (auto simp: flagHas_def flagSet_def bit_eq_iff bit_and_iff bit_xor_iff Let_def)
  assume d: "flag AND other = 0"
  then have "\<not> (bit flag n \<and> bit other n)" for n by (metis bit_and_iff bit_0_eq bot_apply bot_bool_def)
  then have "flagSet flag on f AND other = f AND other"
    by (intro bit_eqI) (auto simp: flagSet_def bit_and_iff bit_or_iff bit_xor_iff Let_def)
  then show "flagHas (flagSet flag on f) other = flagHas f other" by (simp add: flagHas_def)
qed

subsection \<open>The file sets the environment\<close>

text \<open>A key and a value that a line of the file can carry.\<close>

definition keyOk :: "string \<Rightarrow> bool" where
  "keyOk k \<longleftrightarrow> k \<noteq> [] \<and> trimmed k \<and> hd k \<noteq> CHR ''#'' \<and> set k \<inter> {CHR ''='', CHR 0x00, CHR 0x0A} = {}"

definition valueOk :: "string \<Rightarrow> bool" where
  "valueOk v \<longleftrightarrow> trimmed v \<and> set v \<inter> {CHR 0x00, CHR 0x0A} = {}"

definition envLine :: "string \<times> string \<Rightarrow> string" where
  "envLine kv = fst kv @ ''='' @ snd kv"

lemma keyOk_not_skipped: "keyOk k \<Longrightarrow> \<not> skipped (k @ ''='' @ v)"
  by (cases k) (auto simp: keyOk_def skipped_def trimmed_def spaceSeqs_def)

lemma envLines_pairs:
  assumes "\<And>k v. (k, v) \<in> set kvs \<Longrightarrow> keyOk k \<and> valueOk v"
  shows "envLines i (map envLine kvs) env = Inr (fold (\<lambda>(k, v). AList.update k v) kvs env)"
  using assms
proof (induction kvs arbitrary: i env)
  case (Cons kv kvs)
  obtain k v where kv: "kv = (k, v)" by force
  with Cons.prems have ok: "keyOk k" "valueOk v" by auto
  then have "SplitN2 CHR ''='' (k @ ''='' @ v) = (k, Some v)" by (auto simp: keyOk_def intro: SplitN2_append)
  moreover have "Setenv (TrimSpace k) (TrimSpace v) env = Inr (AList.update k v env)"
    using ok by (auto simp: keyOk_def valueOk_def TrimSpace_trimmed Setenv_def)
  moreover have "envLines (Suc i) (map envLine kvs) (AList.update k v env) = Inr (fold (\<lambda>(k, v). AList.update k v) kvs (AList.update k v env))"
    using Cons.prems by (intro Cons.IH) auto
  moreover have "envLine kv = k @ ''='' @ v" by (simp add: kv envLine_def)
  ultimately show ?case using keyOk_not_skipped [OF ok(1), of v] by (simp add: kv wrapE_def)
qed simp

lemma Getenv_fold_update:
  "Getenv (fold (\<lambda>(k, v). AList.update k v) kvs env) name =
     (case map_of (rev kvs) name of Some v \<Rightarrow> v | None \<Rightarrow> Getenv env name)"
  by (induction kvs rule: rev_induct) (auto simp: Getenv_def update_conv' split: option.splits)

text \<open>
  C0. A configuration file of \<^verbatim>\<open>KEY=value\<close> lines sets the environment: after it is read, every variable named
  in it has the value of its last line, also if the value contains \<^verbatim>\<open>=\<close>, and every other variable is as before.
\<close>

theorem env_file_roundtrip:
  assumes "kvs \<noteq> []" "\<And>k v. (k, v) \<in> set kvs \<Longrightarrow> keyOk k \<and> valueOk v"
  shows "\<exists>env'. fromEnvFile (Inr (Join [CHR 0x0A] (map envLine kvs))) env = Inr env'
    \<and> (\<forall>name. Getenv env' name = (case map_of (rev kvs) name of Some v \<Rightarrow> v | None \<Rightarrow> Getenv env name))"
proof -
  have "CHR 0x0A \<notin> set (envLine kv)" if "kv \<in> set kvs" for kv
    using assms(2) [of "fst kv" "snd kv"] that by (auto simp: envLine_def keyOk_def valueOk_def)
  then have "Split CHR 0x0A (Join [CHR 0x0A] (map envLine kvs)) = map envLine kvs"
    using assms(1) by (intro Split_Join) auto
  with envLines_pairs [OF assms(2)] show ?thesis
    by (auto simp: fromEnvFile_def Getenv_fold_update)
qed

text \<open>A file of three lines, one of them twice.\<close>

theorem env_file_roundtrip_witness:
  "\<exists>env'. fromEnvFile (Inr (''GUBER_GRPC_ADDRESS=0.0.0.0:81'' @ [CHR 0x0A] @ ''GUBER_ETCD_USER=a=b'' @ [CHR 0x0A] @ ''GUBER_GRPC_ADDRESS=0.0.0.0:82''))
     [(''HOME'', ''/root'')] = Inr env'
   \<and> Getenv env' ''GUBER_GRPC_ADDRESS'' = ''0.0.0.0:82'' \<and> Getenv env' ''GUBER_ETCD_USER'' = ''a=b'' \<and> Getenv env' ''HOME'' = ''/root''"
proof -
  let ?kvs = "[(''GUBER_GRPC_ADDRESS'', ''0.0.0.0:81''), (''GUBER_ETCD_USER'', ''a=b''), (''GUBER_GRPC_ADDRESS'', ''0.0.0.0:82'')]"
  have ok: "keyOk k \<and> valueOk v" if "(k, v) \<in> set ?kvs" for k v
  proof -
    have "list_all (\<lambda>(k, v). keyOk k \<and> valueOk v) ?kvs" by code_simp
    with that show ?thesis unfolding list_all_iff by blast
  qed
  from env_file_roundtrip [OF _ ok, of ?kvs "[(''HOME'', ''/root'')]"] show ?thesis
    by (auto simp: envLine_def Getenv_def)
qed

text \<open>An empty line of a file with carriage returns is not skipped but refused.\<close>

lemma crlf_blank_line_refused:
  "\<exists>e. fromEnvFile (Inr (''GUBER_DEBUG=true'' @ [CHR 0x0D, CHR 0x0A, CHR 0x0D, CHR 0x0A])) env = Inl e"
  by (simp add: fromEnvFile_def skipped_def HasPrefix_def bindE_def Setenv_def wrapE_def split: sum.splits)

subsection \<open>Accepted configurations\<close>

text \<open>The documented behaviour of what lies outside: addresses that a look-up returns have no brackets.\<close>

definition good_outside :: "outside \<Rightarrow> bool" where
  "good_outside x \<longleftrightarrow> good_setter (os_setter x) \<and> good_contains (os_contains x) \<and> ho_random (os_host x) \<noteq> [] \<and>
     (\<forall>name addrs. hn_LookupHost (ho_net (os_host x)) name = Inr addrs \<longrightarrow> list_all hostOk addrs)"

definition wf_advertise :: "DaemonConfig \<Rightarrow> bool" where
  "wf_advertise d \<longleftrightarrow>
     (case SplitHostPort (dm_AdvertiseAddress d) of Inl _ \<Rightarrow> False | Inr (h, p) \<Rightarrow> dm_AdvertiseAddress d = JoinHostPort h p)"

definition wf_daemon :: "DaemonConfig \<Rightarrow> bool" where
  "wf_daemon d \<longleftrightarrow>
     dm_PeerDiscoveryType d \<in> set discoveryTypes \<and> dm_InstanceID d \<noteq> '''' \<and> dm_CacheSize d \<noteq> 0 \<and>
     dm_GRPCListenAddress d \<noteq> '''' \<and> dm_HTTPListenAddress d \<noteq> '''' \<and>
     (dm_PeerDiscoveryType d \<noteq> ''k8s'' \<longrightarrow>
        wf_advertise d \<and> dc_OwnAddress (dm_DNSPoolConf d) = dm_AdvertiseAddress d \<and>
        pi_GRPCAddress (et_Advertise (dm_EtcdPoolConf d)) \<noteq> '''' \<and> pi_GRPCAddress (mc_Advertise (dm_MemberListPoolConf d)) \<noteq> '''') \<and>
     kc_Mechanism (dm_K8PoolConf d) \<in> {WatchEndpointSlices, WatchPods} \<and> kc_Namespace (dm_K8PoolConf d) \<noteq> '''' \<and>
     et_KeyPrefix (dm_EtcdPoolConf d) \<noteq> '''' \<and> et_Endpoints (dm_EtcdPoolConf d) \<noteq> [] \<and> et_DialTimeout (dm_EtcdPoolConf d) \<noteq> 0 \<and>
     dc_ResolvConf (dm_DNSPoolConf d) \<noteq> '''' \<and> mc_MemberListAddress (dm_MemberListPoolConf d) \<noteq> '''' \<and>
     dc_DataCenter (dm_DNSPoolConf d) = dm_DataCenter d \<and>
     (case dm_TLS d of None \<Rightarrow> True | Some t \<Rightarrow> 769 \<le> tl_MinVersion t \<and> tl_MinVersion t \<le> 772 \<and> tl_ServerTLS t = None) \<and>
     (case dm_Picker d of None \<Rightarrow> True | Some ring \<Rightarrow> ch_peers ring = [] \<and> ch_peerKeys ring = [] \<and> ch_replicas ring \<noteq> 0)"

lemma etcdTLSFromEnv_ok:
  assumes "etcdTLSFromEnv x env d = Inr d1"
  obtains t where "d1 = d\<lparr>dm_EtcdPoolConf := (dm_EtcdPoolConf d)\<lparr>et_TLS := t\<rparr>\<rparr>"
proof (cases "anyHasPrefix ''GUBER_ETCD_TLS_'' (Environ env)")
  case False
  with assms have "d1 = d" by (simp add: etcdTLSFromEnv_def)
  then have "d1 = d\<lparr>dm_EtcdPoolConf := (dm_EtcdPoolConf d)\<lparr>et_TLS := et_TLS (dm_EtcdPoolConf d)\<rparr>\<rparr>" by simp
  then show ?thesis by (rule that)
qed (use assms that in \<open>auto simp: etcdTLSFromEnv_def bindE_Inr_iff\<close>)

lemma setupFromEnv_parts:
  assumes "setupFromEnv x env = Inr d"
  obtains inst discovery adv tls k8s picker etls where
    "discovery = sd_str (os_setter x) '''' [Getenv env ''GUBER_PEER_DISCOVERY_TYPE'', ''member-list'']"
    "GetInstanceID (os_setter x) (os_host x) env = Inr inst" "os_contains x discovery discoveryTypes"
    "advertise x discovery (sd_str (os_setter x) '''' [Getenv env ''GUBER_ADVERTISE_ADDRESS'',
       sd_str (os_setter x) '''' [Getenv env ''GUBER_GRPC_ADDRESS'', LocalHost (os_host x) env @ '':1051'']]) = Inr adv"
    "tlsFromEnv (os_setter x) env = Inr tls" "k8sFromEnv (os_setter x) env = Inr k8s" "pickerFromEnv x env = Inr picker"
    "d = (let d = canonicalDC (os_Fqdn x) (mainFromEnv x env inst discovery adv tls k8s)
          in d\<lparr>dm_Picker := picker, dm_EtcdPoolConf := (dm_EtcdPoolConf d)\<lparr>et_TLS := etls\<rparr>,
               dm_TraceLevel := sd_int (os_setter x) 0 [GetTracingLevel (os_tracing x) env]\<rparr>)"
proof -
  let ?st = "os_setter x"
  let ?dis = "sd_str ?st '''' [Getenv env ''GUBER_PEER_DISCOVERY_TYPE'', ''member-list'']"
  from assms obtain inst adv tls k8s picker d1 where
    p: "GetInstanceID ?st (os_host x) env = Inr inst" "os_contains x ?dis discoveryTypes"
      "advertise x ?dis (sd_str ?st '''' [Getenv env ''GUBER_ADVERTISE_ADDRESS'',
         sd_str ?st '''' [Getenv env ''GUBER_GRPC_ADDRESS'', LocalHost (os_host x) env @ '':1051'']]) = Inr adv"
      "tlsFromEnv ?st env = Inr tls" "k8sFromEnv ?st env = Inr k8s" "pickerFromEnv x env = Inr picker"
    and e: "etcdTLSFromEnv x env ((canonicalDC (os_Fqdn x) (mainFromEnv x env inst ?dis adv tls k8s))\<lparr>dm_Picker := picker\<rparr>) = Inr d1"
    and d: "d = d1\<lparr>dm_TraceLevel := sd_int ?st 0 [GetTracingLevel (os_tracing x) env]\<rparr>"
    unfolding setupFromEnv_def Let_def bindE_Inr_iff guardE_Inr_iff by blast
  from etcdTLSFromEnv_ok [OF e] obtain etls where
    "d1 = (canonicalDC (os_Fqdn x) (mainFromEnv x env inst ?dis adv tls k8s))\<lparr>dm_Picker := picker,
            dm_EtcdPoolConf := (dm_EtcdPoolConf (canonicalDC (os_Fqdn x) (mainFromEnv x env inst ?dis adv tls k8s)))\<lparr>et_TLS := etls\<rparr>\<rparr>"
    by auto
  with that [OF refl p, of etls] d show ?thesis by (simp add: Let_def)
qed

lemma set_Join: "set (Join sep ss) \<subseteq> set sep \<union> \<Union> (set ` set ss)"
  by (induction sep ss rule: Join.induct) auto

lemma hostOk_ipv4String: "hostOk (ipv4String ip)"
proof -
  have d: "isDigit c" if "c \<in> set (itoa n)" for c n using itoa_digits [of n] that by (auto simp: list_all_iff)
  have n: "\<not> isDigit CHR ''[''" "\<not> isDigit CHR '']''" by code_simp+
  have e: "c = CHR ''.'' \<or> isDigit c" if "c \<in> set (ipv4String ip)" for c
    using that set_Join [of "''.''" "map itoa ip"] d by (fastforce simp: ipv4String_def)
  show ?thesis unfolding hostOk_def using e [of "CHR ''[''"] e [of "CHR '']''"] n by auto
qed

lemma discoverIP_hostOk:
  assumes "discoverIP net = Inr a"
  shows "hostOk a"
proof -
  from assms obtain as where as: "discoverNetworkAddresses net = Inr (a # as)"
    by (auto simp: discoverIP_def split: sum.splits list.splits)
  then obtain ifaces where i: "hn_Interfaces net = Inr ifaces" by (auto simp: discoverNetworkAddresses_def bindE_Inr_iff)
  from discoverNetworkAddresses_eq [OF i, of "a # as"] as
  have "a \<in> set (concat (map addressesOf (filter usable ifaces)))" by (metis list.set_intros(1))
  then show ?thesis by (auto simp: addressesOf_def hostOk_ipv4String split: sum.splits)
qed

lemma ResolveHostIP_hostOk:
  assumes "ResolveHostIP contains net h = Inr h'" "hostOk h"
    "\<And>name addrs. hn_LookupHost net name = Inr addrs \<Longrightarrow> list_all hostOk addrs"
  shows "hostOk h'"
proof -
  consider (same) "h' = h" | (discovered) "discoverIP net = Inr h'" | (looked) name addrs where "hn_LookupHost net name = Inr addrs" "h' \<in> insert '''' (set addrs)"
  proof (cases "contains h [''0.0.0.0'', ''::'', ''0:0:0:0:0:0:0:0'', '''']")
    case True
    show ?thesis
    proof (cases "hn_Hostname net")
      case (Inl e)
      with True assms(1) discovered show ?thesis by (simp add: ResolveHostIP_def)
    next
      case (Inr name)
      with True assms(1) looked [of name] show ?thesis
        by (cases "hn_LookupHost net name") (auto simp: ResolveHostIP_def split: list.splits)
    qed
  qed (use assms(1) same in \<open>simp add: ResolveHostIP_def\<close>)
  then show ?thesis
  proof cases
    case looked
    from assms(3) [OF looked(1)] looked(2) show ?thesis by (auto simp: list_all_iff hostOk_def)
  qed (use assms(2) discoverIP_hostOk in simp_all)
qed

lemma advertise_ok:
  assumes "good_outside x" "advertise x dis a = Inr adv" "dis \<noteq> ''k8s''"
  obtains p where "snd adv = JoinHostPort (fst adv) p" "SplitHostPort (snd adv) = Inr (fst adv, p)"
proof -
  from assms(2,3) obtain h p h' where
    s: "SplitHostPort a = Inr (h, p)" and r: "ResolveHostIP (os_contains x) (ho_net (os_host x)) h = Inr h'" and
    adv: "adv = (h', JoinHostPort h' p)"
    by (auto simp: advertise_def bindE_Inr_iff)
  note ok = SplitHostPort_ok [OF s]
  have "hostOk h'" using assms(1) ok by (intro ResolveHostIP_hostOk [OF r]) (auto simp: good_outside_def)
  with ok adv show ?thesis by (intro that [of p]) (simp_all add: SplitHostPort_JoinHostPort)
qed

lemma JoinHostPort_not_Nil [simp]: "JoinHostPort h p \<noteq> []"
  by (simp add: JoinHostPort_def)

lemma canonicalDC_simps [simp]:
  "dm_PeerDiscoveryType (canonicalDC f d) = dm_PeerDiscoveryType d" "dm_InstanceID (canonicalDC f d) = dm_InstanceID d"
  "dm_CacheSize (canonicalDC f d) = dm_CacheSize d" "dm_GRPCListenAddress (canonicalDC f d) = dm_GRPCListenAddress d"
  "dm_HTTPListenAddress (canonicalDC f d) = dm_HTTPListenAddress d" "dm_AdvertiseAddress (canonicalDC f d) = dm_AdvertiseAddress d"
  "dm_EtcdPoolConf (canonicalDC f d) = dm_EtcdPoolConf d" "dm_K8PoolConf (canonicalDC f d) = dm_K8PoolConf d"
  "dm_MemberListPoolConf (canonicalDC f d) = dm_MemberListPoolConf d" "dm_TLS (canonicalDC f d) = dm_TLS d"
  "dc_OwnAddress (dm_DNSPoolConf (canonicalDC f d)) = dc_OwnAddress (dm_DNSPoolConf d)"
  "dc_ResolvConf (dm_DNSPoolConf (canonicalDC f d)) = dc_ResolvConf (dm_DNSPoolConf d)"
  "dc_DataCenter (dm_DNSPoolConf d) = dm_DataCenter d \<Longrightarrow> dc_DataCenter (dm_DNSPoolConf (canonicalDC f d)) = dm_DataCenter (canonicalDC f d)"
  by (simp_all add: canonicalDC_def)

lemma GetInstanceID_ok:
  assumes "good_setter st" "ho_random host \<noteq> []" "GetInstanceID st host env = Inr i"
  shows "i \<noteq> ''''"
  using assms by (auto simp: GetInstanceID_def bindE_Inr_iff good_setterD generateID_def neq_Nil_conv)

lemma k8sFromEnv_ok:
  assumes "good_setter st" "k8sFromEnv st env = Inr k"
  shows "kc_Mechanism k \<in> {WatchEndpointSlices, WatchPods}" "kc_Namespace k \<noteq> ''''"
  using assms by (auto simp: k8sFromEnv_def Let_def good_setterD WatchMechanismFromString_def split: sum.splits if_splits)

lemma tlsFromEnv_ok:
  assumes "good_setter st" "tlsFromEnv st env = Inr (Some t)"
  shows "769 \<le> tl_MinVersion t \<and> tl_MinVersion t \<le> 772 \<and> tl_ServerTLS t = None"
proof -
  have "769 \<le> getEnvMinVersion env ''GUBER_TLS_MIN_VERSION'' \<and> getEnvMinVersion env ''GUBER_TLS_MIN_VERSION'' \<le> 772"
    by (auto simp: getEnvMinVersion_def Let_def VersionTLS13_def minVersions_def split: option.splits if_splits)
  moreover have "tl_MinVersion t = sd_int st 0 [getEnvMinVersion env ''GUBER_TLS_MIN_VERSION'']" "tl_ServerTLS t = None"
    using assms(2) by (auto simp: tlsFromEnv_def bindE_Inr_iff split: if_splits)
  ultimately show ?thesis using assms(1) by (auto simp: good_setterD)
qed

lemma pickerFromEnv_ok:
  assumes "good_setter (os_setter x)" "pickerFromEnv x env = Inr (Some ring)"
  shows "ch_peers ring = [] \<and> ch_peerKeys ring = [] \<and> ch_replicas ring \<noteq> 0"
  using assms by (auto simp: pickerFromEnv_def Let_def good_setterD NewReplicatedConsistentHash_def defaultReplicas_def
      split: option.splits if_splits)

text \<open>
  C0. Every configuration that is accepted is well-formed: the discovery type is one of the choices, the
  advertised address is in the normal form of \<^verbatim>\<open>host:port\<close>, no required address, name, list or time-out is
  empty, the TLS version is a known one, a chosen ring is empty and has replicas, and the DNS pool is given
  the data centre and the address of the instance.
\<close>

theorem daemon_config_wellformed:
  assumes "good_outside x" "SetupDaemonConfig x configFile env = Inr (d, env')"
  shows "wf_daemon d"
proof -
  from assms(2) have "setupFromEnv x env' = Inr d" by (auto simp: SetupDaemonConfig_def bindE_Inr_iff)
  then show ?thesis
  proof (rule setupFromEnv_parts)
    fix inst discovery adv tls k8s picker etls
    let ?st = "os_setter x"
    let ?m = "mainFromEnv x env' inst discovery adv tls k8s"
    assume dis: "discovery = sd_str ?st '''' [Getenv env' ''GUBER_PEER_DISCOVERY_TYPE'', ''member-list'']"
      and inst: "GetInstanceID ?st (os_host x) env' = Inr inst" and ch: "os_contains x discovery discoveryTypes"
      and adv: "advertise x discovery (sd_str ?st '''' [Getenv env' ''GUBER_ADVERTISE_ADDRESS'',
         sd_str ?st '''' [Getenv env' ''GUBER_GRPC_ADDRESS'', LocalHost (os_host x) env' @ '':1051'']]) = Inr adv"
      and parts: "tlsFromEnv ?st env' = Inr tls" "k8sFromEnv ?st env' = Inr k8s" "pickerFromEnv x env' = Inr picker"
      and d: "d = (let d = canonicalDC (os_Fqdn x) ?m
          in d\<lparr>dm_Picker := picker, dm_EtcdPoolConf := (dm_EtcdPoolConf d)\<lparr>et_TLS := etls\<rparr>,
               dm_TraceLevel := sd_int ?st 0 [GetTracingLevel (os_tracing x) env']\<rparr>)"
    have st: "good_setter ?st" and r: "ho_random (os_host x) \<noteq> []" and c: "discovery \<in> set discoveryTypes"
      using assms(1) ch by (auto simp: good_outside_def good_contains_def)
    note sd = good_setterD [OF st]
    have dm: "dm_AdvertiseAddress d = snd adv" "dm_PeerDiscoveryType d = discovery" "dm_TLS d = tls" "dm_Picker d = picker"
      "dm_K8PoolConf d = k8s" "dm_InstanceID d = sd_str ?st '''' [inst]"
      "dm_EtcdPoolConf d = (dm_EtcdPoolConf ?m)\<lparr>et_TLS := etls\<rparr>" "dm_MemberListPoolConf d = dm_MemberListPoolConf ?m"
      by (simp_all add: d Let_def) (simp_all add: mainFromEnv_def Let_def)
    have a: "wf_advertise d" "snd adv \<noteq> ''''" if "discovery \<noteq> ''k8s''"
    proof -
      from advertise_ok [OF assms(1) adv that] obtain p
        where p: "snd adv = JoinHostPort (fst adv) p" "SplitHostPort (snd adv) = Inr (fst adv, p)" by blast
      then show "wf_advertise d" unfolding wf_advertise_def dm by simp
      from p show "snd adv \<noteq> ''''" by (metis JoinHostPort_not_Nil)
    qed
    have dc: "dc_DataCenter (dm_DNSPoolConf ?m) = dm_DataCenter ?m" by (simp add: mainFromEnv_def dnsFromEnv_def sd Let_def)
    have t: "case tls of None \<Rightarrow> True | Some t \<Rightarrow> 769 \<le> tl_MinVersion t \<and> tl_MinVersion t \<le> 772 \<and> tl_ServerTLS t = None"
      using tlsFromEnv_ok [OF st] parts(1) by (auto split: option.splits)
    have p: "case picker of None \<Rightarrow> True | Some ring \<Rightarrow> ch_peers ring = [] \<and> ch_peerKeys ring = [] \<and> ch_replicas ring \<noteq> 0"
      using pickerFromEnv_ok [OF st] parts(3) by (auto split: option.splits)
    have main: "dm_CacheSize d \<noteq> 0" "dm_GRPCListenAddress d \<noteq> ''''" "dm_HTTPListenAddress d \<noteq> ''''"
      by (simp_all add: d Let_def) (simp_all add: mainFromEnv_def Let_def sd)
    have dns: "dc_OwnAddress (dm_DNSPoolConf d) = snd adv" "dc_ResolvConf (dm_DNSPoolConf d) \<noteq> ''''"
      "dc_DataCenter (dm_DNSPoolConf d) = dm_DataCenter d"
      using dc by (simp_all add: d Let_def) (simp_all add: mainFromEnv_def Let_def dnsFromEnv_def sd)
    have etcd: "et_KeyPrefix (dm_EtcdPoolConf d) \<noteq> ''''" "et_Endpoints (dm_EtcdPoolConf d) \<noteq> []"
      "et_DialTimeout (dm_EtcdPoolConf d) \<noteq> 0" "snd adv \<noteq> '''' \<Longrightarrow> pi_GRPCAddress (et_Advertise (dm_EtcdPoolConf d)) \<noteq> ''''"
      by (simp_all add: dm) (simp_all add: mainFromEnv_def Let_def etcdFromEnv_def sd)
    have ml: "mc_MemberListAddress (dm_MemberListPoolConf d) \<noteq> ''''"
      "snd adv \<noteq> '''' \<Longrightarrow> pi_GRPCAddress (mc_Advertise (dm_MemberListPoolConf d)) \<noteq> ''''"
      by (simp_all add: dm) (simp_all add: mainFromEnv_def Let_def memberListFromEnv_def sd)
    have i: "dm_InstanceID d \<noteq> ''''" using GetInstanceID_ok [OF st r inst] by (simp add: dm sd)
    show ?thesis
      unfolding wf_daemon_def using a t p c i main dns etcd ml k8sFromEnv_ok [OF st parts(2)] by (simp add: dm)
  qed
qed

definition sampleOutside :: outside where
  "sampleOutside =
     \<lparr>os_setter = stdSetter, os_setTLS = stdDefault, os_setPool = stdDefault, os_setCerts = (\<lambda>x d. if x = [] then d else x),
      os_contains = (\<lambda>s ss. s \<in> set ss), os_ParseLevel = (\<lambda>_. None), os_Fqdn = (\<lambda>s. s @ ''.''), os_fnv1a = (\<lambda>_. 0), os_fnv1 = (\<lambda>_. 0),
      os_tracing = \<lparr>tr_ErrorLevel = 2, tr_InfoLevel = 4, tr_DebugLevel = 5\<rparr>,
      os_host = \<lparr>ho_darwin = False, ho_cgroup = None, ho_random = [1, 2, 3, 4, 5], ho_net = sampleNet\<rparr>,
      os_crypto = sampleCrypto, os_debug = False\<rparr>"

lemma good_sampleOutside: "good_outside sampleOutside"
  by (auto simp: good_outside_def sampleOutside_def good_stdSetter good_contains_def sampleNet_def hostOk_def)

definition sampleEnv :: env where
  "sampleEnv =
     [(''GUBER_PEER_DISCOVERY_TYPE'', ''dns''), (''GUBER_GRPC_ADDRESS'', ''0.0.0.0:1051''), (''GUBER_DATA_CENTER'', ''gubernator.east''),
      (''GUBER_DNS_FQDN'', ''gubernator.east,gubernator.west''), (''GUBER_BATCH_WAIT'', ''2ms''), (''GUBER_TLS_CLIENT_AUTH'', ''require-and-verify'')]"

text \<open>A DNS configuration on all interfaces: the advertised address is the one of the host name.\<close>

theorem daemon_config_wellformed_witness:
  "case SetupDaemonConfig sampleOutside None sampleEnv of
     Inl _ \<Rightarrow> False
   | Inr (d, _) \<Rightarrow> wf_daemon d \<and> dm_AdvertiseAddress d = ''10.0.0.1:1051'' \<and> dm_DataCenter d = ''gubernator.east.''
       \<and> bc_BatchWait (dm_Behaviors d) = 2000000"
proof -
  have "case SetupDaemonConfig sampleOutside None sampleEnv of
     Inl _ \<Rightarrow> False
   | Inr (d, _) \<Rightarrow> dm_AdvertiseAddress d = ''10.0.0.1:1051'' \<and> dm_DataCenter d = ''gubernator.east.'' \<and> bc_BatchWait (dm_Behaviors d) = 2000000"
    by code_simp
  then show ?thesis using daemon_config_wellformed [OF good_sampleOutside] by (auto split: sum.splits)
qed

subsection \<open>Gossip verification\<close>

text \<open>
  C0. The verification of gossip cannot be switched off: whatever the environment says, an accepted
  configuration verifies incoming and outgoing gossip, because a value of \<^verbatim>\<open>false\<close> is taken for an unset one.
\<close>

theorem gossip_verification_forced:
  assumes "good_outside x" "SetupDaemonConfig x configFile env = Inr (d, env')"
  shows "me_GossipVerifyIncoming (mc_EncryptionConfig (dm_MemberListPoolConf d))
    \<and> me_GossipVerifyOutgoing (mc_EncryptionConfig (dm_MemberListPoolConf d))"
proof -
  from assms(2) have "setupFromEnv x env' = Inr d" by (auto simp: SetupDaemonConfig_def bindE_Inr_iff)
  then obtain inst discovery adv tls k8s where
    "dm_MemberListPoolConf d = dm_MemberListPoolConf (mainFromEnv x env' inst discovery adv tls k8s)"
    by (rule setupFromEnv_parts) (simp add: Let_def)
  moreover have "good_setter (os_setter x)" using assms(1) by (simp add: good_outside_def)
  ultimately show ?thesis by (simp add: mainFromEnv_def memberListFromEnv_def Let_def good_setterD)
qed

text \<open>Both variables are false.\<close>

theorem gossip_verification_forced_witness:
  "case SetupDaemonConfig sampleOutside None
     [(''GUBER_MEMBERLIST_KNOWN_NODES'', ''10.0.0.2''), (''GUBER_MEMBERLIST_GOSSIP_VERIFY_INCOMING'', ''false''),
      (''GUBER_MEMBERLIST_GOSSIP_VERIFY_OUTGOING'', ''false'')] of
     Inl _ \<Rightarrow> False
   | Inr (d, _) \<Rightarrow> me_GossipVerifyIncoming (mc_EncryptionConfig (dm_MemberListPoolConf d))"
proof -
  let ?r = "SetupDaemonConfig sampleOutside None
     [(''GUBER_MEMBERLIST_KNOWN_NODES'', ''10.0.0.2''), (''GUBER_MEMBERLIST_GOSSIP_VERIFY_INCOMING'', ''false''),
      (''GUBER_MEMBERLIST_GOSSIP_VERIFY_OUTGOING'', ''false'')]"
  have "\<not> isl ?r" by code_simp
  then obtain d e where r: "?r = Inr (d, e)" by (metis sum.collapse(2) surj_pair)
  with gossip_verification_forced [OF good_sampleOutside r] show ?thesis by simp
qed

subsection \<open>What the pools accept\<close>

text \<open>The constructor of the DNS pool accepts every accepted configuration for which there is a resolver.\<close>

lemma dns_pool_accepts:
  assumes "wf_daemon d" "dm_PeerDiscoveryType d \<noteq> ''k8s''" "newResolver exists config (dm_DNSPoolConf d) = Inr r"
  shows "\<exists>pool. NewDNSPool fqdn exists config (dm_DNSPoolConf d) = Inr pool"
proof -
  from assms(1,2) have o: "dc_OwnAddress (dm_DNSPoolConf d) = dm_AdvertiseAddress d" and w: "wf_advertise d" by (simp_all add: wf_daemon_def)
  from w obtain h p where "SplitHostPort (dm_AdvertiseAddress d) = Inr (h, p)" "dm_AdvertiseAddress d = JoinHostPort h p"
    by (auto simp: wf_advertise_def split: sum.splits)
  with o assms(3) show ?thesis by (simp add: NewDNSPool_def wrapE_def)
qed

text \<open>The default address of the member list is not bracketed, so an IPv6 host gives an address that cannot be split.\<close>

lemma SplitHostPort_many_colons:
  assumes "CHR '':'' \<in> set h" "h \<noteq> []" "hd h \<noteq> CHR ''[''" "CHR '':'' \<notin> set p"
  shows "\<exists>e. SplitHostPort (h @ CHR '':'' # p) = Inl e"
proof -
  have "splitLast (CHR '':'') (h @ CHR '':'' # p) = Some (h, p)" using assms(4) by (rule splitLast_append)
  moreover have "hd (h @ CHR '':'' # p) \<noteq> CHR ''[''" using assms(2,3) by simp
  ultimately show ?thesis using assms(1) by (simp add: SplitHostPort_def)
qed

lemma memberlist_ipv6_default_invalid:
  assumes "good_setter st" "Getenv env ''GUBER_MEMBERLIST_ADDRESS'' = ''''" "CHR '':'' \<in> set h" "hostOk h" "h \<noteq> []"
  shows "\<exists>e. splitAddress (mc_MemberListAddress (memberListFromEnv st env h a dc)) = Inl e"
proof -
  have "hd h \<noteq> CHR ''[''" using assms(4,5) by (cases h) (auto simp: hostOk_def)
  then have "\<exists>e. SplitHostPort (h @ '':7946'') = Inl e" using assms(3,5) SplitHostPort_many_colons [of h "''7946''"] by simp
  moreover have "mc_MemberListAddress (memberListFromEnv st env h a dc) = h @ '':7946''"
    using assms(1,2) by (simp add: memberListFromEnv_def good_setterD)
  ultimately show ?thesis by (auto simp: splitAddress_def)
qed

text \<open>A container whose name is shorter than 12 bytes stops the set-up.\<close>

lemma short_container_name_panics: "getDockerCID (Some [''1:name=systemd:/docker/abc'']) = Inl (Panic ''slice bounds out of range'')"
  by code_simp

end
