(* ===== verification/Daemon.thy ===== *)
theory Daemon
  imports Instance Environment
begin

text \<open>
  The daemon, \<^verbatim>\<open>daemon.go\<close>: \<^verbatim>\<open>SpawnDaemon\<close>, \<^verbatim>\<open>Start\<close> as the sequence of its stages, and \<^verbatim>\<open>Close\<close>. A stage returns
  an error or nothing, and the daemon as it left it; the daemon that a failed stage leaves is closed. The
  network (listeners, connections), the registry of metrics, the gateway and the clients of the discovery
  services are parameters. Sockets that are open are kept in the state with the server that closes them.
\<close>

subsection \<open>State\<close>

datatype pool = K8sPoolOf K8sPool | EtcdPoolOf EtcdPool keepState | DNSPoolOf DNSPool | MemberListPoolOf "MemberListPool option"

text \<open>An HTTP server with the routes of its handler.\<close>

record httpServer =
  hs_Addr :: string
  hs_routes :: "string list"
  hs_TLSConfig :: "tlsConf option"

datatype sockOwner = GRPCServer nat | HTTPServer | StatusServer | NoServer

text \<open>
  A gRPC server is its transport credentials. The last three fields are not fields of the source: the
  reloaders of key pairs, the local variable \<^verbatim>\<open>gatewayAddr\<close> and the open sockets.
\<close>

record ('s, 'c) Daemon =
  da_GRPCListeners :: "string list"
  da_HTTPListener :: "string option"
  da_V1Server :: "('s, 'c) V1Instance option"
  da_InstanceID :: string
  da_PeerInfo :: PeerInfo
  da_logWriter :: bool
  da_pool :: "pool option"
  da_conf :: DaemonConfig
  da_httpSrv :: "httpServer option"
  da_httpSrvNoMTLS :: "httpServer option"
  da_grpcSrvs :: "tlsConf option list"
  da_statsHandler :: bool
  da_gwCancel :: bool
  da_client :: bool
  da_clientConn :: bool
  da_reloaders :: "keypairReloader list"
  da_gatewayAddr :: string
  da_sockets :: "(string \<times> sockOwner) list"

record listens =
  li_GRPC :: "string \<Rightarrow> goerr + string"
  li_Gateway :: "string \<Rightarrow> goerr + string"
  li_HTTP :: "string \<Rightarrow> goerr + string"
  li_Status :: "string \<Rightarrow> goerr + string"

text \<open>What the instance and the pools are given from outside.\<close>

record ('s, 'c) instanceParams =
  ip_xxhash :: "string \<Rightarrow> 64 word"
  ip_numCPU :: int
  ip_instanceID :: string
  ip_ops :: "'s StoreOps option"
  ip_store :: 's
  ip_now :: Time
  ip_loaded :: "goerr + CacheItem list"
  ip_errCache :: "'c ErrCache"
  ip_dial :: "string \<Rightarrow> DialOption list \<Rightarrow> goerr option"
  ip_ctxErr :: "goerr option"

record poolParams =
  pp_restErr :: "goerr option"
  pp_clientErr :: "goerr option"
  pp_synced :: bool
  pp_events :: "(goerr option \<times> k8sObject list) list"
  pp_etcdClient :: "EtcdPoolConfig \<Rightarrow> goerr option"
  pp_json :: "string \<Rightarrow> goerr + PeerInfo"
  pp_register :: registerCalls
  pp_getPrefix :: "string \<Rightarrow> goerr + string list \<times> int"
  pp_ready :: bool
  pp_resolvExists :: bool
  pp_resolvConf :: "goerr + string list"
  pp_codec :: metaCodec
  pp_addKey :: "string \<Rightarrow> goerr option"
  pp_create :: "mlConfig \<Rightarrow> goerr option"
  pp_joinErr :: "goerr option"
  pp_localAddr :: string
  pp_early :: "memberListEventHandler \<Rightarrow> memberListEventHandler"

text \<open>What a start is given. The context is represented by its error once it has ended.\<close>

record ('s, 'c) daemonEnv =
  de_outside :: outside
  de_register :: "goerr option"
  de_instance :: "('s, 'c) instanceParams"
  de_pools :: poolParams
  de_listen :: listens
  de_gateway :: "string \<Rightarrow> goerr option"
  de_dial :: "string \<Rightarrow> goerr option"
  de_ctxErr :: goerr

definition newInstance :: "('s, 'c) daemonEnv \<Rightarrow> Config \<Rightarrow> goerr + ('s, 'c) V1Instance" where
  "newInstance E =
     (let x = de_outside E; ip = de_instance E
      in NewV1Instance (os_setter x) (os_fnv1 x) (ip_xxhash ip) (ip_numCPU ip) (ip_instanceID ip) (ip_ops ip) (ip_store ip) (ip_now ip) (ip_loaded ip))"

definition setPeers :: "('s, 'c) daemonEnv \<Rightarrow> bool \<Rightarrow> PeerInfo list \<Rightarrow> ('s, 'c) V1Instance \<Rightarrow> ('s, 'c) V1Instance" where
  "setPeers E hasTLS infos s =
     (let ip = de_instance E in snd (SetPeers (ip_errCache ip) (ip_dial ip) hasTLS (ip_ctxErr ip) infos s))"

subsection \<open>The stages of Start\<close>

type_synonym ('s, 'c) stage = "('s, 'c) Daemon \<Rightarrow> goerr option \<times> ('s, 'c) Daemon"

fun runStages :: "('s, 'c) stage list \<Rightarrow> ('s, 'c) stage" where
  "runStages [] d = (None, d)"
| "runStages (f # fs) d = (case f d of (Some e, d') \<Rightarrow> (Some e, d') | (None, d') \<Rightarrow> runStages fs d')"

definition openSocket :: "string \<Rightarrow> sockOwner \<Rightarrow> ('s, 'c) Daemon \<Rightarrow> ('s, 'c) Daemon" where
  "openSocket a owner d = d\<lparr>da_sockets := (a, owner) # da_sockets d\<rparr>"

definition startAdvertise :: "('s, 'c) stage" where
  "startAdvertise d =
     (let c = da_conf d; k = dm_K8PoolConf c
      in (None, if dm_PeerDiscoveryType c = ''k8s'' \<and> kc_PodIP k \<noteq> '''' \<and> kc_PodPort k \<noteq> ''''
                then d\<lparr>da_conf := c\<lparr>dm_AdvertiseAddress := JoinHostPort (kc_PodIP k) (kc_PodPort k)\<rparr>\<rparr> else d))"

definition startMetrics :: "('s, 'c) daemonEnv \<Rightarrow> ('s, 'c) stage" where
  "startMetrics E d =
     (case de_register E of
        Some e \<Rightarrow> (Some (WrapErr ''during call to promRegister.Register()'' e), d)
      | None \<Rightarrow> (None, d\<lparr>da_statsHandler := True\<rparr>))"

definition startTLS :: "('s, 'c) daemonEnv \<Rightarrow> ('s, 'c) stage" where
  "startTLS E d =
     (let x = de_outside E
      in case SetupTLS (os_setTLS x) (os_crypto x) (ho_net (os_host x)) (dm_TLS (da_conf d)) of
           Inl e \<Rightarrow> (Some e, d)
         | Inr (t, rs) \<Rightarrow> (None, d\<lparr>da_conf := (da_conf d)\<lparr>dm_TLS := t\<rparr>, da_reloaders := rs\<rparr>))"

text \<open>With TLS there are two servers: the public one, and one without credentials for the gateway.\<close>

definition startServers :: "('s, 'c) stage" where
  "startServers d =
     (None, d\<lparr>da_grpcSrvs := (case ServerTLS (da_conf d) of None \<Rightarrow> [] | Some t \<Rightarrow> [Some t]) @ [None]\<rparr>)"

definition instanceConf :: "outside \<Rightarrow> ('s, 'c) Daemon \<Rightarrow> Config" where
  "instanceConf x d =
     (let c = da_conf d
      in \<lparr>c_InstanceID = dm_InstanceID c, c_GRPCServers = Some (length (da_grpcSrvs d)), c_Behaviors = dm_Behaviors c,
          c_CacheFactory = Some NewLRUCache, c_hasStore = dm_hasStore c, c_hasLoader = dm_hasLoader c,
          c_LocalPicker = dm_Picker c, c_RegionPicker = None, c_DataCenter = dm_DataCenter c, c_AdvertiseAddr = dm_AdvertiseAddress c,
          c_PeerTraceGRPC = (dm_TraceLevel c \<ge> tr_DebugLevel (os_tracing x)), c_Workers = dm_Workers c, c_CacheSize = dm_CacheSize c,
          c_hasEventChannel = dm_hasEventChannel c\<rparr>)"

definition startInstance :: "('s, 'c) daemonEnv \<Rightarrow> ('s, 'c) stage" where
  "startInstance E d =
     (case newInstance E (instanceConf (de_outside E) d) of
        Inl e \<Rightarrow> (Some (WrapErr ''while creating new gubernator instance'' e), d)
      | Inr s \<Rightarrow> (None, d\<lparr>da_V1Server := Some s\<rparr>))"

definition startGRPC :: "('s, 'c) daemonEnv \<Rightarrow> ('s, 'c) stage" where
  "startGRPC E d =
     (case li_GRPC (de_listen E) (dm_GRPCListenAddress (da_conf d)) of
        Inl e \<Rightarrow> (Some (WrapErr ''while starting GRPC listener'' e), d)
      | Inr a \<Rightarrow> (None, openSocket a (GRPCServer 0) (d\<lparr>da_GRPCListeners := da_GRPCListeners d @ [a]\<rparr>)))"

definition startGateway :: "('s, 'c) daemonEnv \<Rightarrow> ('s, 'c) stage" where
  "startGateway E d =
     (if ServerTLS (da_conf d) \<noteq> None then
        (case li_Gateway (de_listen E) ''127.0.0.1:0'' of
           Inl e \<Rightarrow> (Some (WrapErr ''while starting GRPC Gateway listener'' e), d)
         | Inr a \<Rightarrow> (None, openSocket a (GRPCServer 1) (d\<lparr>da_GRPCListeners := da_GRPCListeners d @ [a], da_gatewayAddr := a\<rparr>)))
      else
        (case ResolveHostIP (os_contains (de_outside E)) (ho_net (os_host (de_outside E))) (dm_GRPCListenAddress (da_conf d)) of
           Inl e \<Rightarrow> (Some (WrapErr ''while resolving GRPC gateway client address'' e), d)
         | Inr a \<Rightarrow> (None, d\<lparr>da_gatewayAddr := a\<rparr>)))"

fun poolUpdates :: "pool \<Rightarrow> PeerInfo list list" where
  "poolUpdates (K8sPoolOf p) = kp_updates p"
| "poolUpdates (EtcdPoolOf p k) = ep_updates p"
| "poolUpdates (DNSPoolOf p) = dp_updates p"
| "poolUpdates (MemberListPoolOf None) = []"
| "poolUpdates (MemberListPoolOf (Some m)) = eh_updates (mp_events m)"

definition discover :: "outside \<Rightarrow> poolParams \<Rightarrow> DaemonConfig \<Rightarrow> goerr + pool option" where
  "discover x pp c =
     (if dm_PeerDiscoveryType c = ''k8s'' then
        bindE (wrapE ''while querying kubernetes API'' (NewK8sPool (pp_restErr pp) (pp_clientErr pp) (pp_synced pp) (pp_events pp) (dm_K8PoolConf c))) (\<lambda>p. Inr (Some (K8sPoolOf p)))
      else if dm_PeerDiscoveryType c = ''etcd'' then
        (case pp_etcdClient pp (dm_EtcdPoolConf c) of
           Some e \<Rightarrow> Inl (WrapErr ''while connecting to etcd'' e)
         | None \<Rightarrow>
             bindE (wrapE ''while creating etcd pool'' 
                      (NewEtcdPool (os_setter x) (pp_json pp) (pp_register pp) (pp_getPrefix pp) (pp_ready pp) ((dm_EtcdPoolConf c)\<lparr>et_hasClient := True\<rparr>))) (\<lambda>(p, k).
               Inr (Some (EtcdPoolOf p k))))
      else if dm_PeerDiscoveryType c = ''dns'' then
        bindE (wrapE ''while creating the DNS pool'' (NewDNSPool (os_Fqdn x) (pp_resolvExists pp) (pp_resolvConf pp) (dm_DNSPoolConf c))) (\<lambda>p. Inr (Some (DNSPoolOf p)))
      else if dm_PeerDiscoveryType c = ''member-list'' then
        bindE (wrapE ''while creating member list pool'' 
                 (NewMemberListPool (pp_codec pp) (ho_net (os_host x)) (pp_addKey pp) (pp_create pp) (pp_joinErr pp) (pp_localAddr pp) (pp_early pp) (dm_MemberListPoolConf c))) (\<lambda>p. Inr (Some (MemberListPoolOf p)))
      else Inr None)"

text \<open>The pool hands its lists of peers to \<^verbatim>\<open>SetPeers\<close> of the instance, the first one first.\<close>

definition startPool :: "('s, 'c) daemonEnv \<Rightarrow> ('s, 'c) stage" where
  "startPool E d =
     (case discover (de_outside E) (de_pools E) (da_conf d) of
        Inl e \<Rightarrow> (Some e, d)
      | Inr None \<Rightarrow> (None, d)
      | Inr (Some p) \<Rightarrow>
          (None, d\<lparr>da_pool := Some p,
                   da_V1Server := map_option (fold (setPeers E (ClientTLS (da_conf d) \<noteq> None)) (rev (poolUpdates p))) (da_V1Server d)\<rparr>))"

definition startHandler :: "('s, 'c) daemonEnv \<Rightarrow> ('s, 'c) stage" where
  "startHandler E d =
     (let d = d\<lparr>da_gwCancel := True\<rparr>
      in case de_gateway E (da_gatewayAddr d) of
           Some e \<Rightarrow> (Some (WrapErr ''while registering GRPC gateway handler'' e), d)
         | None \<Rightarrow> (None, d))"

text \<open>The listener is opened here, and served only after the status listener has been opened.\<close>

definition startHTTP :: "('s, 'c) daemonEnv \<Rightarrow> ('s, 'c) stage" where
  "startHTTP E d =
     (let d = d\<lparr>da_logWriter := True,
                da_httpSrv := Some \<lparr>hs_Addr = dm_HTTPListenAddress (da_conf d), hs_routes = [''/metrics'', ''/''], hs_TLSConfig = None\<rparr>\<rparr>
      in case li_HTTP (de_listen E) (dm_HTTPListenAddress (da_conf d)) of
           Inl e \<Rightarrow> (Some (WrapErr ''while starting HTTP listener'' e), d\<lparr>da_HTTPListener := None\<rparr>)
         | Inr a \<Rightarrow> (None, openSocket a NoServer (d\<lparr>da_HTTPListener := Some a\<rparr>)))"

definition startStatus :: "('s, 'c) daemonEnv \<Rightarrow> ('s, 'c) stage" where
  "startStatus E d =
     (case ServerTLS (da_conf d) of
        None \<Rightarrow> (None, d)
      | Some t \<Rightarrow>
          let a = dm_HTTPStatusListenAddress (da_conf d)
          in if a = '''' then (None, d)
             else
               (let d = d\<lparr>da_httpSrvNoMTLS := Some \<lparr>hs_Addr = a, hs_routes = [''/v1/HealthCheck''], hs_TLSConfig = Some (t\<lparr>tls_ClientAuth := NoClientCert\<rparr>)\<rparr>\<rparr>
                in case li_Status (de_listen E) a of
                     Inl e \<Rightarrow> (Some (WrapErr ''while starting HTTP listener for health metric'' e), d)
                   | Inr b \<Rightarrow> (None, openSocket b StatusServer d)))"

text \<open>From here on the HTTP server closes the listener.\<close>

definition startServe :: "('s, 'c) stage" where
  "startServe d =
     (None, d\<lparr>da_httpSrv := map_option (\<lambda>s. s\<lparr>hs_TLSConfig := ServerTLS (da_conf d)\<rparr>) (da_httpSrv d),
              da_sockets := map (\<lambda>(a, s). if s = NoServer then (a, HTTPServer) else (a, s)) (da_sockets d)\<rparr>)"

text \<open>
  \<^verbatim>\<open>WaitForConnect\<close> dials every address once. When one refuses, it waits for the end of the context and
  returns the error of the context.
\<close>

definition WaitForConnect :: "(string \<Rightarrow> goerr option) \<Rightarrow> goerr \<Rightarrow> string list \<Rightarrow> goerr option" where
  "WaitForConnect dial ctxErr addresses =
     (let errs = filter (\<lambda>a. a \<noteq> '''' \<and> dial a \<noteq> None) addresses in if errs = [] then None else Some ctxErr)"

definition startWait :: "('s, 'c) daemonEnv \<Rightarrow> ('s, 'c) stage" where
  "startWait E d =
     (WaitForConnect (de_dial E) (de_ctxErr E)
        (map fst (filter (\<lambda>(_, s). s = HTTPServer \<or> s = StatusServer) (da_sockets d)) @ da_GRPCListeners d), d)"

definition Start :: "('s, 'c) daemonEnv \<Rightarrow> ('s, 'c) stage" where
  "Start E =
     runStages [startAdvertise, startMetrics E, startTLS E, startServers, startInstance E, startGRPC E, startGateway E,
                startPool E, startHandler E, startHTTP E, startStatus E, startServe, startWait E]"

subsection \<open>The end\<close>

text \<open>Closing the pool; a nil member list and a second close of a Kubernetes pool panic.\<close>

fun closePool :: "pool \<Rightarrow> goerr option \<times> pool" where
  "closePool (K8sPoolOf p) = (case CloseK8s p of (e, p') \<Rightarrow> (e, K8sPoolOf p'))"
| "closePool (EtcdPoolOf p k) = (None, case CloseEtcd (Some p) of Some p' \<Rightarrow> EtcdPoolOf p' k | None \<Rightarrow> EtcdPoolOf p k)"
| "closePool (DNSPoolOf p) = (None, DNSPoolOf (CloseDNS p))"
| "closePool (MemberListPoolOf (Some m)) = (None, MemberListPoolOf (Some (CloseMemberList m)))"
| "closePool (MemberListPoolOf None) = (Some (Panic ''invalid memory address or nil pointer dereference''), MemberListPoolOf None)"

definition closesSocket :: "('s, 'c) Daemon \<Rightarrow> sockOwner \<Rightarrow> bool" where
  "closesSocket d s =
     (case s of
        GRPCServer i \<Rightarrow> i < length (da_grpcSrvs d)
      | HTTPServer \<Rightarrow> da_httpSrv d \<noteq> None
      | StatusServer \<Rightarrow> da_httpSrvNoMTLS d \<noteq> None
      | NoServer \<Rightarrow> False)"

text \<open>The loader of the instance is threaded through; \<^term>\<open>save\<close> is what it does with the items.\<close>

definition CloseDaemon ::
  "'c ErrCache \<Rightarrow> (CacheItem list \<Rightarrow> 'l \<Rightarrow> (goerr + unit) \<times> 'l) \<Rightarrow> Time \<Rightarrow> ('s, 'c) Daemon \<times> 'l \<Rightarrow> goerr option \<times> ('s, 'c) Daemon \<times> 'l" where
  "CloseDaemon ec save now = (\<lambda>(d, l).
     (case (case da_pool d of None \<Rightarrow> (None, None) | Some p \<Rightarrow> (case closePool p of (e, p') \<Rightarrow> (e, Some p'))) of
        (Some e, p) \<Rightarrow> (Some e, d\<lparr>da_pool := p\<rparr>, l)
      | (None, p) \<Rightarrow>
          (let sockets = filter (\<lambda>(_, s). \<not> closesSocket d s) (da_sockets d);
               (server, l') = (case da_V1Server d of
                                 None \<Rightarrow> (None, l)
                               | Some s \<Rightarrow> (case CloseInstance ec save now (s, l) of (_, s', l') \<Rightarrow> (Some s', l')))
           in (None, d\<lparr>da_pool := p, da_V1Server := server, da_sockets := sockets, da_httpSrv := None, da_httpSrvNoMTLS := None,
                       da_grpcSrvs := [], da_client := False, da_clientConn := False\<rparr>, l'))))"

definition newDaemon :: "DaemonConfig \<Rightarrow> ('s, 'c) Daemon" where
  "newDaemon conf =
     \<lparr>da_GRPCListeners = [], da_HTTPListener = None, da_V1Server = None, da_InstanceID = dm_InstanceID conf, da_PeerInfo = zeroPeer,
      da_logWriter = False, da_pool = None, da_conf = conf, da_httpSrv = None, da_httpSrvNoMTLS = None, da_grpcSrvs = [],
      da_statsHandler = False, da_gwCancel = False, da_client = False, da_clientConn = False, da_reloaders = [],
      da_gatewayAddr = '''', da_sockets = []\<rparr>"

text \<open>The daemon, running or closed after a failure, with the error.\<close>

definition SpawnDaemon ::
  "('s, 'c) daemonEnv \<Rightarrow> (CacheItem list \<Rightarrow> 'l \<Rightarrow> (goerr + unit) \<times> 'l) \<Rightarrow> DaemonConfig \<Rightarrow> 'l \<Rightarrow> goerr option \<times> ('s, 'c) Daemon \<times> 'l" where
  "SpawnDaemon E save conf l =
     (case Start E (newDaemon conf) of
        (None, d) \<Rightarrow> (None, d, l)
      | (Some e, d) \<Rightarrow>
          (case CloseDaemon (ip_errCache (de_instance E)) save (ip_now (de_instance E)) (d, l) of
             (Some panic, d', l') \<Rightarrow> (Some panic, d', l')
           | (None, d', l') \<Rightarrow> (Some e, d', l')))"

subsection \<open>Peers and client\<close>

definition markAdvertised :: "string \<Rightarrow> PeerInfo \<Rightarrow> PeerInfo" where
  "markAdvertised own p = (if own = pi_GRPCAddress p then p\<lparr>pi_IsOwner := True\<rparr> else p)"

text \<open>A daemon that was not started has no instance, and both operations panic.\<close>

definition DaemonSetPeers :: "('s, 'c) daemonEnv \<Rightarrow> PeerInfo list \<Rightarrow> ('s, 'c) stage" where
  "DaemonSetPeers E peers d =
     (case da_V1Server d of
        None \<Rightarrow> (Some nilDereference, d)
      | Some s \<Rightarrow>
          (None, d\<lparr>da_V1Server := Some (setPeers E (ClientTLS (da_conf d) \<noteq> None)
                                        (map (markAdvertised (dm_AdvertiseAddress (da_conf d))) peers) s)\<rparr>))"

definition DaemonPeers :: "('s, 'c) Daemon \<Rightarrow> goerr + PeerInfo list" where
  "DaemonPeers d = (case da_V1Server d of None \<Rightarrow> Inl nilDereference | Some s \<Rightarrow> Inr (map pr_Info (GetPeerList s)))"

text \<open>The connection is made for the address in \<^verbatim>\<open>PeerInfo\<close>; whether it can be made is a parameter.\<close>

definition Client :: "(string \<Rightarrow> goerr option) \<Rightarrow> ('s, 'c) Daemon \<Rightarrow> (goerr + unit) \<times> ('s, 'c) Daemon" where
  "Client newClient d =
     (if da_client d \<and> da_clientConn d then (Inr (), d)
      else if \<not> da_clientConn d then
        (case newClient (''static:///'' @ pi_GRPCAddress (da_PeerInfo d)) of
           Some e \<Rightarrow> (Inl e, d)
         | None \<Rightarrow> (Inr (), d\<lparr>da_clientConn := True, da_client := True\<rparr>))
      else (Inr (), d\<lparr>da_client := True\<rparr>))"

definition MustClient :: "(string \<Rightarrow> goerr option) \<Rightarrow> ('s, 'c) Daemon \<Rightarrow> (goerr + unit) \<times> ('s, 'c) Daemon" where
  "MustClient newClient d =
     (case Client newClient d of
        (Inl e, d') \<Rightarrow> (Inl (Panic (''['' @ da_InstanceID d @ ''] failed to init daemon client - '' @ quoted (err_msg e))), d')
      | r \<Rightarrow> r)"

subsection \<open>Stages\<close>

lemma runStages_None:
  "runStages [] d = (None, d') \<longleftrightarrow> d' = d"
  "runStages (f # fs) d = (None, d') \<longleftrightarrow> (\<exists>d1. f d = (None, d1) \<and> runStages fs d1 = (None, d'))"
  by (auto split: prod.splits option.splits)

lemma runStages_append:
  "runStages (fs @ gs) d = (case runStages fs d of (Some e, d') \<Rightarrow> (Some e, d') | (None, d') \<Rightarrow> runStages gs d')"
  by (induction fs arbitrary: d) (auto split: prod.splits option.splits)

lemma runStages_inv:
  "(\<And>f d. f \<in> set fs \<Longrightarrow> P d \<Longrightarrow> P (snd (f d))) \<Longrightarrow> P d \<Longrightarrow> runStages fs d = (r, d') \<Longrightarrow> P d'"
proof (induction fs arbitrary: d)
  case (Cons f fs)
  have "P (snd (f d))" using Cons.prems(1,2) by simp
  moreover obtain r1 d1 where f: "f d = (r1, d1)" by fastforce
  ultimately show ?case using Cons.IH [of d1] Cons.prems by (cases r1) simp_all
qed simp

text \<open>The sockets that the servers of a daemon close.\<close>

definition closable :: "('s, 'c) Daemon \<Rightarrow> bool" where
  "closable d \<longleftrightarrow> (\<forall>x \<in> set (da_sockets d). closesSocket d (snd x))"

definition twoServers :: "('s, 'c) Daemon \<Rightarrow> bool" where
  "twoServers d \<longleftrightarrow> length (da_grpcSrvs d) = (if ServerTLS (da_conf d) \<noteq> None then 2 else 1)"

definition serving :: "('s, 'c) Daemon \<Rightarrow> bool" where
  "serving d \<longleftrightarrow> closable d \<and> twoServers d"

lemma sel_openSocket [simp]:
  "da_sockets (openSocket a o' d) = (a, o') # da_sockets d" "da_grpcSrvs (openSocket a o' d) = da_grpcSrvs d" "da_conf (openSocket a o' d) = da_conf d"
  "da_httpSrv (openSocket a o' d) = da_httpSrv d" "da_httpSrvNoMTLS (openSocket a o' d) = da_httpSrvNoMTLS d"
  "da_GRPCListeners (openSocket a o' d) = da_GRPCListeners d" "da_pool (openSocket a o' d) = da_pool d"
  by (simp_all add: openSocket_def)

lemma startAdvertise_sel: "da_sockets (snd (startAdvertise d)) = da_sockets d" "dm_TLS (da_conf (snd (startAdvertise d))) = dm_TLS (da_conf d)"
  by (simp_all add: startAdvertise_def Let_def)

lemma startMetrics_sel: "da_sockets (snd (startMetrics E d)) = da_sockets d" "da_conf (snd (startMetrics E d)) = da_conf d"
  by (simp_all add: startMetrics_def split: option.splits)

lemma startTLS_sel: "da_sockets (snd (startTLS E d)) = da_sockets d"
  by (simp add: startTLS_def Let_def split: sum.splits prod.splits)

text \<open>What a stage between the creation of the servers and the HTTP listener does to servers and sockets.\<close>

definition sameServers :: "('s, 'c) Daemon \<Rightarrow> ('s, 'c) Daemon \<Rightarrow> bool" where
  "sameServers d d' \<longleftrightarrow> da_conf d' = da_conf d \<and> da_grpcSrvs d' = da_grpcSrvs d \<and> da_httpSrv d' = da_httpSrv d \<and> da_httpSrvNoMTLS d' = da_httpSrvNoMTLS d"

lemma startInstance_sel: "sameServers d (snd (startInstance E d))" "da_sockets (snd (startInstance E d)) = da_sockets d"
    "da_GRPCListeners (snd (startInstance E d)) = da_GRPCListeners d"
  by (simp_all add: startInstance_def sameServers_def split: sum.splits)

lemma startPool_sel: "sameServers d (snd (startPool E d))" "da_sockets (snd (startPool E d)) = da_sockets d"
    "da_GRPCListeners (snd (startPool E d)) = da_GRPCListeners d"
  by (simp_all add: startPool_def sameServers_def split: sum.splits option.splits)

lemma startHandler_sel: "sameServers d (snd (startHandler E d))" "da_sockets (snd (startHandler E d)) = da_sockets d"
    "da_GRPCListeners (snd (startHandler E d)) = da_GRPCListeners d"
  by (simp_all add: startHandler_def sameServers_def Let_def split: option.splits)

lemma startGRPC_sel: "sameServers d (snd (startGRPC E d))"
    "da_sockets (snd (startGRPC E d)) = da_sockets d \<or> (\<exists>a. da_sockets (snd (startGRPC E d)) = (a, GRPCServer 0) # da_sockets d)"
  by (simp_all add: startGRPC_def sameServers_def split: sum.splits)

lemma startGateway_sel: "sameServers d (snd (startGateway E d))"
    "da_sockets (snd (startGateway E d)) = da_sockets d \<or>
     ServerTLS (da_conf d) \<noteq> None \<and> (\<exists>a. li_Gateway (de_listen E) ''127.0.0.1:0'' = Inr a \<and> da_sockets (snd (startGateway E d)) = (a, GRPCServer 1) # da_sockets d)"
  by (simp_all add: startGateway_def sameServers_def split: sum.splits)

lemma closesSocket_simps [simp]:
  "closesSocket d (GRPCServer i) \<longleftrightarrow> i < length (da_grpcSrvs d)" "closesSocket d HTTPServer \<longleftrightarrow> da_httpSrv d \<noteq> None"
  "closesSocket d StatusServer \<longleftrightarrow> da_httpSrvNoMTLS d \<noteq> None" "\<not> closesSocket d NoServer"
  by (simp_all add: closesSocket_def)

lemma sameServers_eq:
  assumes "sameServers d d'"
  shows "closesSocket d' = closesSocket d" "twoServers d' = twoServers d"
  using assms by (auto simp: sameServers_def twoServers_def closesSocket_def fun_eq_iff split: sockOwner.split)

lemma serving_same: "sameServers d d' \<Longrightarrow> serving d \<Longrightarrow> da_sockets d' = da_sockets d \<Longrightarrow> serving d'"
  by (simp add: serving_def closable_def sameServers_eq)

lemma twoServers_index: "twoServers d \<Longrightarrow> i = 0 \<or> i = 1 \<and> ServerTLS (da_conf d) \<noteq> None \<Longrightarrow> i < length (da_grpcSrvs d)"
  by (auto simp: twoServers_def split: if_splits)

lemma serving_open:
  "sameServers d d' \<Longrightarrow> serving d \<Longrightarrow> da_sockets d' = (a, GRPCServer i) # da_sockets d \<Longrightarrow> i = 0 \<or> i = 1 \<and> ServerTLS (da_conf d) \<noteq> None \<Longrightarrow> serving d'"
  by (simp add: serving_def closable_def sameServers_eq twoServers_index)

lemma middle_stages_serving:
  assumes "f \<in> set [startInstance E, startGRPC E, startGateway E, startPool E, startHandler E]" "serving d"
  shows "serving (snd (f d))"
proof -
  consider "f = startInstance E" | "f = startGRPC E" | "f = startGateway E" | "f = startPool E" | "f = startHandler E" using assms(1) by auto
  then show ?thesis
  proof cases
    case 2
    then show ?thesis using startGRPC_sel [where d = d and E = E] serving_same [OF _ assms(2)] serving_open [OF _ assms(2)] by blast
  next
    case 3
    then show ?thesis using startGateway_sel [where d = d and E = E] serving_same [OF _ assms(2)] serving_open [OF _ assms(2)] by blast
  qed (use startInstance_sel [where d = d and E = E] startPool_sel [where d = d and E = E] startHandler_sel [where d = d and E = E] serving_same [OF _ assms(2)] in blast)+
qed

lemma early_stages_open_nothing:
  "f \<in> set [startAdvertise, startMetrics E, startTLS E] \<Longrightarrow> da_sockets d = [] \<Longrightarrow> da_sockets (snd (f d)) = []"
  by (auto simp: startAdvertise_sel startMetrics_sel startTLS_sel)

lemma startServers_serving: "da_sockets d = [] \<Longrightarrow> serving (snd (startServers d)) \<and> fst (startServers d) = None"
  by (auto simp: startServers_def serving_def closable_def twoServers_def ServerTLS_def split: option.splits)

lemma prefix_closable:
  assumes "da_sockets d = []"
    "runStages [startAdvertise, startMetrics E, startTLS E, startServers, startInstance E, startGRPC E, startGateway E, startPool E, startHandler E] d = (r, d')"
  shows "closable d'"
proof -
  let ?A = "[startAdvertise, startMetrics E, startTLS E]"
  let ?B = "[startInstance E, startGRPC E, startGateway E, startPool E, startHandler E]"
  obtain r1 d1 where 1: "runStages ?A d = (r1, d1)" by fastforce
  have "da_sockets d1 = []"
    by (rule runStages_inv [of ?A "\<lambda>d. da_sockets d = []", OF _ assms(1) 1]) (rule early_stages_open_nothing)
  show ?thesis
  proof (cases r1)
    case (Some e)
    with assms(2) 1 runStages_append [of ?A "startServers # ?B" d] have "d' = d1" by simp
    with \<open>da_sockets d1 = []\<close> show ?thesis by (simp add: closable_def)
  next
    case None
    obtain d2 where s: "startServers d1 = (None, d2)" "serving d2"
      using startServers_serving [OF \<open>da_sockets d1 = []\<close>] by (metis prod.collapse)
    from assms(2) 1 None runStages_append [of ?A "startServers # ?B" d] have "runStages (startServers # ?B) d1 = (r, d')" by simp
    with s(1) have B: "runStages ?B d2 = (r, d')" by simp
    have "serving d'"
      by (rule runStages_inv [of ?B serving, OF _ s(2) B]) (rule middle_stages_serving)
    then show ?thesis by (simp add: serving_def)
  qed
qed

lemma closesSocket_mono:
  assumes "da_grpcSrvs d' = da_grpcSrvs d" "da_httpSrv d \<noteq> None \<Longrightarrow> da_httpSrv d' \<noteq> None" "da_httpSrvNoMTLS d \<noteq> None \<Longrightarrow> da_httpSrvNoMTLS d' \<noteq> None"
    "closesSocket d s"
  shows "closesSocket d' s"
  using assms by (cases s) auto

text \<open>The sockets that \<^verbatim>\<open>Close\<close> leaves open.\<close>

definition leftOpen :: "('s, 'c) Daemon \<Rightarrow> (string \<times> sockOwner) list" where
  "leftOpen d = filter (\<lambda>(_, s). \<not> closesSocket d s) (da_sockets d)"

lemma closable_leftOpen: "closable d \<longleftrightarrow> leftOpen d = []"
  by (auto simp: closable_def leftOpen_def filter_empty_conv)

lemma startHTTP_sockets:
  assumes "closable d" "startHTTP E d = (r, d')"
  shows "case r of Some _ \<Rightarrow> closable d' | None \<Rightarrow> (\<exists>a. leftOpen d' = [(a, NoServer)]) \<and> da_httpSrv d' \<noteq> None" "da_conf d' = da_conf d"
proof -
  have sel: "da_grpcSrvs d' = da_grpcSrvs d" "da_httpSrv d' \<noteq> None" "da_httpSrvNoMTLS d' = da_httpSrvNoMTLS d" "da_conf d' = da_conf d"
    "r \<noteq> None \<and> da_sockets d' = da_sockets d \<or> r = None \<and> (\<exists>a. da_sockets d' = (a, NoServer) # da_sockets d)"
    using assms(2) by (auto simp: startHTTP_def Let_def split: sum.splits)
  have mono: "closesSocket d s \<Longrightarrow> closesSocket d' s" for s by (rule closesSocket_mono [of d' d]) (use sel in auto)
  then have "filter (\<lambda>(_, s). \<not> closesSocket d' s) (da_sockets d) = []"
    using assms(1) by (auto simp: closable_def filter_empty_conv)
  then show "case r of Some _ \<Rightarrow> closable d' | None \<Rightarrow> (\<exists>a. leftOpen d' = [(a, NoServer)]) \<and> da_httpSrv d' \<noteq> None"
    using sel(2,5) by (auto simp: closable_leftOpen leftOpen_def split: option.splits)
qed (use assms(2) in \<open>auto simp: startHTTP_def Let_def split: sum.splits\<close>)

lemma startStatus_sockets:
  assumes "leftOpen d = [(a, NoServer)]" "da_httpSrv d \<noteq> None" "startStatus E d = (r, d')"
  shows "leftOpen d' = [(a, NoServer)] \<and> da_httpSrv d' \<noteq> None \<and> da_conf d' = da_conf d"
    "r = Some e \<Longrightarrow> ServerTLS (da_conf d) \<noteq> None \<and> dm_HTTPStatusListenAddress (da_conf d) \<noteq> '''' \<and>
       (\<exists>e'. li_Status (de_listen E) (dm_HTTPStatusListenAddress (da_conf d)) = Inl e' \<and> e = WrapErr ''while starting HTTP listener for health metric'' e')"
proof -
  have sel: "da_grpcSrvs d' = da_grpcSrvs d" "da_httpSrv d' = da_httpSrv d" "da_httpSrvNoMTLS d \<noteq> None \<Longrightarrow> da_httpSrvNoMTLS d' \<noteq> None" "da_conf d' = da_conf d"
    "da_sockets d' = da_sockets d \<or> da_httpSrvNoMTLS d' \<noteq> None \<and> (\<exists>b. da_sockets d' = (b, StatusServer) # da_sockets d)"
    using assms(3) by (auto simp: startStatus_def Let_def split: sum.splits option.splits if_splits)
  have mono: "closesSocket d s \<Longrightarrow> closesSocket d' s" for s by (rule closesSocket_mono [of d' d]) (use sel in auto)
  have "filter (\<lambda>(_, s). \<not> closesSocket d' s) (da_sockets d) = filter (\<lambda>(_, s). \<not> closesSocket d' s) (leftOpen d)"
    unfolding leftOpen_def filter_filter by (intro filter_cong) (auto dest: mono)
  then have "filter (\<lambda>(_, s). \<not> closesSocket d' s) (da_sockets d) = [(a, NoServer)]" by (simp add: assms(1))
  then show "leftOpen d' = [(a, NoServer)] \<and> da_httpSrv d' \<noteq> None \<and> da_conf d' = da_conf d"
    using sel assms(2) by (auto simp: leftOpen_def)
qed (use assms(3) in \<open>auto simp: startStatus_def Let_def split: sum.splits option.splits if_splits\<close>)

lemma startServe_closable:
  assumes "leftOpen d = [(a, NoServer)]" "da_httpSrv d \<noteq> None"
  shows "closable (snd (startServe d))"
proof -
  let ?d = "snd (startServe d)"
  have "closesSocket ?d (if s = NoServer then HTTPServer else s)" if "x \<in> set (da_sockets d)" "snd x = s" for x s
  proof (cases "closesSocket d s")
    case True
    then have "closesSocket ?d s" by (rule closesSocket_mono [rotated 3]) (auto simp: startServe_def)
    then show ?thesis using True by auto
  next
    case False
    with that have "x \<in> set (leftOpen d)" by (auto simp: leftOpen_def)
    with assms that show ?thesis by (auto simp: startServe_def)
  qed
  then show ?thesis by (fastforce simp: closable_def startServe_def split: if_splits)
qed

lemma Start_sockets:
  assumes "da_sockets d = []" "Start E d = (r, d')"
  shows "closable d' \<or> (\<exists>a e'. leftOpen d' = [(a, NoServer)] \<and> ServerTLS (da_conf d') \<noteq> None \<and>
    li_Status (de_listen E) (dm_HTTPStatusListenAddress (da_conf d')) = Inl e' \<and> r = Some (WrapErr ''while starting HTTP listener for health metric'' e'))"
proof -
  let ?A = "[startAdvertise, startMetrics E, startTLS E, startServers, startInstance E, startGRPC E, startGateway E, startPool E, startHandler E]"
  let ?B = "[startHTTP E, startStatus E, startServe, startWait E]"
  obtain r1 d1 where 1: "runStages ?A d = (r1, d1)" by fastforce
  note c1 = prefix_closable [OF assms(1) 1]
  have S: "(case r1 of Some e \<Rightarrow> (Some e, d1) | None \<Rightarrow> runStages ?B d1) = (r, d')"
    using assms(2) 1 runStages_append [of ?A ?B d] by (simp add: Start_def)
  show ?thesis
  proof (cases r1)
    case None
    obtain r2 d2 where 2: "startHTTP E d1 = (r2, d2)" by fastforce
    note H = startHTTP_sockets [OF c1 2]
    show ?thesis
    proof (cases r2)
      case (Some e)
      with H(1) have "closable d2" by simp
      moreover have "d' = d2" using S None 2 Some by simp
      ultimately show ?thesis by simp
    next
      case n2: None
      with H obtain a where a: "leftOpen d2 = [(a, NoServer)]" "da_httpSrv d2 \<noteq> None" by auto
      obtain r3 d3 where 3: "startStatus E d2 = (r3, d3)" by fastforce
      note T = startStatus_sockets [OF a 3]
      show ?thesis
      proof (cases r3)
        case (Some e)
        with S None 2 3 n2 have "d' = d3" "r = Some e" by simp_all
        with T Some show ?thesis by auto
      next
        case n3: None
        obtain d4 where 4: "startServe d3 = (None, d4)" by (simp add: startServe_def)
        have "closable d4" using startServe_closable [of d3 a] T(1) 4 by simp
        moreover have "d' = d4" using S None 2 3 4 n2 n3 by (auto simp: startWait_def split: option.splits)
        ultimately show ?thesis by simp
      qed
    qed
  qed (use S c1 in simp)
qed

text \<open>
  C0. A daemon that cannot be started releases its sockets: after \<^verbatim>\<open>SpawnDaemon\<close> has failed, no socket is left
  open, unless what failed was the listener of the status endpoint; then exactly the HTTP listener, which no
  server serves yet, stays open.
\<close>

theorem failed_spawn_sockets:
  assumes "SpawnDaemon E save conf l = (Some e, d, l')" "\<And>msg. e \<noteq> Panic msg"
  shows "da_sockets d = [] \<or> (\<exists>a e'. da_sockets d = [(a, NoServer)] \<and> ServerTLS (da_conf d) \<noteq> None
    \<and> li_Status (de_listen E) (dm_HTTPStatusListenAddress (da_conf d)) = Inl e' \<and> e = WrapErr ''while starting HTTP listener for health metric'' e')"
proof -
  obtain r d1 where S: "Start E (newDaemon conf) = (r, d1)" by fastforce
  with assms(1) obtain e1 where r: "r = Some e1" by (cases r) (auto simp: SpawnDaemon_def)
  let ?close = "CloseDaemon (ip_errCache (de_instance E)) save (ip_now (de_instance E)) (d1, l)"
  obtain panic d2 l2 where c: "?close = (panic, d2, l2)" by (cases ?close) auto
  have "panic = None"
  proof (cases panic)
    case (Some m)
    with c have "\<exists>msg. m = Panic msg"
      by (auto simp: CloseDaemon_def CloseK8s_def Let_def split: option.splits prod.splits pool.splits if_splits elim!: closePool.elims)
    with Some assms S r c show ?thesis by (auto simp: SpawnDaemon_def)
  qed simp
  then have d: "d = d2" "e = e1" using assms(1) S r c by (simp_all add: SpawnDaemon_def)
  have sock: "da_sockets d2 = leftOpen d1" "da_conf d2 = da_conf d1"
    using c \<open>panic = None\<close> by (auto simp: CloseDaemon_def leftOpen_def Let_def split: option.splits prod.splits)
  have "da_sockets (newDaemon conf) = []" by (simp add: newDaemon_def)
  from Start_sockets [OF this S] show ?thesis using d sock r by (auto simp: closable_leftOpen)
qed

subsection \<open>Client certificates\<close>

lemma SetupTLS_Some: "SetupTLS f cy net (Some c) = Inr (t, rs) \<Longrightarrow> \<exists>c'. t = Some c'"
  by (auto simp: SetupTLS_def bindE_Inr_iff Let_def split: if_splits)

lemma early_effects:
  "startAdvertise d = (r, d') \<Longrightarrow> dm_TLS (da_conf d') = dm_TLS (da_conf d) \<and> da_sockets d' = da_sockets d \<and> da_httpSrvNoMTLS d' = da_httpSrvNoMTLS d"
  "startMetrics E d = (r, d') \<Longrightarrow> da_conf d' = da_conf d \<and> da_sockets d' = da_sockets d \<and> da_httpSrvNoMTLS d' = da_httpSrvNoMTLS d"
  "startTLS E d = (None, d') \<Longrightarrow> \<exists>t rs. SetupTLS (os_setTLS (de_outside E)) (os_crypto (de_outside E)) (ho_net (os_host (de_outside E))) (dm_TLS (da_conf d)) = Inr (t, rs)
     \<and> dm_TLS (da_conf d') = t \<and> da_sockets d' = da_sockets d \<and> da_httpSrvNoMTLS d' = da_httpSrvNoMTLS d"
  by (auto simp: startAdvertise_def startMetrics_def startTLS_def Let_def split: option.splits sum.splits prod.splits)

lemma middle_effects:
  "startInstance E d = (r, d') \<Longrightarrow> sameServers d d' \<and> da_sockets d' = da_sockets d"
  "startGRPC E d = (None, d') \<Longrightarrow> sameServers d d' \<and> (\<exists>a. da_sockets d' = (a, GRPCServer 0) # da_sockets d)"
  "startPool E d = (r, d') \<Longrightarrow> sameServers d d' \<and> da_sockets d' = da_sockets d"
  "startHandler E d = (r, d') \<Longrightarrow> sameServers d d' \<and> da_sockets d' = da_sockets d"
  "startGateway E d = (None, d') \<Longrightarrow> ServerTLS (da_conf d) = Some s \<Longrightarrow>
     sameServers d d' \<and> (\<exists>a. li_Gateway (de_listen E) ''127.0.0.1:0'' = Inr a \<and> da_sockets d' = (a, GRPCServer 1) # da_sockets d)"
  by (auto simp: startInstance_def startGRPC_def startPool_def startHandler_def startGateway_def sameServers_def Let_def split: option.splits sum.splits)

lemma late_effects:
  "startHTTP E d = (None, d') \<Longrightarrow> da_conf d' = da_conf d \<and> da_grpcSrvs d' = da_grpcSrvs d \<and> da_httpSrv d' \<noteq> None
     \<and> da_httpSrvNoMTLS d' = da_httpSrvNoMTLS d \<and> (\<exists>a. da_sockets d' = (a, NoServer) # da_sockets d)"
  "startStatus E d = (None, d') \<Longrightarrow> da_conf d' = da_conf d \<and> da_grpcSrvs d' = da_grpcSrvs d \<and> da_httpSrv d' = da_httpSrv d
     \<and> (da_httpSrvNoMTLS d' = da_httpSrvNoMTLS d \<or> (\<exists>h. da_httpSrvNoMTLS d' = Some h \<and> hs_routes h = [''/v1/HealthCheck'']))
     \<and> (da_sockets d' = da_sockets d \<or> (\<exists>a. da_sockets d' = (a, StatusServer) # da_sockets d))"
  by (auto simp: startHTTP_def startStatus_def Let_def split: option.splits sum.splits if_splits)

text \<open>
  C0. Every public endpoint asks for client certificates: when a daemon whose configuration names a client
  authentication type is running, the public gRPC server and the HTTP server have it, with a pool of
  authorities that is not empty; the gRPC server without credentials is the one of the gateway, which
  listens on the loopback interface; and the status server, which does not ask, serves the health check only.
\<close>

theorem public_endpoints_authenticate:
  assumes "good_default (os_setTLS (de_outside E))" "dm_TLS conf = Some t" "tl_ServerTLS t = None" "tl_ClientAuth t \<noteq> NoClientCert"
    "SpawnDaemon E save conf l = (None, d, l')"
  shows "\<exists>s h. ServerTLS (da_conf d) = Some s \<and> tls_ClientAuth s = tl_ClientAuth t \<and> (\<exists>pool. tls_ClientCAs s = Some pool \<and> pool \<noteq> [])
    \<and> da_grpcSrvs d = [Some s, None] \<and> (\<forall>a. (a, GRPCServer 1) \<in> set (da_sockets d) \<longrightarrow> li_Gateway (de_listen E) ''127.0.0.1:0'' = Inr a)
    \<and> da_httpSrv d = Some h \<and> hs_TLSConfig h = Some s
    \<and> (\<forall>h'. da_httpSrvNoMTLS d = Some h' \<longrightarrow> hs_routes h' = [''/v1/HealthCheck''])"
proof -
  from assms(5) have "Start E (newDaemon conf) = (None, d)"
    by (auto simp: SpawnDaemon_def split: prod.splits option.splits)
  then obtain d1 d2 d3 d4 d5 d6 d7 d8 d9 d10 d11 d12 where st:
      "startAdvertise (newDaemon conf) = (None, d1)" "startMetrics E d1 = (None, d2)" "startTLS E d2 = (None, d3)"
      "startServers d3 = (None, d4)" "startInstance E d4 = (None, d5)" "startGRPC E d5 = (None, d6)" "startGateway E d6 = (None, d7)"
      "startPool E d7 = (None, d8)" "startHandler E d8 = (None, d9)" "startHTTP E d9 = (None, d10)" "startStatus E d10 = (None, d11)"
      "startServe d11 = (None, d12)" "startWait E d12 = (None, d)"
    unfolding Start_def runStages_None by blast
  have tls2: "dm_TLS (da_conf d2) = Some t" "da_sockets d2 = []" "da_httpSrvNoMTLS d2 = None"
    using early_effects(1) [OF st(1)] early_effects(2) [OF st(2)] assms(2) by (simp_all add: newDaemon_def)
  from early_effects(3) [OF st(3)] tls2 obtain t0 rs where
    tlsOk: "SetupTLS (os_setTLS (de_outside E)) (os_crypto (de_outside E)) (ho_net (os_host (de_outside E))) (Some t) = Inr (t0, rs)"
    and d3: "dm_TLS (da_conf d3) = t0" "da_sockets d3 = []" "da_httpSrvNoMTLS d3 = None" by auto
  from SetupTLS_Some [OF tlsOk] obtain t' where t0: "t0 = Some t'" by blast
  from SetupTLS_client_auth [OF assms(1,3,4) tlsOk [unfolded t0]] obtain s where
    s: "tl_ServerTLS t' = Some s" "tls_ClientAuth s = tl_ClientAuth t" "\<exists>pool. tls_ClientCAs s = Some pool \<and> pool \<noteq> []" by metis
  have d4: "ServerTLS (da_conf d4) = Some s" "da_grpcSrvs d4 = [Some s, None]" "da_sockets d4 = []" "da_httpSrvNoMTLS d4 = None"
    using st(4) d3 t0 s(1) by (auto simp: startServers_def ServerTLS_def)
  have s6: "sameServers d4 d6" "\<exists>a. da_sockets d6 = [(a, GRPCServer 0)]"
    using middle_effects(1) [OF st(5)] middle_effects(2) [OF st(6)] d4(3) by (auto simp: sameServers_def)
  then have "ServerTLS (da_conf d6) = Some s" using d4(1) by (simp add: sameServers_def)
  from middle_effects(5) [OF st(7) this] s6 obtain a g where
    s7: "sameServers d4 d7" "li_Gateway (de_listen E) ''127.0.0.1:0'' = Inr g" "da_sockets d7 = [(g, GRPCServer 1), (a, GRPCServer 0)]"
    by (auto simp: sameServers_def)
  have s9: "sameServers d4 d9" "da_sockets d9 = da_sockets d7"
    using middle_effects(3) [OF st(8)] middle_effects(4) [OF st(9)] s7(1) by (auto simp: sameServers_def)
  have d11: "ServerTLS (da_conf d11) = Some s" "da_grpcSrvs d11 = [Some s, None]" "da_httpSrv d11 \<noteq> None"
      "\<forall>h'. da_httpSrvNoMTLS d11 = Some h' \<longrightarrow> hs_routes h' = [''/v1/HealthCheck'']"
      "\<forall>x. (x, GRPCServer 1) \<in> set (da_sockets d11) \<longrightarrow> x = g"
    using late_effects(1) [OF st(10)] late_effects(2) [OF st(11)] s9 s7(3) d4 by (auto simp: sameServers_def)
  have "d = d12" using st(13) by (simp add: startWait_def)
  with st(12) d11 have "ServerTLS (da_conf d) = Some s" "da_grpcSrvs d = [Some s, None]"
      "\<exists>h. da_httpSrv d = Some h \<and> hs_TLSConfig h = Some s" "da_httpSrvNoMTLS d = da_httpSrvNoMTLS d11"
      "(x, GRPCServer 1) \<in> set (da_sockets d) \<longleftrightarrow> (x, GRPCServer 1) \<in> set (da_sockets d11)" for x
    by (force simp: startServe_def split: if_splits)+
  with s(2,3) s7(2) d11(4,5) show ?thesis by auto
qed

subsection \<open>Concrete daemons\<close>

definition sampleDaemonConf :: DaemonConfig where
  "sampleDaemonConf =
     \<lparr>dm_GRPCListenAddress = ''10.0.0.1:1051'', dm_HTTPListenAddress = ''10.0.0.1:1050'', dm_HTTPStatusListenAddress = ''10.0.0.1:1040'',
      dm_GRPCMaxConnectionAgeSeconds = 0, dm_GracefulTerminationDelaySeconds = 0, dm_AdvertiseAddress = ''10.0.0.1:1051'', dm_CacheSize = 100, dm_Workers = 1,
      dm_Behaviors = behaviorsFromEnv stdSetter [], dm_DataCenter = '''', dm_PeerDiscoveryType = ''none'',
      dm_EtcdPoolConf = etcdFromEnv stdSetter [] '''' '''', dm_K8PoolConf = \<lparr>kc_Mechanism = '''', kc_Namespace = '''', kc_Selector = '''', kc_ServiceName = '''', kc_PodIP = '''', kc_PodPort = ''''\<rparr>,
      dm_DNSPoolConf = dnsFromEnv stdSetter [] '''' '''', dm_MemberListPoolConf = memberListFromEnv stdSetter [] '''' '''' '''', dm_Picker = None, dm_TLS = Some sampleTLS,
      dm_MetricFlags = 0, dm_InstanceID = ''a'', dm_TraceLevel = 4, dm_hasEventChannel = False, dm_hasStore = False, dm_hasLoader = False\<rparr>"

definition sampleListens :: "bool \<Rightarrow> listens" where
  "sampleListens status =
     \<lparr>li_GRPC = Inr, li_Gateway = (\<lambda>_. Inr ''127.0.0.1:40001''), li_HTTP = Inr, li_Status = (if status then Inr else (\<lambda>_. Inl (Errorf ''in use'')))\<rparr>"

definition samplePools :: poolParams where
  "samplePools =
     \<lparr>pp_restErr = None, pp_clientErr = None, pp_synced = True, pp_events = [], pp_etcdClient = (\<lambda>_. None), pp_json = (\<lambda>_. Inl Canceled),
      pp_register = \<lparr>rc_Grant = None, rc_Put = None, rc_KeepAlive = None\<rparr>, pp_getPrefix = (\<lambda>_. Inr ([], 0)), pp_ready = True, pp_resolvExists = True,
      pp_resolvConf = Inr [], pp_codec = sampleCodec, pp_addKey = (\<lambda>_. None), pp_create = (\<lambda>_. None), pp_joinErr = None, pp_localAddr = '''', pp_early = id\<rparr>"

definition sampleDaemonEnv :: "bool \<Rightarrow> (unit, (string \<times> goerr \<times> int) list) daemonEnv" where
  "sampleDaemonEnv status =
     \<lparr>de_outside = sampleOutside, de_register = None,
      de_instance = \<lparr>ip_xxhash = (\<lambda>_. 0), ip_numCPU = 4, ip_instanceID = ''a'', ip_ops = None, ip_store = (), ip_now = \<lparr>t_ns = 0, t_loc = UTC\<rparr>,
        ip_loaded = Inr [], ip_errCache = stdErrCache, ip_dial = (\<lambda>_ _. None), ip_ctxErr = None\<rparr>,
      de_pools = samplePools, de_listen = sampleListens status, de_gateway = (\<lambda>_. None), de_dial = (\<lambda>_. None), de_ctxErr = DeadlineExceeded\<rparr>"

text \<open>An instance is created whenever the limits of its configuration are in range and there is no loader.\<close>

lemma NewV1Instance_ok:
  assumes "good_setter st" "c_GRPCServers c \<noteq> None" "bc_ScheduleMaxWait (c_Behaviors c) \<ge> 0" "bc_BatchLimit (c_Behaviors c) \<le> maxBatchSize"
    "bc_GlobalBatchLimit (c_Behaviors c) \<ge> 0" "0 < numCPU" "0 \<le> c_Workers c" "\<not> c_hasLoader c"
  shows "\<exists>s. NewV1Instance st defaultHash xxhash numCPU inst ops s0 now loaded c = Inr s"
  using assms by (cases "c_CacheFactory c") (auto simp: NewV1Instance_def SetDefaults_def NewWorkerPool_def newGlobalManager_def newWorker_def Let_def good_setterD maxBatchSize_def)

lemma sample_SetupTLS: "\<exists>t rs. SetupTLS stdDefault sampleCrypto sampleNet (Some sampleTLS) = Inr (Some t, rs) \<and> tl_ServerTLS t \<noteq> None"
  by (simp add: SetupTLS_def stdDefault_def sampleTLS_def sampleCrypto_def loadFiles_def fromFile_def generated_def withRoots_def
      withKeypair_def withClientAuth_def clientPool_def NewKeypairReloader_def LoadX509KeyPair_def wrapE_def guardE_def onServer_def onClient_def Let_def)

text \<open>The stages of the sample up to the status listener.\<close>

lemma sample_Start:
  obtains d where "Start (sampleDaemonEnv status) (newDaemon sampleDaemonConf) = runStages [startStatus (sampleDaemonEnv status), startServe, startWait (sampleDaemonEnv status)] d"
    "ServerTLS (da_conf d) \<noteq> None" "dm_HTTPStatusListenAddress (da_conf d) = ''10.0.0.1:1040''" "da_pool d = None"
proof -
  let ?E = "sampleDaemonEnv status"
  obtain t rs where t: "SetupTLS stdDefault sampleCrypto sampleNet (Some sampleTLS) = Inr (Some t, rs)" "tl_ServerTLS t \<noteq> None"
    using sample_SetupTLS by blast
  let ?d3 = "(newDaemon sampleDaemonConf)\<lparr>da_statsHandler := True, da_conf := sampleDaemonConf\<lparr>dm_TLS := Some t\<rparr>, da_reloaders := rs\<rparr> :: (unit, (string \<times> goerr \<times> int) list) Daemon"
  have A: "runStages [startAdvertise, startMetrics ?E, startTLS ?E] (newDaemon sampleDaemonConf) = (None, ?d3)"
    using t by (simp add: startAdvertise_def startMetrics_def startTLS_def sampleDaemonEnv_def newDaemon_def sampleDaemonConf_def sampleOutside_def)
  obtain d4 where d4: "startServers ?d3 = (None, d4)" "da_conf d4 = da_conf ?d3" "da_pool d4 = None" by (simp add: startServers_def newDaemon_def)
  have "\<exists>s. newInstance ?E (instanceConf (de_outside ?E) d4) = Inr s"
    unfolding newInstance_def Let_def
    by (rule NewV1Instance_ok) (auto simp: sampleDaemonEnv_def sampleOutside_def good_stdSetter instanceConf_def d4 Let_def sampleDaemonConf_def
        behaviorsFromEnv_def good_setterD [OF good_stdSetter] getEnvDuration_def getEnvInteger_def Getenv_def maxBatchSize_def)
  then obtain d5 where d5: "startInstance ?E d4 = (None, d5)" "da_conf d5 = da_conf ?d3" "da_pool d5 = None" using d4(2,3) by (auto simp: startInstance_def)
  obtain d6 where d6: "startGRPC ?E d5 = (None, d6)" "da_conf d6 = da_conf ?d3" "da_pool d6 = None"
    using d5(2,3) by (simp add: startGRPC_def sampleDaemonEnv_def sampleListens_def)
  have tls: "ServerTLS (da_conf ?d3) \<noteq> None" using t(2) by (simp add: ServerTLS_def)
  obtain d7 where d7: "startGateway ?E d6 = (None, d7)" "da_conf d7 = da_conf ?d3" "da_pool d7 = None"
    using d6(2,3) tls by (simp add: startGateway_def sampleDaemonEnv_def sampleListens_def)
  obtain d8 where d8: "startPool ?E d7 = (None, d8)" "da_conf d8 = da_conf ?d3" "da_pool d8 = None"
    using d7(2,3) by (simp add: startPool_def discover_def sampleDaemonConf_def)
  obtain d9 where d9: "startHandler ?E d8 = (None, d9)" "da_conf d9 = da_conf ?d3" "da_pool d9 = None"
    using d8(2,3) by (simp add: startHandler_def sampleDaemonEnv_def)
  obtain d10 where d10: "startHTTP ?E d9 = (None, d10)" "da_conf d10 = da_conf ?d3" "da_pool d10 = None"
    using d9(2,3) by (simp add: startHTTP_def sampleDaemonEnv_def sampleListens_def Let_def)
  let ?B = "[startServers, startInstance ?E, startGRPC ?E, startGateway ?E, startPool ?E, startHandler ?E, startHTTP ?E,
    startStatus ?E, startServe, startWait ?E]"
  have "Start ?E (newDaemon sampleDaemonConf) = runStages ?B ?d3"
    unfolding Start_def using runStages_append [of "[startAdvertise, startMetrics ?E, startTLS ?E]" ?B "newDaemon sampleDaemonConf"] unfolding A by simp
  also have "\<dots> = runStages [startStatus ?E, startServe, startWait ?E] d10"
    using d4(1) d5(1) d6(1) d7(1) d8(1) d9(1) d10(1) by simp
  finally show thesis by (rule that) (use d10(2,3) tls in \<open>simp_all add: sampleDaemonConf_def\<close>)
qed

text \<open>A daemon with mutual TLS and a status endpoint runs.\<close>

theorem public_endpoints_authenticate_witness:
  "\<exists>d s. SpawnDaemon (sampleDaemonEnv True) (\<lambda>_ l. (Inr (), l)) sampleDaemonConf () = (None, d, ()) \<and> ServerTLS (da_conf d) = Some s
     \<and> tls_ClientAuth s = RequireAndVerifyClientCert \<and> da_grpcSrvs d = [Some s, None]"
proof -
  obtain d where d: "Start (sampleDaemonEnv True) (newDaemon sampleDaemonConf) = runStages [startStatus (sampleDaemonEnv True), startServe, startWait (sampleDaemonEnv True)] d"
    "ServerTLS (da_conf d) \<noteq> None" "dm_HTTPStatusListenAddress (da_conf d) = ''10.0.0.1:1040''" "da_pool d = None" by (rule sample_Start)
  then have "\<exists>d'. Start (sampleDaemonEnv True) (newDaemon sampleDaemonConf) = (None, d')"
    by (auto simp: startStatus_def startServe_def startWait_def sampleDaemonEnv_def sampleListens_def WaitForConnect_def Let_def)
  then obtain d' where ok: "SpawnDaemon (sampleDaemonEnv True) (\<lambda>_ l. (Inr (), l)) sampleDaemonConf () = (None, d', ())"
    by (auto simp: SpawnDaemon_def)
  have "good_default (os_setTLS (de_outside (sampleDaemonEnv True)))" "dm_TLS sampleDaemonConf = Some sampleTLS" "tl_ServerTLS sampleTLS = None"
      "tl_ClientAuth sampleTLS \<noteq> NoClientCert" "tl_ClientAuth sampleTLS = RequireAndVerifyClientCert"
    by (simp_all add: sampleDaemonEnv_def sampleOutside_def good_stdDefault sampleDaemonConf_def sampleTLS_def)
  from public_endpoints_authenticate [OF this(1-4) ok] this(5) ok show ?thesis by auto
qed

text \<open>The status endpoint cannot be opened, and the HTTP listener stays open.\<close>

theorem failed_spawn_sockets_witness:
  "\<exists>e d. SpawnDaemon (sampleDaemonEnv False) (\<lambda>_ l. (Inr (), l)) sampleDaemonConf () = (Some e, d, ()) \<and> length (da_sockets d) \<le> 1"
proof -
  let ?E = "sampleDaemonEnv False"
  obtain d where d: "Start ?E (newDaemon sampleDaemonConf) = runStages [startStatus ?E, startServe, startWait ?E] d"
    "ServerTLS (da_conf d) \<noteq> None" "dm_HTTPStatusListenAddress (da_conf d) = ''10.0.0.1:1040''" "da_pool d = None" by (rule sample_Start)
  let ?e = "WrapErr ''while starting HTTP listener for health metric'' (Errorf ''in use'')"
  from d obtain d' where st: "Start ?E (newDaemon sampleDaemonConf) = (Some ?e, d')" "da_pool d' = None"
    by (auto simp: startStatus_def sampleDaemonEnv_def sampleListens_def Let_def)
  obtain p d2 l2 where c: "CloseDaemon (ip_errCache (de_instance ?E)) (\<lambda>_ l. (Inr (), l)) (ip_now (de_instance ?E)) (d', ()) = (p, d2, l2)"
    by (metis surj_pair)
  moreover from c have "p = None" using st(2) by (auto simp: CloseDaemon_def Let_def split: prod.splits)
  ultimately have ok: "SpawnDaemon ?E (\<lambda>_ l. (Inr (), l)) sampleDaemonConf () = (Some ?e, d2, ())"
    using st(1) by (simp add: SpawnDaemon_def)
  have "length (da_sockets d2) \<le> 1" using failed_spawn_sockets [OF ok] by auto
  with ok show ?thesis by blast
qed

subsection \<open>Waiting and closing twice\<close>

text \<open>One refused connection is final: the addresses are not dialled again while the context lasts.\<close>

lemma WaitForConnect_no_retry:
  "a \<in> set addresses \<Longrightarrow> a \<noteq> '''' \<Longrightarrow> dial a \<noteq> None \<Longrightarrow> WaitForConnect dial ctxErr addresses = Some ctxErr"
  by (auto simp: WaitForConnect_def filter_empty_conv)

text \<open>Closing a daemon keeps its pool, so that closing it again closes a Kubernetes pool twice, which panics.\<close>

lemma k8s_second_close_panics:
  assumes "da_pool d = Some (K8sPoolOf p)" "CloseDaemon ec save now (d, l) = (None, d', l')"
  shows "\<exists>m d'' l''. CloseDaemon ec save now (d', l') = (Some (Panic m), d'', l'')"
proof -
  have "\<exists>p'. da_pool d' = Some (K8sPoolOf p') \<and> kp_done p'"
    using assms by (auto simp: CloseDaemon_def CloseK8s_def Let_def split: prod.splits if_splits)
  then show ?thesis by (auto simp: CloseDaemon_def CloseK8s_def)
qed

text \<open>Without TLS the gateway connects to the listen address as it is configured, also if that is an unspecified address.\<close>

lemma gateway_address_not_resolved:
  assumes "good_contains (os_contains (de_outside E))" "portOk p" "dm_GRPCListenAddress (da_conf d) = JoinHostPort ''0.0.0.0'' p" "ServerTLS (da_conf d) = None"
    "startGateway E d = (r, d')"
  shows "da_gatewayAddr d' = JoinHostPort ''0.0.0.0'' p"
  using assms by (auto simp: startGateway_def ResolveHostIP_with_port)

end
