(* ===== verification/Spec2Isabelle.thy ===== *)
theory Spec2Isabelle
  imports Daemon
begin

text \<open>
  A verification library for Gubernator.
\<close>

end
